(* ===== verification/Gw_Prelude.thy ===== *)
theory Gw_Prelude
  imports Main "HOL-Library.Word" "HOL-Library.Multiset"
begin

text \<open>
  What every component of the gateway's model shares: the machine integer types, the control
  structures of the Rust source (the \<open>?\<close> operator and \<open>for\<close> loops with early returns as sums,
  panicking code as \<open>option\<close>), the text helpers of the standard library that the source calls
  (decimal printing, \<open>join\<close>), and the list lemmas the components share.

  A fallible function returns \<open>error + 'a\<close>: \<open>Inl e\<close> is Rust's \<open>Err(e)\<close>, \<open>Inr x\<close> is \<open>Ok(x)\<close>.
  A function that can panic returns \<open>'a option\<close>: \<open>None\<close> is the panic. A Rust \<open>String\<close> is a
  HOL \<open>string\<close>, one \<open>char\<close> for each byte of its UTF-8 encoding, so \<open>length\<close> is \<open>String::len\<close>.
\<close>

type_synonym u8 = "8 word"
type_synonym u16 = "16 word"
type_synonym u32 = "32 word"
type_synonym u64 = "64 word"

named_theorems panic_free \<open>operations that do not panic, as conditional equations\<close>
named_theorems step_simps \<open>one step of a component, branch by branch\<close>

lemma unat_u8_less: "unat (w :: u8) < 2 ^ 8"
  using unsigned_less [of w] by simp

lemma unat_u16_less: "unat (w :: u16) < 2 ^ 16"
  using unsigned_less [of w] by simp

lemma unat_ucast_u16_u32 [simp]: "unat (ucast (w :: u16) :: u32) = unat w"
proof -
  have "unat w < 2 ^ 32" using unat_u16_less [of w] by simp
  then show ?thesis by (simp add: unsigned_ucast_eq take_bit_nat_eq_self)
qed

lemma unat_of_nat_u32: "n < 2 ^ 32 \<Longrightarrow> unat (word_of_nat n :: u32) = n"
  by (simp add: unat_of_nat take_bit_nat_eq_self)

lemma uint_of_nat_u32: "n < 2 ^ 32 \<Longrightarrow> uint (word_of_nat n :: u32) = int n"
  by (metis unat_of_nat_u32 uint_nat)

lemma unat_of_nat_u64: "n < 2 ^ 64 \<Longrightarrow> unat (word_of_nat n :: u64) = n"
  by (simp add: unat_of_nat take_bit_nat_eq_self)

section \<open>Fallible code\<close>

definition try_then :: "'e + 'a \<Rightarrow> ('a \<Rightarrow> 'e + 'b) \<Rightarrow> 'e + 'b" where
  "try_then r k = (case r of Inl e \<Rightarrow> Inl e | Inr x \<Rightarrow> k x)"

lemma try_then_simps [simp]:
  "try_then (Inl e) k = Inl e" "try_then (Inr x) k = k x"
  by (simp_all add: try_then_def)

lemma try_then_Inr_iff: "try_then r k = Inr y \<longleftrightarrow> (\<exists>x. r = Inr x \<and> k x = Inr y)"
  by (cases r) auto

lemma try_then_Inl_iff:
  "try_then r k = Inl e \<longleftrightarrow> r = Inl e \<or> (\<exists>x. r = Inr x \<and> k x = Inl e)"
  by (cases r) auto

text \<open>A \<open>for\<close> loop that threads a state and may return an error from its body.\<close>

primrec try_fold :: "('s \<Rightarrow> 'a \<Rightarrow> 'e + 's) \<Rightarrow> 's \<Rightarrow> 'a list \<Rightarrow> 'e + 's" where
  "try_fold f s [] = Inr s"
| "try_fold f s (x # xs) = try_then (f s x) (\<lambda>s'. try_fold f s' xs)"

text \<open>The same without a state, and with the results collected.\<close>

primrec try_each :: "('a \<Rightarrow> 'e + unit) \<Rightarrow> 'a list \<Rightarrow> 'e + unit" where
  "try_each f [] = Inr ()"
| "try_each f (x # xs) = try_then (f x) (\<lambda>_. try_each f xs)"

primrec try_map :: "('a \<Rightarrow> 'e + 'b) \<Rightarrow> 'a list \<Rightarrow> 'e + 'b list" where
  "try_map f [] = Inr []"
| "try_map f (x # xs) = try_then (f x) (\<lambda>y. try_then (try_map f xs) (\<lambda>ys. Inr (y # ys)))"

lemma try_each_Inr_iff: "try_each f xs = Inr u \<longleftrightarrow> (\<forall>x \<in> set xs. f x = Inr ())"
  by (induction xs) (auto simp: try_then_Inr_iff)

lemma try_each_Inl_D: "try_each f xs = Inl e \<Longrightarrow> \<exists>x \<in> set xs. f x = Inl e"
  by (induction xs) (auto simp: try_then_Inl_iff)

lemma try_map_Inr_iff:
  "try_map f xs = Inr ys \<longleftrightarrow> list_all2 (\<lambda>x y. f x = Inr y) xs ys"
  by (induction xs arbitrary: ys) (auto simp: try_then_Inr_iff list_all2_Cons1)

lemma try_map_Inr_map_iff:
  assumes "\<And>x y. f x = Inr y \<longleftrightarrow> P x \<and> y = g x"
  shows "try_map f xs = Inr ys \<longleftrightarrow> (\<forall>x \<in> set xs. P x) \<and> ys = map g xs"
  by (induction xs arbitrary: ys) (auto simp: try_then_Inr_iff assms)

lemma try_map_id_Inr_iff: "try_map (\<lambda>r. r) rs = Inr xs \<longleftrightarrow> rs = map Inr xs"
  by (induction rs arbitrary: xs) (auto simp: try_then_Inr_iff)

lemma try_map_Inl_D: "try_map f xs = Inl e \<Longrightarrow> \<exists>x \<in> set xs. f x = Inl e"
  by (induction xs) (auto simp: try_then_Inl_iff)

lemma try_fold_Inl_D:
  "try_fold f s xs = Inl e \<Longrightarrow>
     \<exists>pre x post s'. xs = pre @ x # post \<and> try_fold f s pre = Inr s' \<and> f s' x = Inl e"
proof (induction xs arbitrary: s)
  case (Cons x xs)
  then consider "f s x = Inl e" | s' where "f s x = Inr s'" "try_fold f s' xs = Inl e"
    by (auto simp: try_then_Inl_iff)
  then show ?case
  proof cases
    case 1
    then have "x # xs = [] @ x # xs" "try_fold f s [] = Inr s" by simp_all
    with 1 show ?thesis by blast
  next
    case 2
    from Cons.IH [OF this(2)] obtain pre y post s'' where
      "xs = pre @ y # post" "try_fold f s' pre = Inr s''" "f s'' y = Inl e" by blast
    with 2 have "x # xs = (x # pre) @ y # post" "try_fold f s (x # pre) = Inr s''" by simp_all
    with \<open>f s'' y = Inl e\<close> show ?thesis by blast
  qed
qed simp

section \<open>Panicking code\<close>

text \<open>Indexing a slice: \<open>None\<close> is the out-of-bounds panic.\<close>

definition nth_opt :: "'a list \<Rightarrow> nat \<Rightarrow> 'a option" where
  "nth_opt xs i = (if i < length xs then Some (xs ! i) else None)"

lemma nth_opt_Some [panic_free]: "i < length xs \<Longrightarrow> nth_opt xs i = Some (xs ! i)"
  by (simp add: nth_opt_def)

lemma nth_opt_None_iff: "nth_opt xs i = None \<longleftrightarrow> length xs \<le> i"
  by (simp add: nth_opt_def)

text \<open>An iterator pipeline whose closure may panic.\<close>

primrec map_opt :: "('a \<Rightarrow> 'b option) \<Rightarrow> 'a list \<Rightarrow> 'b list option" where
  "map_opt f [] = Some []"
| "map_opt f (x # xs) = Option.bind (f x) (\<lambda>y. Option.bind (map_opt f xs) (\<lambda>ys. Some (y # ys)))"

lemma map_opt_None_iff: "map_opt f xs = None \<longleftrightarrow> (\<exists>x \<in> set xs. f x = None)"
  by (induction xs) (auto simp: bind_eq_None_conv)

lemma map_opt_Some_iff: "map_opt f xs = Some ys \<longleftrightarrow> list_all2 (\<lambda>x y. f x = Some y) xs ys"
  by (induction xs arbitrary: ys) (auto simp: bind_eq_Some_conv list_all2_Cons1)

lemma map_opt_map_eq:
  assumes "map_opt f xs = Some ys" and "\<And>x y. f x = Some y \<Longrightarrow> g y = h x"
  shows "map g ys = map h xs"
  using assms(1) by (induction xs arbitrary: ys) (auto simp: bind_eq_Some_conv assms(2))

lemma map_opt_cong_Some [panic_free]:
  "(\<And>x. x \<in> set xs \<Longrightarrow> f x = Some (g x)) \<Longrightarrow> map_opt f xs = Some (map g xs)"
  by (induction xs) auto

section \<open>Text\<close>

fun digits :: "nat \<Rightarrow> string" where
  "digits n = (if n < 10 then [char_of (48 + n)] else digits (n div 10) @ [char_of (48 + n mod 10)])"

declare digits.simps [simp del]

text \<open>\<open>format!("{}", n)\<close> of an unsigned integer.\<close>

definition show_nat :: "nat \<Rightarrow> string" where
  "show_nat n = digits n"

text \<open>\<open>[String]::join\<close>.\<close>

fun join :: "string \<Rightarrow> string list \<Rightarrow> string" where
  "join sep [] = []"
| "join sep [x] = x"
| "join sep (x # y # zs) = x @ sep @ join sep (y # zs)"

definition newline :: char where "newline = CHR 0x0A"
definition squote :: string where "squote = [CHR 0x27]"

section \<open>Lists\<close>

lemma map_of_const: "map_of (map (\<lambda>x. (x, v)) xs) x = (if x \<in> set xs then Some v else None)"
  by (induction xs) auto

text \<open>\<open>slice::windows(2)\<close>.\<close>

definition windows2 :: "'a list \<Rightarrow> ('a \<times> 'a) list" where
  "windows2 xs = zip xs (tl xs)"

lemma windows2_simps [simp]:
  "windows2 [] = []" "windows2 [x] = []" "windows2 (x # y # zs) = (x, y) # windows2 (y # zs)"
  by (simp_all add: windows2_def)

lemma windows2_subset: "(x, y) \<in> set (windows2 xs) \<Longrightarrow> x \<in> set xs \<and> y \<in> set xs"
  by (induction xs rule: induct_list012) auto

text \<open>
  Intervals sorted by their start are pairwise disjoint iff neighbours are: what a scan over
  \<open>windows(2)\<close> of the sorted intervals decides.
\<close>

lemma windows2_disjoint_iff:
  fixes f g :: "'a \<Rightarrow> nat"
  assumes "sorted (map f xs)" and "\<forall>x \<in> set xs. f x < g x"
  shows "(\<forall>(x, y) \<in> set (windows2 xs). g x \<le> f y) \<longleftrightarrow>
    sorted_wrt (\<lambda>x y. {f x ..< g x} \<inter> {f y ..< g y} = {}) xs"
  using assms
proof (induction xs rule: induct_list012)
  case (3 x y zs)
  have "(\<forall>z \<in> set (y # zs). {f x ..< g x} \<inter> {f z ..< g z} = {}) \<longleftrightarrow> g x \<le> f y"
  proof
    assume "\<forall>z \<in> set (y # zs). {f x ..< g x} \<inter> {f z ..< g z} = {}"
    then have "{f x ..< g x} \<inter> {f y ..< g y} = {}" by (rule bspec) simp
    moreover have "f y \<in> {f y ..< g y}" using "3.prems" by simp
    ultimately have "f y \<notin> {f x ..< g x}" by blast
    with "3.prems" show "g x \<le> f y" by auto
  qed (use "3.prems" in auto)
  with 3 show ?case by simp
qed simp_all

lemma windows2_sorted:
  "sorted (map f xs) \<Longrightarrow> \<forall>(x, y) \<in> set (windows2 xs). f x \<le> f y"
  by (induction xs rule: induct_list012) auto

text \<open>The two elements of a window are two occurrences of the list.\<close>

lemma windows2_mset: "(x, y) \<in> set (windows2 xs) \<Longrightarrow> {#x, y#} \<subseteq># mset xs"
proof (induction xs rule: induct_list012)
  case (3 a b zs)
  then consider "x = a" "y = b" | "(x, y) \<in> set (windows2 (b # zs))" by auto
  then show ?case
  proof cases
    case 2
    from "3.IH"(2) [OF this] have "{#x, y#} \<subseteq># mset (b # zs)" .
    then show ?thesis by (metis mset.simps(2) subset_mset.order_trans mset_subset_eq_add_right add_mset_add_single union_commute)
  qed simp
qed simp_all

lemma mset_pair_map_D:
  assumes "{#x, y#} \<subseteq># mset (map f xs)"
  obtains a b where "{#a, b#} \<subseteq># mset xs" "x = f a" "y = f b"
proof -
  obtain M where "image_mset f (mset xs) = add_mset x (add_mset y M)"
    using assms by (auto simp: subset_mset.le_iff_add)
  then obtain a A where a: "mset xs = add_mset a A" "x = f a" "image_mset f A = add_mset y M"
    by (metis msed_map_invR)
  then obtain b B where "A = add_mset b B" "y = f b" by (metis msed_map_invR)
  with a have "{#a, b#} \<subseteq># mset xs" by simp
  then show thesis using that a(2) \<open>y = f b\<close> by blast
qed

text \<open>A symmetric relation between all pairs of a list does not depend on the list's order.\<close>

lemma sorted_wrt_insort_key_sym:
  assumes "\<And>x y. R x y = R y x"
  shows "sorted_wrt R (insort_key f x xs) \<longleftrightarrow> sorted_wrt R (x # xs)"
  by (induction xs) (use assms in \<open>auto simp: set_insort_key\<close>)

lemma sorted_wrt_sort_key_sym:
  assumes "\<And>x y. R x y = R y x"
  shows "sorted_wrt R (sort_key f xs) \<longleftrightarrow> sorted_wrt R xs"
  by (induction xs) (simp_all add: sorted_wrt_insort_key_sym [of R, OF assms])

end
