(* ===== verification/F64.thy ===== *)
theory F64
  imports Complex_Main Gw_Prelude
begin

text \<open>
  Rust's \<open>f64\<close>: IEEE 754 binary64 with round-to-nearest-even, executable on naturals and integers.
  A finite double is a sign, a significand below \<open>2 ^ 53\<close> and an exponent, in canonical form
  (\<open>f64_wf\<close>: the significand has its top bit unless the exponent is the least one), so equality of
  the datatype is equality of the bit patterns, \<open>-0.0\<close> included. All NaNs are one value: no
  operation the gateway uses tells them apart. The arithmetic computes the exact result as a
  quotient of naturals times a power of two and rounds it once (\<open>f64_round\<close>).

  The theorems are the ones the components need: the rounding is the nearest representable value
  (\<open>f64_round_nearest\<close> and its corollaries for \<open>+\<close>, \<open>*\<close> and \<open>/\<close>), representable results are exact
  (\<open>f64_round_exact\<close>), whole numbers up to \<open>2 ^ 53\<close> and all \<open>f32\<close> values are represented exactly.
\<close>

section \<open>Values\<close>

datatype f64 = F64_NaN | F64_Inf bool | F64_Fin bool nat int

primrec f64_finite :: "f64 \<Rightarrow> bool" where
  "f64_finite F64_NaN = False"
| "f64_finite (F64_Inf s) = False"
| "f64_finite (F64_Fin s m e) = True"

primrec f64_val :: "f64 \<Rightarrow> real" where
  "f64_val F64_NaN = 0"
| "f64_val (F64_Inf s) = 0"
| "f64_val (F64_Fin s m e) = (if s then -1 else 1) * real m * 2 powi e"

fun f64_wf :: "f64 \<Rightarrow> bool" where
  "f64_wf (F64_Fin s m e) \<longleftrightarrow>
     m < 2 ^ 53 \<and> -1074 \<le> e \<and> e \<le> 971 \<and> (m < 2 ^ 52 \<longrightarrow> e = -1074)"
| "f64_wf _ \<longleftrightarrow> True"

text \<open>The length of the binary numeral.\<close>

fun nbits :: "nat \<Rightarrow> nat" where
  "nbits n = (if n = 0 then 0 else Suc (nbits (n div 2)))"

declare nbits.simps [simp del]

lemma nbits_bounds: "0 < n \<Longrightarrow> 2 ^ (nbits n - 1) \<le> n \<and> n < 2 ^ nbits n"
proof (induction n rule: nbits.induct)
  case (1 n)
  show ?case
  proof (cases "n = 1")
    case True
    then show ?thesis by (simp add: nbits.simps)
  next
    case False
    with "1.prems" have pos: "0 < n div 2" by simp
    then have nz: "0 < nbits (n div 2)" by (subst nbits.simps) simp
    from "1.IH" "1.prems" pos
    have IH: "2 ^ (nbits (n div 2) - 1) \<le> n div 2" "n div 2 < 2 ^ nbits (n div 2)" by auto
    have eq: "nbits n = Suc (nbits (n div 2))" using "1.prems" by (subst nbits.simps) simp
    have "2 ^ nbits (n div 2) = 2 * (2 ^ (nbits (n div 2) - 1) :: nat)"
      using nz by (cases "nbits (n div 2)") auto
    moreover have "n = 2 * (n div 2) + n mod 2" by simp
    moreover have "n mod 2 < 2" by simp
    ultimately show ?thesis using IH eq by (simp del: One_nat_def) linarith
  qed
qed

lemma nbits_pos: "0 < n \<Longrightarrow> 0 < nbits n"
  by (subst nbits.simps) simp

lemma nbits_le: "n < 2 ^ k \<Longrightarrow> nbits n \<le> k"
proof (cases "n = 0")
  case False
  assume "n < 2 ^ k"
  with nbits_bounds [of n] False have "(2 :: nat) ^ (nbits n - 1) < 2 ^ k" by linarith
  then have "nbits n - 1 < k" by (simp add: power_strict_increasing_iff)
  then show ?thesis by linarith
qed (simp add: nbits.simps)

section \<open>Rounding\<close>

text \<open>\<open>N / D\<close> to the nearest whole number, ties to the even one.\<close>

definition rne :: "nat \<Rightarrow> nat \<Rightarrow> nat" where
  "rne N D = (let q = N div D; r = N mod D in
     if 2 * r < D \<or> (2 * r = D \<and> even q) then q else Suc q)"

lemma rne_half: "0 < D \<Longrightarrow> \<bar>real (rne N D) - real N / real D\<bar> \<le> 1 / 2"
proof -
  assume D: "0 < D"
  have N: "real N = real (N div D) * real D + real (N mod D)"
    by (metis div_mult_mod_eq of_nat_add of_nat_mult)
  have r: "N mod D < D" using D by simp
  have x: "real N / real D = real (N div D) + real (N mod D) / real D"
    using D N by (simp add: field_simps)
  show ?thesis
  proof (cases "2 * (N mod D) < D \<or> (2 * (N mod D) = D \<and> even (N div D))")
    case True
    then have "2 * real (N mod D) \<le> real D" by linarith
    then have "real (N mod D) / real D \<le> 1 / 2" using D by (simp add: field_simps)
    moreover have "0 \<le> real (N mod D) / real D" by simp
    ultimately show ?thesis using True x by (simp add: rne_def Let_def)
  next
    case False
    then have "real D \<le> 2 * real (N mod D)" by linarith
    then have "1 / 2 \<le> real (N mod D) / real D" using D by (simp add: field_simps)
    moreover have "real (N mod D) / real D < 1" using D r by (simp add: field_simps)
    moreover have "real (rne N D) = real (N div D) + 1"
      unfolding rne_def Let_def using False by simp
    ultimately show ?thesis using x by linarith
  qed
qed

lemma rne_nearest:
  assumes "0 < D"
  shows "\<bar>real (rne N D) - real N / real D\<bar> \<le> \<bar>real_of_int j - real N / real D\<bar>"
proof (cases "j = int (rne N D)")
  case False
  then have "1 \<le> \<bar>real_of_int j - real (rne N D)\<bar>" by linarith
  with rne_half [OF assms, of N] show ?thesis by linarith
qed simp

lemma rne_exact: "0 < D \<Longrightarrow> D dvd N \<Longrightarrow> rne N D = N div D"
  by (simp add: rne_def Let_def dvd_eq_mod_eq_0)

lemma powi2_pos: "0 < (2 :: real) powi e"
  by simp

lemma powi2_not_neg: "\<not> (2 :: real) powi e < 0"
  by (simp add: not_less)

lemma powi2_add: "(2 :: real) powi (a + b) = 2 powi a * 2 powi b"
  by (simp add: power_int_add)

lemma powi2_less: "(2 :: real) powi a < 2 powi b \<longleftrightarrow> a < b"
proof
  show "a < b \<Longrightarrow> (2 :: real) powi a < 2 powi b"
    by (rule power_int_strict_increasing) simp_all
  show "(2 :: real) powi a < 2 powi b \<Longrightarrow> a < b"
    using power_int_increasing [of b a "2 :: real"] by (cases "a < b") auto
qed

lemma powi2_le: "(2 :: real) powi a \<le> 2 powi b \<longleftrightarrow> a \<le> b"
  by (meson powi2_less not_less)

lemma powi2_split: "(2 :: real) powi e = 2 ^ nat e / 2 ^ nat (- e)"
proof (cases "0 \<le> e")
  case True
  then obtain n where "e = int n" using zero_le_imp_eq_int by blast
  then show ?thesis by simp
next
  case False
  then obtain n where "e = - int n" by (metis int_cases4 of_nat_0_le_iff)
  then show ?thesis by (simp add: power_int_minus divide_inverse)
qed

text \<open>
  The exponent of the result of rounding \<open>n / d * 2 ^ k\<close>: the one that leaves a significand of 53
  bits, or the least exponent there is.
\<close>

definition rnd_exp :: "nat \<Rightarrow> nat \<Rightarrow> int \<Rightarrow> int" where
  "rnd_exp n d k =
     max (-1074)
       (k + int (nbits n) - int (nbits d) -
        (if d * 2 ^ (nbits n - nbits d) \<le> n * 2 ^ (nbits d - nbits n) then 52 else 53))"

definition f64_pack :: "bool \<Rightarrow> nat \<Rightarrow> int \<Rightarrow> f64" where
  "f64_pack s q e =
     (let (q', e') = (if q = 2 ^ 53 then (2 ^ 52, e + 1) else (q, e))
      in if 971 < e' then F64_Inf s else F64_Fin s q' e')"

definition f64_round :: "bool \<Rightarrow> nat \<Rightarrow> nat \<Rightarrow> int \<Rightarrow> f64" where
  "f64_round s n d k =
     (if n = 0 then F64_Fin s 0 (-1074)
      else let e = rnd_exp n d k
           in f64_pack s (rne (n * 2 ^ nat (k - e)) (d * 2 ^ nat (e - k))) e)"

lemma nbits_real:
  assumes "0 < n"
  shows "(2 :: real) powi (int (nbits n) - 1) \<le> real n" and "real n < 2 powi int (nbits n)"
proof -
  have "real (2 ^ (nbits n - 1)) \<le> real n" and *: "real n < real (2 ^ nbits n)"
    using nbits_bounds [OF assms] by (simp_all only: of_nat_le_iff of_nat_less_iff)
  moreover have "int (nbits n) - 1 = int (nbits n - 1)" using nbits_pos [OF assms] by simp
  ultimately show "(2 :: real) powi (int (nbits n) - 1) \<le> real n"
    by (simp only: power_int_of_nat of_nat_power of_nat_numeral)
  from * show "real n < 2 powi int (nbits n)" by simp
qed

lemma ratio_bounds:
  fixes n d :: nat and k :: int
  assumes n: "0 < n" and d: "0 < d"
  defines "x \<equiv> real n / real d * 2 powi k"
    and "e \<equiv> k + int (nbits n) - int (nbits d) -
        (if d * 2 ^ (nbits n - nbits d) \<le> n * 2 ^ (nbits d - nbits n) then 52 else 53)"
  shows "2 powi (52 + e) \<le> x" and "x < 2 powi (53 + e)"
proof -
  let ?a = "nbits n" and ?b = "nbits d"
  let ?g = "int ?a - int ?b" and ?q = "real n / real d"
  have c: "d * 2 ^ (?a - ?b) \<le> n * 2 ^ (?b - ?a) \<longleftrightarrow> 2 powi ?g \<le> ?q"
  proof -
    have "(2 :: real) powi ?g = 2 ^ (?a - ?b) / 2 ^ (?b - ?a)"
      by (subst powi2_split) (simp add: nat_diff_distrib')
    then have "real d * 2 ^ (?a - ?b) = (real d * 2 powi ?g) * 2 ^ (?b - ?a)" by simp
    then have "real (d * 2 ^ (?a - ?b)) \<le> real (n * 2 ^ (?b - ?a)) \<longleftrightarrow> real d * 2 powi ?g \<le> real n"
      by (simp only: of_nat_mult of_nat_power of_nat_numeral mult_le_cancel_right) simp
    moreover have "2 powi ?g \<le> ?q \<longleftrightarrow> real d * 2 powi ?g \<le> real n" using d by (simp add: field_simps)
    ultimately show ?thesis by (simp only: of_nat_le_iff)
  qed
  have lo: "2 powi (?g - 1) \<le> ?q"
  proof -
    have "2 powi (?g - 1) * real d \<le> 2 powi (?g - 1) * 2 powi int ?b"
      using nbits_real [OF d] by simp
    also have "\<dots> = 2 powi (int ?a - 1)"
      by (simp only: powi2_add [symmetric]) (simp add: algebra_simps)
    also have "\<dots> \<le> real n" using nbits_real [OF n] by simp
    finally show ?thesis using d by (simp add: field_simps)
  qed
  have hi: "?q < 2 powi (?g + 1)"
  proof -
    have "2 powi (?g + 1) * 2 powi (int ?b - 1) = (2 :: real) powi int ?a"
      by (simp only: powi2_add [symmetric]) (simp add: algebra_simps)
    then have "real n < 2 powi (?g + 1) * 2 powi (int ?b - 1)"
      using nbits_real [OF n] by (simp only:)
    also have "\<dots> \<le> 2 powi (?g + 1) * real d" using nbits_real [OF d] by simp
    finally show ?thesis using d by (simp add: field_simps)
  qed
  have mono: "2 powi (i + k) \<le> x \<longleftrightarrow> 2 powi i \<le> ?q" "x < 2 powi (i + k) \<longleftrightarrow> ?q < 2 powi i" for i
    by (simp_all add: x_def powi2_add del: times_divide_eq_left)
  show "2 powi (52 + e) \<le> x"
    using c lo mono(1) [of "?g - 1"] mono(1) [of ?g] by (auto simp: e_def algebra_simps)
  show "x < 2 powi (53 + e)"
    using c hi mono(2) [of "?g + 1"] mono(2) [of ?g] by (auto simp: e_def algebra_simps)
qed


lemma rnd_exp_ge: "-1074 \<le> rnd_exp n d k"
  by (simp add: rnd_exp_def)

lemma rnd_exp_bounds:
  fixes n d :: nat and k :: int
  assumes "0 < n" and "0 < d"
  defines "x \<equiv> real n / real d * 2 powi k"
  shows "x < 2 powi (53 + rnd_exp n d k)"
    and "-1074 < rnd_exp n d k \<Longrightarrow> 2 powi (52 + rnd_exp n d k) \<le> x"
proof -
  note b = ratio_bounds [OF assms(1,2), of k, folded x_def]
  let ?e = "k + int (nbits n) - int (nbits d) -
    (if d * 2 ^ (nbits n - nbits d) \<le> n * 2 ^ (nbits d - nbits n) then 52 else 53)"
  have e: "rnd_exp n d k = max (-1074) ?e" by (simp only: rnd_exp_def)
  then have "(2 :: real) powi (53 + ?e) \<le> 2 powi (53 + rnd_exp n d k)"
    unfolding powi2_le by linarith
  with b(2) show "x < 2 powi (53 + rnd_exp n d k)" by linarith
  assume "-1074 < rnd_exp n d k"
  with e have "rnd_exp n d k = ?e" by linarith
  with b(1) show "2 powi (52 + rnd_exp n d k) \<le> x" by simp
qed

text \<open>The numerator and denominator of the quotient measured in units of \<open>2 ^ e\<close>.\<close>

definition scl_num :: "nat \<Rightarrow> nat \<Rightarrow> int \<Rightarrow> nat" where
  "scl_num n d k = n * 2 ^ nat (k - rnd_exp n d k)"

definition scl_den :: "nat \<Rightarrow> nat \<Rightarrow> int \<Rightarrow> nat" where
  "scl_den n d k = d * 2 ^ nat (rnd_exp n d k - k)"

lemma scl_den_pos: "0 < d \<Longrightarrow> 0 < scl_den n d k"
  by (simp add: scl_den_def)

lemma scaled_value:
  "real (scl_num n d k) / real (scl_den n d k) * 2 powi rnd_exp n d k
     = real n / real d * 2 powi k"
proof -
  let ?e = "rnd_exp n d k"
  have "(2 :: real) powi k = 2 powi (k - ?e) * 2 powi ?e" by (simp only: powi2_add [symmetric]) simp
  also have "(2 :: real) powi (k - ?e) = 2 ^ nat (k - ?e) / 2 ^ nat (?e - k)"
    by (subst powi2_split) simp
  finally show ?thesis by (simp add: scl_num_def scl_den_def)
qed

lemma f64_round_eq:
  "0 < n \<Longrightarrow> f64_round s n d k
     = f64_pack s (rne (scl_num n d k) (scl_den n d k)) (rnd_exp n d k)"
  by (simp add: f64_round_def scl_num_def scl_den_def Let_def)

lemma rne_bounds:
  assumes "0 < n" and "0 < d"
  shows "rne (scl_num n d k) (scl_den n d k) \<le> 2 ^ 53"
    and "-1074 < rnd_exp n d k \<Longrightarrow> 2 ^ 52 \<le> rne (scl_num n d k) (scl_den n d k)"
proof -
  let ?e = "rnd_exp n d k" and ?q = "rne (scl_num n d k) (scl_den n d k)"
  define y where "y = real (scl_num n d k) / real (scl_den n d k)"
  have x: "real n / real d * 2 powi k = y * 2 powi ?e" by (simp only: scaled_value y_def)
  note b = rnd_exp_bounds [OF assms, of k, unfolded x powi2_add]
  have near: "\<bar>real ?q - y\<bar> \<le> \<bar>real_of_int j - y\<bar>" for j
    unfolding y_def by (rule rne_nearest [OF scl_den_pos [OF assms(2)]])
  from b(1) have "y < 2 ^ 53" by simp
  with near [of "2 ^ 53"] have "real ?q \<le> 2 ^ 53" by simp
  then have "real ?q \<le> real (2 ^ 53)" by simp
  then show "?q \<le> 2 ^ 53" by (simp only: of_nat_le_iff)
  assume "-1074 < ?e"
  with b(2) have "2 ^ 52 \<le> y" by simp
  with near [of "2 ^ 52"] have "2 ^ 52 \<le> real ?q" by simp
  then have "real (2 ^ 52) \<le> real ?q" by simp
  then show "2 ^ 52 \<le> ?q" by (simp only: of_nat_le_iff)
qed

lemma f64_pack_wf:
  "q \<le> 2 ^ 53 \<Longrightarrow> -1074 \<le> e \<Longrightarrow> (-1074 < e \<Longrightarrow> 2 ^ 52 \<le> q) \<Longrightarrow> f64_wf (f64_pack s q e)"
  by (cases "-1074 < e") (auto simp: f64_pack_def)

lemma f64_pack_val:
  "f64_finite (f64_pack s q e) \<Longrightarrow>
     f64_val (f64_pack s q e) = (if s then -1 else 1) * real q * 2 powi e"
  by (auto simp: f64_pack_def powi2_add)

lemma f64_pack_Fin: "f64_pack s q e = F64_Fin s' m e' \<Longrightarrow> s' = s"
  by (auto simp: f64_pack_def Let_def split: if_splits)

lemma f64_round_wf: "0 < d \<Longrightarrow> f64_wf (f64_round s n d k)"
proof (cases "n = 0")
  case False
  then show "0 < d \<Longrightarrow> ?thesis"
    by (simp only: f64_round_eq) (intro f64_pack_wf rne_bounds rnd_exp_ge; simp)
qed (simp add: f64_round_def)


lemma f64_round_val:
  assumes "0 < n" and "0 < d" and "f64_finite (f64_round s n d k)"
  shows "f64_val (f64_round s n d k) = (if s then -1 else 1) *
           real (rne (scl_num n d k) (scl_den n d k)) * 2 powi rnd_exp n d k"
  using assms f64_pack_val by (simp add: f64_round_eq)

text \<open>Every finite double with an exponent of at least \<open>e\<close> is a whole number of units \<open>2 ^ e\<close>.\<close>

lemma units_of_val:
  assumes "e \<le> e'"
  shows "\<exists>j. f64_val (F64_Fin s m e') = real_of_int j * 2 powi e"
proof -
  have "(2 :: real) powi e' = 2 ^ nat (e' - e) * 2 powi e"
    using assms by (simp flip: powi2_add power_int_of_nat)
  then have "f64_val (F64_Fin s m e') = real_of_int ((if s then -1 else 1) * int m * 2 ^ nat (e' - e)) * 2 powi e"
    by simp
  then show ?thesis by blast
qed

theorem f64_round_nearest:
  assumes n: "0 < n" and d: "0 < d"
    and fin: "f64_finite (f64_round s n d k)"
    and y: "f64_wf y" "f64_finite y"
  defines "x \<equiv> (if s then -1 else 1) * (real n / real d * 2 powi k)"
  shows "\<bar>f64_val (f64_round s n d k) - x\<bar> \<le> \<bar>f64_val y - x\<bar>"
proof -
  let ?e = "rnd_exp n d k" and ?N = "scl_num n d k" and ?D = "scl_den n d k"
  let ?sg = "(if s then -1 else 1) :: real"
  define u where "u = real ?N / real ?D"
  have xu: "real n / real d * 2 powi k = u * 2 powi ?e" by (simp only: scaled_value u_def)
  have near: "\<bar>f64_val (f64_round s n d k) - x\<bar> \<le> \<bar>real_of_int j * 2 powi ?e - x\<bar>" for j
  proof -
    have "\<bar>f64_val (f64_round s n d k) - x\<bar> = \<bar>?sg * (real (rne ?N ?D) - u) * 2 powi ?e\<bar>"
      unfolding f64_round_val [OF n d fin] x_def xu by (simp add: algebra_simps)
    also have "\<dots> = \<bar>real (rne ?N ?D) - u\<bar> * 2 powi ?e" by (simp add: abs_mult)
    also have "\<dots> \<le> \<bar>real_of_int ((if s then -1 else 1) * j) - u\<bar> * 2 powi ?e"
      unfolding u_def by (intro mult_right_mono rne_nearest scl_den_pos d) simp
    also have "\<dots> = \<bar>?sg * (real_of_int ((if s then -1 else 1) * j) - u) * 2 powi ?e\<bar>"
      by (simp add: abs_mult)
    also have "\<dots> = \<bar>real_of_int j * 2 powi ?e - x\<bar>"
      unfolding x_def xu by (simp add: algebra_simps)
    finally show ?thesis .
  qed
  obtain s' m e' where yf: "y = F64_Fin s' m e'" using y(2) by (cases y) auto
  show ?thesis
  proof (cases "?e \<le> e'")
    case True
    then show ?thesis using units_of_val [of ?e e' s' m] near yf by auto
  next
    case False
    then have "-1074 < ?e" using y(1) yf by auto
    from rnd_exp_bounds(2) [OF n d this]
    have big: "2 powi (52 + ?e) \<le> real n / real d * 2 powi k" .
    have "real m < 2 ^ 53" using y(1) yf by (simp flip: of_nat_less_iff)
    then have "real m * 2 powi e' < 2 ^ 53 * 2 powi e'" by simp
    also have "\<dots> = 2 powi (53 + e')" by (simp add: powi2_add)
    also have "\<dots> \<le> 2 powi (52 + ?e)" using False by (simp add: powi2_le)
    finally have small: "\<bar>f64_val y\<bar> \<le> 2 powi (52 + ?e)" using yf by (simp add: abs_mult)
    have "\<bar>?sg * 2 powi (52 + ?e) - x\<bar> \<le> \<bar>f64_val y - x\<bar>"
      using big small unfolding x_def by (cases s) auto
    moreover have "?sg * 2 powi (52 + ?e) = real_of_int ((if s then -1 else 1) * 2 ^ 52) * 2 powi ?e"
      by (simp add: powi2_add)
    ultimately show ?thesis using near [of "(if s then -1 else 1) * 2 ^ 52"] by linarith
  qed
qed


lemma f64_fin_unique:
  assumes "f64_wf (F64_Fin s m e)" and "f64_wf (F64_Fin s' m' e')"
    and "real m * 2 powi e = real m' * 2 powi e'"
  shows "m = m' \<and> e = e'"
proof -
  have aux: "e = e' \<and> m = m'"
    if w: "f64_wf (F64_Fin s m e)" "f64_wf (F64_Fin s' m' e')"
      and eq: "real m * 2 powi e = real m' * 2 powi e'" and le: "e \<le> e'" for s s' m m' e e'
  proof -
    have "(2 :: real) powi e' = 2 ^ nat (e' - e) * 2 powi e"
      using le by (simp flip: powi2_add power_int_of_nat)
    with eq have "real m = real (m' * 2 ^ nat (e' - e))" by simp
    then have m: "m = m' * 2 ^ nat (e' - e)" by (simp only: of_nat_eq_iff)
    have "e = e'"
    proof (rule ccontr)
      assume "e \<noteq> e'"
      with le w have "2 ^ 52 \<le> m'" "1 \<le> nat (e' - e)" by auto
      moreover have "(2 :: nat) ^ 1 \<le> 2 ^ nat (e' - e)"
        using \<open>1 \<le> nat (e' - e)\<close> by (rule power_increasing) simp
      ultimately have "2 ^ 52 * 2 \<le> m' * 2 ^ nat (e' - e)" by (intro mult_le_mono) simp_all
      with m w(1) show False by simp
    qed
    with m show ?thesis by simp
  qed
  show ?thesis
    using aux [OF assms] aux [OF assms(2,1) assms(3) [symmetric]] by linarith
qed

lemma f64_round_finite:
  assumes n: "0 < n" and d: "0 < d" and x: "real n / real d * 2 powi k < 2 powi 1023"
  shows "f64_finite (f64_round s n d k)"
proof -
  have "rnd_exp n d k < 971"
  proof (cases "-1074 < rnd_exp n d k")
    case True
    from rnd_exp_bounds(2) [OF n d this] x have "(2 :: real) powi (52 + rnd_exp n d k) < 2 powi 1023"
      by linarith
    then show ?thesis by (simp only: powi2_less)
  qed linarith
  then show ?thesis using n by (simp add: f64_round_eq f64_pack_def)
qed

lemma f64_round_dyadic:
  assumes n: "n \<le> 2 ^ 53" and k: "-1074 \<le> k" "k \<le> 960"
  shows "f64_finite (f64_round s n 1 k)"
    and "f64_val (f64_round s n 1 k) = (if s then -1 else 1) * real n * 2 powi k"
proof -
  have *: "f64_finite (f64_round s n 1 k) \<and>
      f64_val (f64_round s n 1 k) = (if s then -1 else 1) * real n * 2 powi k"
  proof (cases "n = 0")
    case False
    let ?E = "rnd_exp n 1 k"
    have "real n \<le> real (2 ^ 53)" using n by (simp only: of_nat_le_iff)
    then have xle: "real n * 2 powi k \<le> 2 powi (53 + k)" by (simp add: powi2_add)
    have "(2 :: real) powi (53 + k) < 2 powi 1023" using k by (simp only: powi2_less)
    with xle have fin: "f64_finite (f64_round s n 1 k)" using False by (intro f64_round_finite) auto
    have E: "?E \<le> k + 1"
    proof (cases "-1074 < ?E")
      case True
      from rnd_exp_bounds(2) [OF _ _ this] False xle have "(2 :: real) powi (52 + ?E) \<le> 2 powi (53 + k)"
        by simp
      then show ?thesis by (simp only: powi2_le)
    qed (use k in linarith)
    have dvd: "scl_den n 1 k dvd scl_num n 1 k"
    proof (cases "?E \<le> k")
      case False
      with E have e: "?E = k + 1" by linarith
      with k have "-1074 < ?E" by linarith
      from rnd_exp_bounds(2) [OF _ _ this] \<open>n \<noteq> 0\<close> have "2 powi (53 + k) \<le> real n * 2 powi k"
        by (simp add: e del: One_nat_def)
      then have "real (2 ^ 53) \<le> real n" by (simp add: powi2_add)
      with n have "n = 2 ^ 53" by (simp only: of_nat_le_iff)
      with e show ?thesis by (simp add: scl_den_def scl_num_def)
    qed (simp add: scl_den_def)
    have "real (rne (scl_num n 1 k) (scl_den n 1 k)) = real (scl_num n 1 k) / real (scl_den n 1 k)"
      using rne_exact [OF scl_den_pos dvd] real_of_nat_div [OF dvd] by simp
    then have "real (rne (scl_num n 1 k) (scl_den n 1 k)) * 2 powi ?E = real n * 2 powi k"
      using scaled_value [of n 1 k] by simp
    with fin show ?thesis using f64_round_val [of n 1 s k] False by simp
  qed (simp add: f64_round_def)
  from * show "f64_finite (f64_round s n 1 k)"
    and "f64_val (f64_round s n 1 k) = (if s then -1 else 1) * real n * 2 powi k" by blast+
qed

lemma f64_round_exact:
  assumes d: "0 < d" and w: "f64_wf (F64_Fin s m e)"
    and x: "real n / real d * 2 powi k = real m * 2 powi e"
  shows "f64_round s n d k = F64_Fin s m e"
proof (cases "n = 0")
  case True
  with x have "m = 0" by simp
  with w True show ?thesis by (simp add: f64_round_def)
next
  case False
  let ?E = "rnd_exp n d k" and ?q = "rne (scl_num n d k) (scl_den n d k)"
  have "real m < 2 ^ 53" using w by (simp flip: of_nat_less_iff)
  then have xlt: "real m * 2 powi e < 2 powi (53 + e)" by (simp add: powi2_add)
  have E: "?E \<le> e"
  proof (cases "-1074 < ?E")
    case True
    from rnd_exp_bounds(2) [OF _ d this] False x xlt have "(2 :: real) powi (52 + ?E) < 2 powi (53 + e)"
      by simp
    then show ?thesis by (simp only: powi2_less)
  qed (use w in auto)
  have "(2 :: real) powi e = 2 ^ nat (e - ?E) * 2 powi ?E"
    using E by (simp flip: powi2_add power_int_of_nat)
  with scaled_value [of n d k] x
  have "real (scl_num n d k) / real (scl_den n d k) * 2 powi ?E = real (m * 2 ^ nat (e - ?E)) * 2 powi ?E"
    by simp
  then have "real (scl_num n d k) / real (scl_den n d k) = real (m * 2 ^ nat (e - ?E))"
    by (simp only: mult_cancel_right) simp
  then have "real (scl_num n d k) = real (m * 2 ^ nat (e - ?E) * scl_den n d k)"
    using scl_den_pos [OF d, of n k] by (simp add: field_simps)
  then have sn: "scl_num n d k = m * 2 ^ nat (e - ?E) * scl_den n d k" by (simp only: of_nat_eq_iff)
  then have q: "?q = m * 2 ^ nat (e - ?E)"
    using rne_exact [OF scl_den_pos [OF d], of n k "scl_num n d k"] scl_den_pos [OF d, of n k] by simp
  have fin: "f64_finite (f64_round s n d k)"
  proof (cases "?q = 2 ^ 53")
    case True
    with q w have "e \<noteq> ?E" by auto
    with E w show ?thesis using False True by (simp add: f64_round_eq f64_pack_def)
  next
    case qn: False
    with E w show ?thesis using False by (simp add: f64_round_eq f64_pack_def)
  qed
  obtain m' e' where r: "f64_round s n d k = F64_Fin s m' e'"
    using fin False f64_pack_Fin [of s ?q ?E]
    by (cases "f64_round s n d k") (auto simp: f64_round_eq)
  have "real ?q * 2 powi ?E = real m * 2 powi e"
    using \<open>(2 :: real) powi e = _\<close> q by simp
  with f64_round_val [OF _ d fin] False r have "real m' * 2 powi e' = real m * 2 powi e"
    by (cases s) auto
  with f64_fin_unique [of s m' e' s m e] f64_round_wf [OF d, of s n k] w r show ?thesis by simp
qed


section \<open>The operations\<close>

definition f64_zero :: f64 where "f64_zero = F64_Fin False 0 (-1074)"

definition f64_one :: f64 where "f64_one = F64_Fin False (2 ^ 52) (-52)"

definition f64_of_int :: "int \<Rightarrow> f64" where
  "f64_of_int i = f64_round (i < 0) (nat \<bar>i\<bar>) 1 0"

fun f64_abs :: "f64 \<Rightarrow> f64" where
  "f64_abs F64_NaN = F64_NaN"
| "f64_abs (F64_Inf s) = F64_Inf False"
| "f64_abs (F64_Fin s m e) = F64_Fin False m e"

fun f64_mul :: "f64 \<Rightarrow> f64 \<Rightarrow> f64" where
  "f64_mul F64_NaN _ = F64_NaN"
| "f64_mul _ F64_NaN = F64_NaN"
| "f64_mul (F64_Inf s) (F64_Inf t) = F64_Inf (s \<noteq> t)"
| "f64_mul (F64_Inf s) (F64_Fin t m e) = (if m = 0 then F64_NaN else F64_Inf (s \<noteq> t))"
| "f64_mul (F64_Fin s m e) (F64_Inf t) = (if m = 0 then F64_NaN else F64_Inf (s \<noteq> t))"
| "f64_mul (F64_Fin s m e) (F64_Fin t n f) = f64_round (s \<noteq> t) (m * n) 1 (e + f)"

definition signed_units :: "bool \<Rightarrow> nat \<Rightarrow> int \<Rightarrow> int \<Rightarrow> int" where
  "signed_units s m e u = (if s then -1 else 1) * int m * 2 ^ nat (e - u)"

fun f64_add :: "f64 \<Rightarrow> f64 \<Rightarrow> f64" where
  "f64_add F64_NaN _ = F64_NaN"
| "f64_add _ F64_NaN = F64_NaN"
| "f64_add (F64_Inf s) (F64_Inf t) = (if s = t then F64_Inf s else F64_NaN)"
| "f64_add (F64_Inf s) (F64_Fin t m e) = F64_Inf s"
| "f64_add (F64_Fin s m e) (F64_Inf t) = F64_Inf t"
| "f64_add (F64_Fin s m e) (F64_Fin t n f) =
     (let u = min e f; z = signed_units s m e u + signed_units t n f u
      in if z = 0 then F64_Fin (s \<and> t) 0 (-1074) else f64_round (z < 0) (nat \<bar>z\<bar>) 1 u)"

fun f64_div :: "f64 \<Rightarrow> f64 \<Rightarrow> f64" where
  "f64_div F64_NaN _ = F64_NaN"
| "f64_div _ F64_NaN = F64_NaN"
| "f64_div (F64_Inf s) (F64_Inf t) = F64_NaN"
| "f64_div (F64_Inf s) (F64_Fin t m e) = F64_Inf (s \<noteq> t)"
| "f64_div (F64_Fin s m e) (F64_Inf t) = F64_Fin (s \<noteq> t) 0 (-1074)"
| "f64_div (F64_Fin s m e) (F64_Fin t n f) =
     (if n = 0 then (if m = 0 then F64_NaN else F64_Inf (s \<noteq> t))
      else f64_round (s \<noteq> t) m n (e - f))"

text \<open>\<open>a < b\<close>, false when either side is NaN; the finite case compares in units of the
smaller exponent.\<close>

fun f64_lt :: "f64 \<Rightarrow> f64 \<Rightarrow> bool" where
  "f64_lt F64_NaN _ = False"
| "f64_lt _ F64_NaN = False"
| "f64_lt (F64_Inf s) (F64_Inf t) = (s \<and> \<not> t)"
| "f64_lt (F64_Inf s) (F64_Fin t m e) = s"
| "f64_lt (F64_Fin s m e) (F64_Inf t) = (\<not> t)"
| "f64_lt (F64_Fin s m e) (F64_Fin t n f) =
     (let u = min e f in signed_units s m e u < signed_units t n f u)"

definition f64_min :: "f64 \<Rightarrow> f64 \<Rightarrow> f64" where
  "f64_min a b = (if a = F64_NaN then b else if b = F64_NaN then a else if f64_lt b a then b else a)"

definition f64_max :: "f64 \<Rightarrow> f64 \<Rightarrow> f64" where
  "f64_max a b = (if a = F64_NaN then b else if b = F64_NaN then a else if f64_lt a b then b else a)"

definition f64_of_f32_bits :: "32 word \<Rightarrow> f64" where
  "f64_of_f32_bits w =
     (let s = bit w 31; ex = unat (drop_bit 23 w) mod 256; fr = unat w mod 2 ^ 23
      in if ex = 255 then (if fr = 0 then F64_Inf s else F64_NaN)
         else if ex = 0 then f64_round s fr 1 (-149)
         else f64_round s (2 ^ 23 + fr) 1 (int ex - 150))"

lemma f64_of_int:
  assumes "\<bar>i\<bar> \<le> 2 ^ 53"
  shows f64_of_int_finite: "f64_finite (f64_of_int i)"
    and f64_of_int_val: "f64_val (f64_of_int i) = real_of_int i"
    and f64_of_int_wf: "f64_wf (f64_of_int i)"
proof -
  have "nat \<bar>i\<bar> \<le> 2 ^ 53" using assms by (simp add: nat_le_iff)
  note d = f64_round_dyadic [OF this, of 0 "i < 0"]
  show "f64_finite (f64_of_int i)" "f64_wf (f64_of_int i)"
    using d f64_round_wf [of 1] by (simp_all add: f64_of_int_def)
  show "f64_val (f64_of_int i) = real_of_int i"
    using d by (simp add: f64_of_int_def)
qed

lemma signed_units_val:
  "u \<le> e \<Longrightarrow> real_of_int (signed_units s m e u) * 2 powi u = f64_val (F64_Fin s m e)"
  by (simp add: signed_units_def flip: powi2_add power_int_of_nat)

lemma f64_add_nearest:
  assumes "f64_finite a" "f64_finite b" "f64_finite (f64_add a b)" "f64_wf y" "f64_finite y"
  shows "\<bar>f64_val (f64_add a b) - (f64_val a + f64_val b)\<bar> \<le> \<bar>f64_val y - (f64_val a + f64_val b)\<bar>"
proof -
  obtain s m e where a: "a = F64_Fin s m e" using assms(1) by (cases a) auto
  obtain t n f where b: "b = F64_Fin t n f" using assms(2) by (cases b) auto
  define u where "u = min e f"
  define z where "z = signed_units s m e u + signed_units t n f u"
  have val: "f64_val a + f64_val b = real_of_int z * 2 powi u"
    using signed_units_val [of u e s m] signed_units_val [of u f t n]
    by (simp add: a b z_def u_def distrib_right del: f64_val.simps)
  show ?thesis
  proof (cases "z = 0")
    case True
    then have "f64_add a b = F64_Fin (s \<and> t) 0 (-1074)" by (simp add: a b z_def u_def Let_def)
    with True val show ?thesis by simp
  next
    case False
    then have r: "f64_add a b = f64_round (z < 0) (nat \<bar>z\<bar>) 1 u"
      by (simp add: a b z_def u_def Let_def)
    have "(if z < 0 then -1 else 1) * (real (nat \<bar>z\<bar>) / real 1 * 2 powi u) = f64_val a + f64_val b"
      using val by simp
    with f64_round_nearest [of "nat \<bar>z\<bar>" 1 "z < 0" u y] False assms(3-5) show ?thesis
      by (simp add: r)
  qed
qed


lemma f64_of_int_Fin:
  assumes "\<bar>i\<bar> \<le> 2 ^ 53"
  obtains m e where "f64_of_int i = F64_Fin (i < 0) m e" "f64_wf (F64_Fin (i < 0) m e)"
    "real m * 2 powi e = \<bar>real_of_int i\<bar>"
proof -
  obtain s m e where *: "f64_of_int i = F64_Fin s m e"
    using f64_of_int_finite [OF assms] by (cases "f64_of_int i") auto
  have s: "s = (i < 0)"
  proof (cases "i = 0")
    case False
    with * show ?thesis using f64_pack_Fin by (simp add: f64_of_int_def f64_round_eq)
  qed (use * in \<open>simp add: f64_of_int_def f64_round_def\<close>)
  have "real m * 2 powi e = \<bar>f64_val (f64_of_int i)\<bar>" using * by (simp add: abs_mult)
  then have "real m * 2 powi e = \<bar>real_of_int i\<bar>" by (simp only: f64_of_int_val [OF assms])
  then show thesis using that * s f64_of_int_wf [OF assms] by simp
qed

lemma f64_of_int_0: "f64_of_int 0 = f64_zero"
  by (simp add: f64_of_int_def f64_round_def f64_zero_def)

lemma f64_add_of_int:
  assumes a: "\<bar>a\<bar> \<le> 2 ^ 53" and b: "\<bar>b\<bar> \<le> 2 ^ 53" and ab: "\<bar>a + b\<bar> \<le> 2 ^ 53"
  shows "f64_add (f64_of_int a) (f64_of_int b) = f64_of_int (a + b)"
proof -
  from f64_of_int_Fin [OF a] obtain m e where fa: "f64_of_int a = F64_Fin (a < 0) m e" by blast
  from f64_of_int_Fin [OF b] obtain n f where fb: "f64_of_int b = F64_Fin (b < 0) n f" by blast
  define u where "u = min e f"
  define z where "z = signed_units (a < 0) m e u + signed_units (b < 0) n f u"
  have "real_of_int z * 2 powi u = f64_val (f64_of_int a) + f64_val (f64_of_int b)"
    using signed_units_val [of u e "a < 0" m] signed_units_val [of u f "b < 0" n]
    by (simp add: fa fb z_def u_def distrib_right del: f64_val.simps)
  then have zv: "real_of_int z * 2 powi u = real_of_int (a + b)"
    by (simp add: f64_of_int_val [OF a] f64_of_int_val [OF b])
  have sum: "f64_add (f64_of_int a) (f64_of_int b)
      = (if z = 0 then F64_Fin (a < 0 \<and> b < 0) 0 (-1074) else f64_round (z < 0) (nat \<bar>z\<bar>) 1 u)"
    by (simp add: fa fb z_def u_def Let_def)
  show ?thesis
  proof (cases "z = 0")
    case True
    with zv have "a + b = 0" by simp
    then have "\<not> (a < 0 \<and> b < 0)" by linarith
    with True sum \<open>a + b = 0\<close> show ?thesis by (simp add: f64_of_int_0 f64_zero_def)
  next
    case False
    have zs: "z < 0 \<longleftrightarrow> a + b < 0"
    proof -
      have "z < 0 \<longleftrightarrow> real_of_int z * 2 powi u < 0" by (simp add: mult_less_0_iff powi2_not_neg)
      then show ?thesis unfolding zv by (simp only: of_int_less_0_iff)
    qed
    from f64_of_int_Fin [OF ab] obtain m' e' where r: "f64_of_int (a + b) = F64_Fin (a + b < 0) m' e'"
      "f64_wf (F64_Fin (a + b < 0) m' e')" "real m' * 2 powi e' = \<bar>real_of_int (a + b)\<bar>" by metis
    have "real (nat \<bar>z\<bar>) / real 1 * 2 powi u = \<bar>real_of_int z * 2 powi u\<bar>" by (simp add: abs_mult)
    also have "\<dots> = real m' * 2 powi e'" unfolding zv r(3) by simp
    finally have "f64_round (a + b < 0) (nat \<bar>z\<bar>) 1 u = F64_Fin (a + b < 0) m' e'"
      by (intro f64_round_exact r(2)) simp_all
    with False sum zs r(1) show ?thesis by simp
  qed
qed

lemma f64_mul_one:
  assumes "f64_wf x"
  shows "f64_mul x f64_one = x"
proof (cases x)
  case (F64_Fin s m e)
  have "real (m * 2 ^ 52) / real 1 * 2 powi (e - 52) = real m * 2 powi e"
    by (simp add: power_int_diff)
  then have "f64_round s (m * 2 ^ 52) 1 (e + - 52) = F64_Fin s m e"
    using assms F64_Fin by (intro f64_round_exact) auto
  with F64_Fin show ?thesis by (simp add: f64_one_def)
qed (auto simp: f64_one_def)

lemma f64_mul_nearest:
  assumes "f64_finite a" "f64_finite b" "f64_finite (f64_mul a b)" "f64_wf y" "f64_finite y"
  shows "\<bar>f64_val (f64_mul a b) - f64_val a * f64_val b\<bar> \<le> \<bar>f64_val y - f64_val a * f64_val b\<bar>"
proof -
  obtain s m e where a: "a = F64_Fin s m e" using assms(1) by (cases a) auto
  obtain t n f where b: "b = F64_Fin t n f" using assms(2) by (cases b) auto
  have r: "f64_mul a b = f64_round (s \<noteq> t) (m * n) 1 (e + f)" by (simp add: a b)
  show ?thesis
  proof (cases "m * n = 0")
    case True
    then show ?thesis unfolding r by (auto simp: a b f64_round_def)
  next
    case False
    have "(if s \<noteq> t then -1 else 1) * (real (m * n) / real 1 * 2 powi (e + f)) = f64_val a * f64_val b"
      by (simp add: a b powi2_add)
    with f64_round_nearest [of "m * n" 1 "s \<noteq> t" "e + f" y] False assms(3-5) show ?thesis
      unfolding r by simp
  qed
qed

lemma f64_mul_finite:
  assumes "f64_finite a" "f64_finite b" and x: "\<bar>f64_val a * f64_val b\<bar> < 2 ^ 1023"
  shows "f64_finite (f64_mul a b)"
proof -
  obtain s m e where a: "a = F64_Fin s m e" using assms(1) by (cases a) auto
  obtain t n f where b: "b = F64_Fin t n f" using assms(2) by (cases b) auto
  have r: "f64_mul a b = f64_round (s \<noteq> t) (m * n) 1 (e + f)" by (simp add: a b)
  show ?thesis
  proof (cases "m * n = 0")
    case True
    then show ?thesis unfolding r by (simp add: f64_round_def)
  next
    case False
    have "\<bar>f64_val a * f64_val b\<bar> = real (m * n) / real 1 * 2 powi (e + f)"
      by (simp add: a b powi2_add abs_mult)
    with x have "real (m * n) / real 1 * 2 powi (e + f) < 2 powi 1023" by simp
    with False show ?thesis unfolding r by (intro f64_round_finite) simp_all
  qed
qed

lemma f64_div_nearest:
  assumes "f64_finite a" "f64_finite b" "f64_val b \<noteq> 0"
    "f64_finite (f64_div a b)" "f64_wf y" "f64_finite y"
  shows "\<bar>f64_val (f64_div a b) - f64_val a / f64_val b\<bar> \<le> \<bar>f64_val y - f64_val a / f64_val b\<bar>"
proof -
  obtain s m e where a: "a = F64_Fin s m e" using assms(1) by (cases a) auto
  obtain t n f where b: "b = F64_Fin t n f" using assms(2) by (cases b) auto
  have n: "0 < n" using assms(3) b by (cases n) auto
  then have r: "f64_div a b = f64_round (s \<noteq> t) m n (e - f)" by (simp add: a b)
  show ?thesis
  proof (cases "m = 0")
    case True
    then show ?thesis unfolding r by (simp add: a f64_round_def)
  next
    case False
    have "(if s \<noteq> t then -1 else 1) * (real m / real n * 2 powi (e - f)) = f64_val a / f64_val b"
      by (simp add: a b power_int_diff)
    with f64_round_nearest [of m n "s \<noteq> t" "e - f" y] False n assms(4-6) show ?thesis
      unfolding r by simp
  qed
qed

lemma f64_div_of_int_finite:
  assumes a: "\<bar>a\<bar> \<le> 2 ^ 53" and b: "0 < b" "b \<le> 2 ^ 53"
  shows "f64_finite (f64_div (f64_of_int a) (f64_of_int b))"
proof -
  have b': "\<bar>b\<bar> \<le> 2 ^ 53" using b by simp
  from f64_of_int_Fin [OF a] obtain m e where
    fa: "f64_of_int a = F64_Fin (a < 0) m e" "real m * 2 powi e = \<bar>real_of_int a\<bar>" by blast
  from f64_of_int_Fin [OF b'] obtain n f where
    fb: "f64_of_int b = F64_Fin (b < 0) n f" "real n * 2 powi f = \<bar>real_of_int b\<bar>" by blast
  have n: "0 < n" using fb(2) b(1) by (cases n) auto
  show ?thesis
  proof (cases "m = 0")
    case True
    with n show ?thesis by (simp add: fa fb f64_round_def)
  next
    case False
    have "real m / real n * 2 powi (e - f) = \<bar>real_of_int a\<bar> / \<bar>real_of_int b\<bar>"
      unfolding fa(2) [symmetric] fb(2) [symmetric] by (simp add: power_int_diff)
    also have "\<dots> \<le> \<bar>real_of_int a\<bar> / 1" using b by (intro divide_left_mono) auto
    also have "\<dots> \<le> 2 ^ 53" using a by (simp flip: of_int_abs)
    also have "(2 :: real) ^ 53 = 2 powi 53" by simp
    also have "\<dots> < 2 powi 1023" by (simp only: powi2_less)
    finally have "f64_finite (f64_round ((a < 0) \<noteq> (b < 0)) m n (e - f))"
      using False n by (intro f64_round_finite) simp_all
    with n show ?thesis by (simp add: fa fb)
  qed
qed

lemma f64_lt_val:
  assumes "f64_finite a" "f64_finite b"
  shows "f64_lt a b \<longleftrightarrow> f64_val a < f64_val b"
proof -
  obtain s m e where a: "a = F64_Fin s m e" using assms(1) by (cases a) auto
  obtain t n f where b: "b = F64_Fin t n f" using assms(2) by (cases b) auto
  let ?u = "min e f"
  have "f64_val a < f64_val b \<longleftrightarrow>
      real_of_int (signed_units s m e ?u) * 2 powi ?u < real_of_int (signed_units t n f ?u) * 2 powi ?u"
    by (simp only: signed_units_val min.cobounded1 min.cobounded2 a b)
  then show ?thesis by (simp add: a b Let_def del: f64_val.simps)
qed

lemma f64_abs_val: "f64_val (f64_abs x) = \<bar>f64_val x\<bar>"
  by (cases x) (auto simp: abs_mult)

lemma f64_abs_of_int: "f64_abs (f64_of_int i) = f64_of_int \<bar>i\<bar>"
  by (simp add: f64_of_int_def f64_round_def f64_pack_def Let_def split: prod.split)

lemma f64_abs_wf: "f64_wf x \<Longrightarrow> f64_wf (f64_abs x)"
  by (cases x) auto

lemma f64_add_NaN [simp]: "f64_add x F64_NaN = F64_NaN"
  by (cases x) auto

lemma f64_mul_wf: "f64_wf (f64_mul a b)"
  by (cases "(a, b)" rule: f64_mul.cases) (auto intro: f64_round_wf)

lemma f64_add_wf: "f64_wf (f64_add a b)"
  by (cases "(a, b)" rule: f64_add.cases) (auto simp: Let_def intro: f64_round_wf)

lemma f64_div_wf: "f64_wf (f64_div a b)"
  by (cases "(a, b)" rule: f64_div.cases) (auto intro: f64_round_wf)

text \<open>\<open>f32\<close> values are exact in \<open>f64\<close>.\<close>

definition f32_bits_val :: "32 word \<Rightarrow> real" where
  "f32_bits_val w =
     (let ex = unat (drop_bit 23 w) mod 256; fr = unat w mod 2 ^ 23
      in (if bit w 31 then -1 else 1) *
         (if ex = 0 then real fr * 2 powi (-149) else real (2 ^ 23 + fr) * 2 powi (int ex - 150)))"

lemma f64_of_f32_bits_exact:
  assumes "unat (drop_bit 23 w) mod 256 \<noteq> 255"
  shows "f64_finite (f64_of_f32_bits w)" and "f64_val (f64_of_f32_bits w) = f32_bits_val w"
proof -
  let ?ex = "unat (drop_bit 23 w) mod 256" and ?fr = "unat w mod 2 ^ 23"
  have fr: "?fr < 2 ^ 23" by simp
  have ex: "?ex < 256" by simp
  have A: "f64_finite (f64_round s ?fr 1 (-149))"
    "f64_val (f64_round s ?fr 1 (-149)) = (if s then -1 else 1) * real ?fr * 2 powi (-149)" for s
    using fr by (intro f64_round_dyadic; simp)+
  have B: "f64_finite (f64_round s (2 ^ 23 + ?fr) 1 (int ?ex - 150))"
    "f64_val (f64_round s (2 ^ 23 + ?fr) 1 (int ?ex - 150))
       = (if s then -1 else 1) * real (2 ^ 23 + ?fr) * 2 powi (int ?ex - 150)" for s
    using fr ex by (intro f64_round_dyadic; simp)+
  show "f64_finite (f64_of_f32_bits w)"
    using A(1) B(1) assms by (simp add: f64_of_f32_bits_def Let_def)
  show "f64_val (f64_of_f32_bits w) = f32_bits_val w"
    using A(2) B(2) assms by (simp add: f64_of_f32_bits_def f32_bits_val_def Let_def)
qed

lemma f64_of_f32_bits_wf: "f64_wf (f64_of_f32_bits w)"
  by (auto simp: f64_of_f32_bits_def Let_def intro: f64_round_wf)

end
