(* ===== verification/Serde.thy ===== *)
theory Serde
  imports Gw_Prelude F64
begin

text \<open>
  What \<open>#[derive(Deserialize)]\<close> means for the structs and enums of \<open>config/schema.rs\<close>, on a TOML
  document that is already a tree. A struct is read by a visitor that walks over the entries of
  its table: an entry of a field is read with the type of the field, a second entry of the same
  field is an error, an entry of no field is ignored (the source has no \<open>deny_unknown_fields\<close>);
  after the last entry every field without an entry gets its default, or is an error when it has
  none. An attribute of the source is a combinator here: \<open>required\<close> for a plain field,
  \<open>with_default\<close> for \<open>#[serde(default)]\<close>, the key of the entry for \<open>#[serde(rename)]\<close>, the table of
  names for \<open>#[serde(rename_all)]\<close>.

  A parameter is what the crates \<open>toml\<close> and \<open>serde\<close> do on their own: the tree of a text, the
  message of an error, and what they make of a value of another type than the usual one where a
  struct or the name of a variant is asked for.
\<close>

section \<open>Documents and errors\<close>

datatype toml =
    TString string
  | TInteger int
  | TFloat f64
  | TBoolean bool
  | TDatetime string
  | TArray "toml list"
  | TTable "(string \<times> toml) list"

type_synonym entries = "(string \<times> toml) list"

datatype de_error =
    MissingField string
  | DuplicateField string
  | InvalidType string
  | InvalidNumber int
  | UnknownVariant string

text \<open>
  \<open>tc_parse\<close> is the tree of a text; \<open>tc_fields\<close> the entries of a struct, by its name, in a value that
  is no table; \<open>tc_variant\<close> the variant of an enum, by its name, in a value that is no string;
  \<open>tc_message\<close> the text of an error.
\<close>

record toml_crate =
  tc_parse :: "string \<Rightarrow> string + entries"
  tc_fields :: "string \<Rightarrow> toml \<Rightarrow> entries option"
  tc_variant :: "string \<Rightarrow> toml \<Rightarrow> string option"
  tc_message :: "de_error \<Rightarrow> string"

section \<open>Values\<close>

fun de_string :: "toml \<Rightarrow> de_error + string" where
  "de_string (TString s) = Inr s"
| "de_string _ = Inl (InvalidType ''a string'')"

fun de_bool :: "toml \<Rightarrow> de_error + bool" where
  "de_bool (TBoolean b) = Inr b"
| "de_bool _ = Inl (InvalidType ''a boolean'')"

text \<open>An unsigned integer must fit into the type of its field.\<close>

fun de_uint :: "toml \<Rightarrow> de_error + 'w::len word" where
  "de_uint (TInteger i) =
     (if 0 \<le> i \<and> i < 2 ^ LENGTH('w) then Inr (word_of_int i) else Inl (InvalidNumber i))"
| "de_uint _ = Inl (InvalidType ''an integer'')"

text \<open>A field of type \<open>f64\<close> also takes the integers of 64 bits, converted as by \<open>as f64\<close>.\<close>

fun de_f64 :: "toml \<Rightarrow> de_error + f64" where
  "de_f64 (TFloat x) = Inr x"
| "de_f64 (TInteger i) =
     (if - (2 ^ 63) \<le> i \<and> i < 2 ^ 64 then Inr (f64_of_int i) else Inl (InvalidNumber i))"
| "de_f64 _ = Inl (InvalidType ''a number'')"

fun de_vec :: "(toml \<Rightarrow> de_error + 'a) \<Rightarrow> toml \<Rightarrow> de_error + 'a list" where
  "de_vec de (TArray vs) = try_map de vs"
| "de_vec de _ = Inl (InvalidType ''a sequence'')"

text \<open>An enum of unit variants is read by the name of the variant.\<close>

definition variant_name :: "toml_crate \<Rightarrow> string \<Rightarrow> toml \<Rightarrow> string option" where
  "variant_name crate enum_name v =
     (case v of TString s \<Rightarrow> Some s | _ \<Rightarrow> tc_variant crate enum_name v)"

definition de_variant ::
    "toml_crate \<Rightarrow> string \<Rightarrow> (string \<times> 'a) list \<Rightarrow> toml \<Rightarrow> de_error + 'a" where
  "de_variant crate enum_name variants v =
     (case variant_name crate enum_name v of
        None \<Rightarrow> Inl (InvalidType enum_name)
      | Some s \<Rightarrow> (case map_of variants s of None \<Rightarrow> Inl (UnknownVariant s) | Some x \<Rightarrow> Inr x))"

section \<open>Structs\<close>

definition struct_entries :: "toml_crate \<Rightarrow> string \<Rightarrow> toml \<Rightarrow> de_error + entries" where
  "struct_entries crate struct_name v =
     (case v of
        TTable es \<Rightarrow> Inr es
      | _ \<Rightarrow> (case tc_fields crate struct_name v of
                None \<Rightarrow> Inl (InvalidType struct_name) | Some es \<Rightarrow> Inr es))"

text \<open>
  A visitor has a check for each of its fields, which is how the reading of an entry can fail, and
  what it builds from the entries when every check has passed.
\<close>

type_synonym 'a visitor =
  "(string \<times> (toml \<Rightarrow> de_error option)) list \<times> (entries \<Rightarrow> de_error + 'a)"

definition failure :: "de_error + 'a \<Rightarrow> de_error option" where
  "failure r = (case r of Inl e \<Rightarrow> Some e | Inr _ \<Rightarrow> None)"

definition all_fields :: "'a \<Rightarrow> 'a visitor" where
  "all_fields x = ([], \<lambda>es. Inr x)"

definition add_field ::
    "string \<Rightarrow> (toml \<Rightarrow> de_error + 'a) \<Rightarrow> (de_error + 'a) \<Rightarrow> ('a \<Rightarrow> 'b) visitor \<Rightarrow> 'b visitor" where
  "add_field key de absent rest =
     ((key, \<lambda>v. failure (de v)) # fst rest,
      \<lambda>es. try_then (case map_of es key of None \<Rightarrow> absent | Some v \<Rightarrow> de v) (\<lambda>x.
           try_then (snd rest es) (\<lambda>make. Inr (make x))))"

definition required :: "string \<Rightarrow> (toml \<Rightarrow> de_error + 'a) \<Rightarrow> ('a \<Rightarrow> 'b) visitor \<Rightarrow> 'b visitor" where
  "required key de = add_field key de (Inl (MissingField key))"

definition with_default ::
    "string \<Rightarrow> (toml \<Rightarrow> de_error + 'a) \<Rightarrow> 'a \<Rightarrow> ('a \<Rightarrow> 'b) visitor \<Rightarrow> 'b visitor" where
  "with_default key de default_value = add_field key de (Inr default_value)"

definition field_names :: "'a visitor \<Rightarrow> string list" where
  "field_names vis = map fst (fst vis)"

primrec visit_entries ::
    "(string \<times> (toml \<Rightarrow> de_error option)) list \<Rightarrow> string list \<Rightarrow> entries \<Rightarrow> de_error + unit" where
  "visit_entries checks seen [] = Inr ()"
| "visit_entries checks seen (entry # es) =
     (case map_of checks (fst entry) of
        None \<Rightarrow> visit_entries checks seen es
      | Some check \<Rightarrow>
          if fst entry \<in> set seen then Inl (DuplicateField (fst entry))
          else (case check (snd entry) of
                  Some e \<Rightarrow> Inl e
                | None \<Rightarrow> visit_entries checks (fst entry # seen) es))"

definition visit_map :: "'a visitor \<Rightarrow> entries \<Rightarrow> de_error + 'a" where
  "visit_map vis es = try_then (visit_entries (fst vis) [] es) (\<lambda>_. snd vis es)"

text \<open>A field under \<open>#[serde(flatten)]\<close> is read from the entries that are no other field's.\<close>

definition other_entries :: "string list \<Rightarrow> entries \<Rightarrow> entries" where
  "other_entries names es = filter (\<lambda>entry. fst entry \<notin> set names) es"

section \<open>What an entry says\<close>

text \<open>The declarative counterpart: the values under a key, without the order of the entries.\<close>

definition values_at :: "entries \<Rightarrow> string \<Rightarrow> toml list" where
  "values_at es key = map snd (filter (\<lambda>entry. fst entry = key) es)"

definition entry_is :: "entries \<Rightarrow> string \<Rightarrow> (toml \<Rightarrow> 'a \<Rightarrow> bool) \<Rightarrow> 'a \<Rightarrow> bool" where
  "entry_is es key denotes x \<longleftrightarrow> (\<exists>v. values_at es key = [v] \<and> denotes v x)"

definition entry_or_default ::
    "entries \<Rightarrow> string \<Rightarrow> (toml \<Rightarrow> 'a \<Rightarrow> bool) \<Rightarrow> 'a \<Rightarrow> 'a \<Rightarrow> bool" where
  "entry_or_default es key denotes default_value x \<longleftrightarrow>
     values_at es key = [] \<and> x = default_value \<or> entry_is es key denotes x"

definition is_string :: "toml \<Rightarrow> string \<Rightarrow> bool" where
  "is_string v s \<longleftrightarrow> v = TString s"

definition is_bool :: "toml \<Rightarrow> bool \<Rightarrow> bool" where
  "is_bool v b \<longleftrightarrow> v = TBoolean b"

definition is_uint :: "toml \<Rightarrow> 'w::len word \<Rightarrow> bool" where
  "is_uint v w \<longleftrightarrow> v = TInteger (uint w)"

definition is_f64 :: "toml \<Rightarrow> f64 \<Rightarrow> bool" where
  "is_f64 v x \<longleftrightarrow> v = TFloat x \<or>
     (\<exists>i. v = TInteger i \<and> - (2 ^ 63) \<le> i \<and> i < 2 ^ 64 \<and> x = f64_of_int i)"

definition is_vec :: "(toml \<Rightarrow> 'a \<Rightarrow> bool) \<Rightarrow> toml \<Rightarrow> 'a list \<Rightarrow> bool" where
  "is_vec denotes v xs \<longleftrightarrow> (\<exists>vs. v = TArray vs \<and> list_all2 denotes vs xs)"

definition is_variant :: "toml_crate \<Rightarrow> string \<Rightarrow> ('a \<Rightarrow> string) \<Rightarrow> toml \<Rightarrow> 'a \<Rightarrow> bool" where
  "is_variant crate enum_name name_of v x \<longleftrightarrow> variant_name crate enum_name v = Some (name_of x)"

lemma values_at_simps [simp]:
  "values_at [] key = []"
  "values_at (entry # es) key =
     (if fst entry = key then snd entry # values_at es key else values_at es key)"
  "values_at (es @ es') key = values_at es key @ values_at es' key"
  by (simp_all add: values_at_def)

lemma values_at_other_entries [simp]:
  "values_at (other_entries names es) key = (if key \<in> set names then [] else values_at es key)"
  by (induction es) (auto simp: other_entries_def)

lemma values_at_eq_Nil: "fst ` set es \<subseteq> keys \<Longrightarrow> key \<notin> keys \<Longrightarrow> values_at es key = []"
  by (auto simp: values_at_def filter_empty_conv)

lemma values_at_map_of:
  "values_at es key = [] \<Longrightarrow> map_of es key = None"
  "values_at es key = v # vs \<Longrightarrow> map_of es key = Some v"
  by (induction es) (auto split: if_splits)

lemma entry_is_other_entries [simp]:
  "key \<notin> set names \<Longrightarrow>
     entry_is (other_entries names es) key denotes x \<longleftrightarrow> entry_is es key denotes x"
  "key \<notin> set names \<Longrightarrow>
     entry_or_default (other_entries names es) key denotes d x \<longleftrightarrow>
     entry_or_default es key denotes d x"
  by (simp_all add: entry_is_def entry_or_default_def)

section \<open>The visitors, field by field\<close>

lemma field_names_simps [simp]:
  "field_names (all_fields x) = []"
  "field_names (required key de rest) = key # field_names rest"
  "field_names (with_default key de' d rest') = key # field_names rest'"
  by (simp_all add: field_names_def all_fields_def required_def with_default_def add_field_def)

lemma failure_None_iff [simp]: "failure r = None \<longleftrightarrow> (\<exists>x. r = Inr x)"
  by (auto simp: failure_def split: sum.splits)

lemma visit_entries_seen:
  "key \<notin> fst ` set checks \<Longrightarrow>
     visit_entries checks (seen @ key # seen') es = visit_entries checks (seen @ seen') es"
proof (induction es arbitrary: seen)
  case (Cons entry es)
  have "map_of checks key = None" using Cons.prems by (simp add: map_of_eq_None_iff)
  with Cons.IH [of "fst entry # seen"] Cons.IH [OF Cons.prems] Cons.prems show ?case
    by (auto split: option.splits)
qed simp

lemma visit_entries_Cons_iff:
  assumes "key \<notin> fst ` set checks"
  shows "visit_entries ((key, check) # checks) seen es = Inr () \<longleftrightarrow>
     visit_entries checks seen es = Inr () \<and>
     (if key \<in> set seen then values_at es key = []
      else values_at es key = [] \<or> (\<exists>v. values_at es key = [v] \<and> check v = None))"
proof (induction es arbitrary: seen)
  case (Cons entry es)
  show ?case
  proof (cases "fst entry = key")
    case True
    moreover have "map_of checks key = None" using assms by (simp add: map_of_eq_None_iff)
    moreover have "visit_entries checks (key # seen) es = visit_entries checks seen es"
      using visit_entries_seen [OF assms, of "[]" seen] by simp
    ultimately show ?thesis using Cons.IH [of "key # seen"] by (auto split: option.splits)
  next
    case False
    then show ?thesis using Cons.IH by (auto split: option.splits)
  qed
qed simp

lemma visit_map_all_fields [simp]: "visit_map (all_fields x) es = Inr y \<longleftrightarrow> y = x"
proof -
  have "visit_entries [] seen es = Inr ()" for seen by (induction es) simp_all
  then show ?thesis by (auto simp: visit_map_def all_fields_def)
qed

lemma visit_map_add_field_iff:
  assumes "key \<notin> set (field_names rest)"
  shows "visit_map (add_field key de absent rest) es = Inr r \<longleftrightarrow>
     (\<exists>x make. (values_at es key = [] \<and> absent = Inr x \<or> (\<exists>v. values_at es key = [v] \<and> de v = Inr x)) \<and>
        visit_map rest es = Inr make \<and> r = make x)"
proof -
  have "key \<notin> fst ` set (fst rest)" using assms by (simp add: field_names_def)
  from visit_entries_Cons_iff [OF this] show ?thesis
    by (auto simp: visit_map_def add_field_def try_then_Inr_iff values_at_map_of split: option.splits)
qed

text \<open>The visit succeeds with a result of which \<open>P\<close> holds.\<close>

definition visits :: "'a visitor \<Rightarrow> entries \<Rightarrow> ('a \<Rightarrow> bool) \<Rightarrow> bool" where
  "visits vis es P \<longleftrightarrow> (\<exists>x. visit_map vis es = Inr x \<and> P x)"

lemma visit_map_Inr_iff: "visit_map vis es = Inr x \<longleftrightarrow> visits vis es (\<lambda>y. y = x)"
  by (simp add: visits_def)

lemma visit_then_iff:
  "try_then (visit_map vis es) k = Inr y \<longleftrightarrow> visits vis es (\<lambda>x. k x = Inr y)"
  by (simp add: visits_def try_then_Inr_iff)

lemma visits_all_fields [simp]: "visits (all_fields x) es P \<longleftrightarrow> P x"
  by (simp add: visits_def)

section \<open>The contract of a type that can be read\<close>

text \<open>
  Reading a value, what a value denotes and how it is written belong together for every type: for
  the integers as for the whole configuration.
\<close>

locale reader =
  fixes de :: "toml \<Rightarrow> de_error + 'a"
    and denotes :: "toml \<Rightarrow> 'a \<Rightarrow> bool"
    and written :: "'a \<Rightarrow> toml"
  assumes de_iff: "de v = Inr x \<longleftrightarrow> denotes v x"
    and denotes_written: "denotes (written x) x"
begin

lemma reads_written: "de (written x) = Inr x"
  by (simp add: de_iff denotes_written)

lemma denotes_one: "denotes v x \<Longrightarrow> denotes v y \<Longrightarrow> x = y"
  by (simp flip: de_iff)

lemma vec_reader: "reader (de_vec de) (is_vec denotes) (\<lambda>xs. TArray (map written xs))"
proof
  fix v and xs :: "'a list"
  show "de_vec de v = Inr xs \<longleftrightarrow> is_vec denotes v xs"
    by (cases v) (simp_all add: is_vec_def try_map_Inr_iff de_iff)
  show "is_vec denotes (TArray (map written xs)) xs"
    by (simp add: is_vec_def list_all2_conv_all_nth denotes_written)
qed

lemma visits_required:
  assumes "key \<notin> set (field_names rest)"
  shows "visits (required key de rest) es P \<longleftrightarrow>
     (\<exists>x. entry_is es key denotes x \<and> visits rest es (\<lambda>make. P (make x)))"
  by (auto simp: visits_def required_def visit_map_add_field_iff [OF assms] de_iff entry_is_def)

lemma visits_with_default:
  assumes "key \<notin> set (field_names rest)"
  shows "visits (with_default key de d rest) es P \<longleftrightarrow>
     (\<exists>x. entry_or_default es key denotes d x \<and> visits rest es (\<lambda>make. P (make x)))"
  by (auto simp: visits_def with_default_def visit_map_add_field_iff [OF assms] de_iff
      entry_or_default_def entry_is_def)

lemma entry_written: "values_at es key = [written x] \<Longrightarrow> entry_is es key denotes x"
  by (simp add: entry_is_def denotes_written)

lemma entry_or_default_written:
  "values_at es key = (if p \<or> x \<noteq> d then [written x] else []) \<Longrightarrow>
     entry_or_default es key denotes d x"
  by (auto simp: entry_or_default_def entry_is_def denotes_written split: if_splits)

end

interpretation str: reader de_string is_string TString
proof
  show "de_string v = Inr x \<longleftrightarrow> is_string v x" for v x by (cases v) (auto simp: is_string_def)
qed (simp add: is_string_def)

interpretation truth: reader de_bool is_bool TBoolean
proof
  show "de_bool v = Inr x \<longleftrightarrow> is_bool v x" for v x by (cases v) (auto simp: is_bool_def)
qed (simp add: is_bool_def)

interpretation uint: reader "de_uint :: toml \<Rightarrow> de_error + 'w::len word" is_uint "\<lambda>w. TInteger (uint w)"
proof
  show "de_uint v = Inr x \<longleftrightarrow> is_uint v x" for v and x :: "'w word"
    by (cases v) (auto simp: is_uint_def uint_word_of_int take_bit_int_eq_self)
qed (simp add: is_uint_def)

interpretation double: reader de_f64 is_f64 TFloat
proof
  show "de_f64 v = Inr x \<longleftrightarrow> is_f64 v x" for v x by (cases v) (auto simp: is_f64_def)
qed (simp add: is_f64_def)

lemma variant_reader:
  assumes "\<And>s x. map_of variants s = Some x \<longleftrightarrow> s = name_of x"
  shows "reader (de_variant crate enum_name variants) (is_variant crate enum_name name_of)
     (\<lambda>x. TString (name_of x))"
proof
  have "(case map_of variants s of None \<Rightarrow> Inl e | Some y \<Rightarrow> Inr y) = Inr x \<longleftrightarrow> s = name_of x" for s e x
    unfolding assms [symmetric] by (simp split: option.split)
  then show "de_variant crate enum_name variants v = Inr x \<longleftrightarrow> is_variant crate enum_name name_of v x" for v x
    by (cases "variant_name crate enum_name v") (simp_all add: de_variant_def is_variant_def)
  show "is_variant crate enum_name name_of (TString (name_of x)) x" for x
    by (simp add: is_variant_def variant_name_def)
qed

end
