(* ===== verification/Schema.thy ===== *)
theory Schema
  imports Gw_Prelude F64
begin

text \<open>
  The data of \<open>src/types.rs\<close> and \<open>src/config/schema.rs\<close>: the readings and batches that the tasks
  exchange, and the configuration with its serde defaults. Every struct is a record, every enum a
  datatype, every integer a word of its width; a field's name carries a prefix for its struct
  where Rust has the same field name in several structs.
\<close>

section \<open>src/types.rs\<close>

record PointId =
  pid_device :: string
  pid_point :: string

record Reading =
  rd_point_id :: PointId
  rd_value :: f64

record AggregatedPoint =
  ap_name :: string
  ap_unit :: string
  ap_mean :: f64

record AggregatedBatch =
  ab_device_id :: string
  ab_window_start :: u64
  ab_window_end :: u64
  ab_points :: "AggregatedPoint list"

section \<open>src/config/schema.rs\<close>

datatype DataType = U16 | I16 | U32 | I32 | F32

datatype WordOrder = BigEndian | LittleEndian

datatype Function = Holding | Input

datatype Parity = ParityNone | ParityEven | ParityOdd

text \<open>\<open>Rtu serial_port baud_rate data_bits parity stop_bits inter_frame_delay_ms\<close>.\<close>

datatype Transport =
    Tcp string u16
  | Rtu string u32 u8 Parity u8 u64

record PointConfig =
  pt_name :: string
  pt_offset :: u16
  pt_data_type :: DataType
  pt_scale :: f64
  pt_absolute :: bool
  pt_unit :: string

record BlockConfig =
  bk_function :: Function
  bk_start :: u16
  bk_count :: u16
  bk_word_order :: WordOrder
  bk_points :: "PointConfig list"

record DeviceConfig =
  dv_id :: string
  dv_unit_id :: u8
  dv_blocks :: "BlockConfig list"

record ConnectionConfig =
  cn_id :: string
  cn_transport :: Transport
  cn_poll_interval_secs :: u64
  cn_io_timeout_ms :: u64
  cn_reconnect_backoff_min_secs :: u64
  cn_reconnect_backoff_max_secs :: u64
  cn_devices :: "DeviceConfig list"

record MqttConfig =
  mq_broker_host :: string
  mq_broker_port :: u16
  mq_client_id :: string
  mq_tls :: bool
  mq_ca_cert_path :: string
  mq_username :: string
  mq_password_env :: string
  mq_qos :: u8
  mq_keep_alive_secs :: u64
  mq_topic_template :: string

record GatewayConfig =
  gw_id :: string
  gw_aggregation_window_secs :: u64
  gw_base_name_prefix :: string
  gw_log_level :: string
  gw_status_file_path :: string
  gw_status_debounce_secs :: u64
  gw_status_heartbeat_secs :: u64

record Config =
  cf_gateway :: GatewayConfig
  cf_mqtt :: MqttConfig
  cf_connections :: "ConnectionConfig list"

subsection \<open>The defaults\<close>

definition default_status_file_path :: string where
  "default_status_file_path = ''/dev/container_config/status''"

definition default_status_debounce_secs :: u64 where "default_status_debounce_secs = 2"

definition default_status_heartbeat_secs :: u64 where "default_status_heartbeat_secs = 30"

definition default_qos :: u8 where "default_qos = 1"

definition default_backoff_min_secs :: u64 where "default_backoff_min_secs = 1"

definition default_backoff_max_secs :: u64 where "default_backoff_max_secs = 30"

definition default_data_bits :: u8 where "default_data_bits = 8"

definition default_stop_bits :: u8 where "default_stop_bits = 1"

definition default_scale :: f64 where "default_scale = f64_one"

definition default_parity :: Parity where "default_parity = ParityNone"

definition default_word_order :: WordOrder where "default_word_order = BigEndian"

subsection \<open>Registers of a data type\<close>

primrec word_count :: "DataType \<Rightarrow> u16" where
  "word_count U16 = 1"
| "word_count I16 = 1"
| "word_count U32 = 2"
| "word_count I32 = 2"
| "word_count F32 = 2"

lemma word_count_bounds: "1 \<le> unat (word_count t)" "unat (word_count t) \<le> 2"
  by (cases t; simp)+

text \<open>
  The registers of its block that a point occupies, as a set of offsets, and the points of a whole
  configuration in the order of the file.
\<close>

definition point_registers :: "PointConfig \<Rightarrow> nat set" where
  "point_registers p =
     {unat (pt_offset p) ..< unat (pt_offset p) + unat (word_count (pt_data_type p))}"

definition device_points :: "DeviceConfig \<Rightarrow> PointConfig list" where
  "device_points d = concat (map bk_points (dv_blocks d))"

lemma point_registers_nonempty: "unat (pt_offset p) \<in> point_registers p"
  using word_count_bounds(1) [of "pt_data_type p"] by (simp add: point_registers_def)

lemma point_registers_subset_iff:
  "point_registers p \<subseteq> {..< n} \<longleftrightarrow> unat (pt_offset p) + unat (word_count (pt_data_type p)) \<le> n"
proof
  assume *: "point_registers p \<subseteq> {..< n}"
  have "unat (pt_offset p) + unat (word_count (pt_data_type p)) - 1 \<in> point_registers p"
    using word_count_bounds(1) [of "pt_data_type p"] by (auto simp: point_registers_def)
  with * show "unat (pt_offset p) + unat (word_count (pt_data_type p)) \<le> n"
    using word_count_bounds(1) [of "pt_data_type p"] by auto
qed (auto simp: point_registers_def)

end
