(* ===== verification/Example_Config.thy ===== *)
theory Example_Config
  imports Schema
begin

text \<open>
  One small configuration, a meter over TCP and an inverter on a serial line, on which the
  properties are instantiated.
\<close>

definition ex_voltage :: PointConfig where
  "ex_voltage = \<lparr>pt_name = ''voltage'', pt_offset = 0, pt_data_type = U16, pt_scale = f64_one,
     pt_absolute = False, pt_unit = ''V''\<rparr>"

definition ex_power :: PointConfig where
  "ex_power = \<lparr>pt_name = ''power'', pt_offset = 2, pt_data_type = I32, pt_scale = f64_one,
     pt_absolute = True, pt_unit = ''W''\<rparr>"

definition ex_temp :: PointConfig where
  "ex_temp = \<lparr>pt_name = ''temp'', pt_offset = 0, pt_data_type = F32, pt_scale = f64_one,
     pt_absolute = False, pt_unit = ''Cel''\<rparr>"

definition ex_block :: BlockConfig where
  "ex_block = \<lparr>bk_function = Holding, bk_start = 100, bk_count = 4, bk_word_order = BigEndian,
     bk_points = [ex_voltage, ex_power]\<rparr>"

definition ex_block2 :: BlockConfig where
  "ex_block2 = \<lparr>bk_function = Input, bk_start = 0, bk_count = 2, bk_word_order = LittleEndian,
     bk_points = [ex_temp]\<rparr>"

definition ex_meter :: DeviceConfig where
  "ex_meter = \<lparr>dv_id = ''meter'', dv_unit_id = 1, dv_blocks = [ex_block]\<rparr>"

definition ex_inverter :: DeviceConfig where
  "ex_inverter = \<lparr>dv_id = ''inverter'', dv_unit_id = 7, dv_blocks = [ex_block2]\<rparr>"

definition ex_tcp :: ConnectionConfig where
  "ex_tcp = \<lparr>cn_id = ''tcp'', cn_transport = Tcp ''meter.local'' 502, cn_poll_interval_secs = 10,
     cn_io_timeout_ms = 500, cn_reconnect_backoff_min_secs = 1, cn_reconnect_backoff_max_secs = 30,
     cn_devices = [ex_meter]\<rparr>"

definition ex_rtu :: ConnectionConfig where
  "ex_rtu = \<lparr>cn_id = ''rtu'', cn_transport = Rtu ''/dev/ttyS0'' 9600 8 ParityNone 1 5,
     cn_poll_interval_secs = 10, cn_io_timeout_ms = 500, cn_reconnect_backoff_min_secs = 1,
     cn_reconnect_backoff_max_secs = 30, cn_devices = [ex_inverter]\<rparr>"

definition ex_gateway :: GatewayConfig where
  "ex_gateway = \<lparr>gw_id = ''gw1'', gw_aggregation_window_secs = 60, gw_base_name_prefix = ''urn:dev:gw1:'',
     gw_log_level = ''info'', gw_status_file_path = ''/tmp/status'', gw_status_debounce_secs = 2,
     gw_status_heartbeat_secs = 30\<rparr>"

definition ex_mqtt :: MqttConfig where
  "ex_mqtt = \<lparr>mq_broker_host = ''broker'', mq_broker_port = 1883, mq_client_id = ''gw1'', mq_tls = False,
     mq_ca_cert_path = ''/ca.pem'', mq_username = '''', mq_password_env = '''', mq_qos = 1,
     mq_keep_alive_secs = 30, mq_topic_template = ''telemetry/{device}/data''\<rparr>"

definition ex_config :: Config where
  "ex_config = \<lparr>cf_gateway = ex_gateway, cf_mqtt = ex_mqtt, cf_connections = [ex_tcp, ex_rtu]\<rparr>"

lemmas ex_defs = ex_config_def ex_mqtt_def ex_gateway_def ex_rtu_def ex_tcp_def ex_inverter_def
  ex_meter_def ex_block2_def ex_block_def ex_temp_def ex_power_def ex_voltage_def

end
