(* ===== verification/Validate.thy ===== *)
theory Validate
  imports Schema Example_Config
begin

text \<open>
  \<open>src/config/validate.rs\<close> and \<open>load\<close> of \<open>src/config/mod.rs\<close>: the checks in the order the code makes
  them, each with its error, and their equivalence with a declarative description of a valid
  configuration. What lies outside the repository is a field of \<open>config_env\<close>: reading a file as
  bytes or as UTF-8 text, the PEM parser, the TOML deserialiser and the level parser of \<open>tracing\<close>. A file's content is the
  string of its bytes; an I/O or parser error is the text it displays.
\<close>

section \<open>Errors and environment\<close>

datatype ValidationError =
    ZeroInterval string
  | InvalidLogLevel string
  | InvalidQos u8
  | DuplicateUnitId string u8
  | DuplicateSerialPort string string string
  | UnsupportedSerialSetting string string u8 string
  | BlockTooLarge string string u16 u16
  | PointOutOfBounds string string u16 string u16 u16 u16
  | OverlappingPoints string string u16 string string
  | CaCertUnreadable string string
  | CaCertEmpty string
  | CaCertUnparseable string string

datatype ConfigError =
    ReadError string string
  | ParseError string string
  | ValidationErr ValidationError

record 'level config_env =
  ce_read_file :: "string \<Rightarrow> string + string"
  ce_read_text :: "string \<Rightarrow> string + string"
  ce_parse_toml :: "string \<Rightarrow> string + Config"
  ce_parse_level :: "string \<Rightarrow> 'level option"
  ce_pem_certs :: "string \<Rightarrow> (string + string) list"

section \<open>The checks\<close>

text \<open>\<open>seen_unit_ids.insert(device.unit_id)\<close> over the devices of a connection.\<close>

definition check_unit_ids :: "ConnectionConfig \<Rightarrow> ValidationError + u8 set" where
  "check_unit_ids conn =
     try_fold (\<lambda>seen d.
       if dv_unit_id d \<in> seen then Inl (DuplicateUnitId (cn_id conn) (dv_unit_id d))
       else Inr (insert (dv_unit_id d) seen)) {} (cn_devices conn)"

text \<open>The serial settings, and the table of serial ports with the connection that uses each.\<close>

definition check_serial ::
  "(string \<rightharpoonup> string) \<Rightarrow> ConnectionConfig \<Rightarrow> ValidationError + (string \<rightharpoonup> string)" where
  "check_serial ports conn =
     (case cn_transport conn of
        Tcp host port \<Rightarrow> Inr ports
      | Rtu serial_port baud_rate data_bits parity stop_bits delay \<Rightarrow>
          if \<not> (5 \<le> data_bits \<and> data_bits \<le> 8) then
            Inl (UnsupportedSerialSetting (cn_id conn) ''data_bits'' data_bits ''5, 6, 7, 8'')
          else if \<not> (1 \<le> stop_bits \<and> stop_bits \<le> 2) then
            Inl (UnsupportedSerialSetting (cn_id conn) ''stop_bits'' stop_bits ''1, 2'')
          else case ports serial_port of
            Some first \<Rightarrow> Inl (DuplicateSerialPort serial_port first (cn_id conn))
          | None \<Rightarrow> Inr (ports(serial_port \<mapsto> cn_id conn)))"

text \<open>One point of a block: its span \<open>(start, end, name)\<close>, computed in \<open>u16\<close> after the check in \<open>u32\<close>.\<close>

definition check_point ::
  "ConnectionConfig \<Rightarrow> DeviceConfig \<Rightarrow> BlockConfig \<Rightarrow> PointConfig \<Rightarrow> ValidationError + (u16 \<times> u16 \<times> string)" where
  "check_point conn device block point =
     (let width = word_count (pt_data_type point);
          point_end = (ucast (pt_offset point) :: u32) + ucast width
      in if (ucast (bk_count block) :: u32) < point_end then
           Inl (PointOutOfBounds (cn_id conn) (dv_id device) (bk_start block) (pt_name point)
                  (pt_offset point) width (bk_count block))
         else Inr (pt_offset point, pt_offset point + width, pt_name point))"

definition check_pair ::
  "ConnectionConfig \<Rightarrow> DeviceConfig \<Rightarrow> BlockConfig
     \<Rightarrow> (u16 \<times> u16 \<times> string) \<times> (u16 \<times> u16 \<times> string) \<Rightarrow> ValidationError + unit" where
  "check_pair conn device block = (\<lambda>((_, a_end, a_name), (b_start, _, b_name)).
     if b_start < a_end then
       Inl (OverlappingPoints (cn_id conn) (dv_id device) (bk_start block) a_name b_name)
     else Inr ())"

definition check_block ::
  "ConnectionConfig \<Rightarrow> DeviceConfig \<Rightarrow> BlockConfig \<Rightarrow> ValidationError + unit" where
  "check_block conn device block =
     (if 125 < bk_count block then
        Inl (BlockTooLarge (cn_id conn) (dv_id device) (bk_start block) (bk_count block))
      else
        try_then (try_map (check_point conn device block) (bk_points block)) (\<lambda>spans.
          try_each (check_pair conn device block) (windows2 (sort_key fst spans))))"

definition check_blocks :: "ConnectionConfig \<Rightarrow> ValidationError + unit" where
  "check_blocks conn =
     try_each (\<lambda>device. try_each (check_block conn device) (dv_blocks device)) (cn_devices conn)"

definition validate_connection ::
  "(string \<rightharpoonup> string) \<Rightarrow> ConnectionConfig \<Rightarrow> ValidationError + (string \<rightharpoonup> string)" where
  "validate_connection ports conn =
     (if cn_poll_interval_secs conn = 0 then
        Inl (ZeroInterval (''connection '' @ squote @ cn_id conn @ squote @ '': poll_interval_secs''))
      else
        try_then (check_unit_ids conn) (\<lambda>_.
        try_then (check_serial ports conn) (\<lambda>ports'.
        try_then (check_blocks conn) (\<lambda>_. Inr ports'))))"

text \<open>\<open>.collect::<Result<Vec<_>, _>>()\<close>: the first error, or all certificates.\<close>

definition validate_ca_cert :: "'level config_env \<Rightarrow> string \<Rightarrow> ValidationError + unit" where
  "validate_ca_cert env path =
     (case ce_read_file env path of
        Inl e \<Rightarrow> Inl (CaCertUnreadable path e)
      | Inr bytes \<Rightarrow>
          (case try_map (\<lambda>r. r) (ce_pem_certs env bytes) of
             Inl e \<Rightarrow> Inl (CaCertUnparseable path e)
           | Inr certs \<Rightarrow> if certs = [] then Inl (CaCertEmpty path) else Inr ()))"

definition validate :: "'level config_env \<Rightarrow> Config \<Rightarrow> ValidationError + unit" where
  "validate env config =
     (if gw_aggregation_window_secs (cf_gateway config) = 0 then
        Inl (ZeroInterval ''gateway.aggregation_window_secs'')
      else if ce_parse_level env (gw_log_level (cf_gateway config)) = None then
        Inl (InvalidLogLevel (gw_log_level (cf_gateway config)))
      else if 2 < mq_qos (cf_mqtt config) then
        Inl (InvalidQos (mq_qos (cf_mqtt config)))
      else
        try_then (try_fold validate_connection Map.empty (cf_connections config)) (\<lambda>_.
        try_then (validate_ca_cert env (mq_ca_cert_path (cf_mqtt config))) (\<lambda>_. Inr ())))"

definition load :: "'level config_env \<Rightarrow> string \<Rightarrow> ConfigError + Config" where
  "load env path =
     (case ce_read_text env path of
        Inl e \<Rightarrow> Inl (ReadError path e)
      | Inr contents \<Rightarrow>
          (case ce_parse_toml env contents of
             Inl e \<Rightarrow> Inl (ParseError path e)
           | Inr config \<Rightarrow>
               (case validate env config of
                  Inl e \<Rightarrow> Inl (ValidationErr e)
                | Inr _ \<Rightarrow> Inr config)))"

section \<open>What a valid configuration is\<close>

definition valid_block :: "BlockConfig \<Rightarrow> bool" where
  "valid_block b \<longleftrightarrow>
     unat (bk_count b) \<le> 125 \<and>
     (\<forall>p \<in> set (bk_points b). point_registers p \<subseteq> {..< unat (bk_count b)}) \<and>
     sorted_wrt (\<lambda>p q. point_registers p \<inter> point_registers q = {}) (bk_points b)"

definition valid_serial :: "Transport \<Rightarrow> bool" where
  "valid_serial t =
     (case t of
        Tcp host port \<Rightarrow> True
      | Rtu serial_port baud_rate data_bits parity stop_bits delay \<Rightarrow>
          data_bits \<in> {5, 6, 7, 8} \<and> stop_bits \<in> {1, 2})"

definition serial_ports :: "ConnectionConfig list \<Rightarrow> string list" where
  "serial_ports conns =
     concat (map (\<lambda>c. case cn_transport c of Tcp _ _ \<Rightarrow> [] | Rtu port _ _ _ _ _ \<Rightarrow> [port]) conns)"

definition valid_connection :: "ConnectionConfig \<Rightarrow> bool" where
  "valid_connection c \<longleftrightarrow>
     cn_poll_interval_secs c \<noteq> 0 \<and>
     distinct (map dv_unit_id (cn_devices c)) \<and>
     valid_serial (cn_transport c) \<and>
     (\<forall>d \<in> set (cn_devices c). \<forall>b \<in> set (dv_blocks d). valid_block b)"

definition valid_ca_cert :: "'level config_env \<Rightarrow> string \<Rightarrow> bool" where
  "valid_ca_cert env path \<longleftrightarrow>
     (\<exists>bytes certs. ce_read_file env path = Inr bytes \<and>
        ce_pem_certs env bytes = map Inr certs \<and> certs \<noteq> [])"

definition valid_config :: "'level config_env \<Rightarrow> Config \<Rightarrow> bool" where
  "valid_config env c \<longleftrightarrow>
     gw_aggregation_window_secs (cf_gateway c) \<noteq> 0 \<and>
     ce_parse_level env (gw_log_level (cf_gateway c)) \<noteq> None \<and>
     mq_qos (cf_mqtt c) \<in> {0, 1, 2} \<and>
     (\<forall>conn \<in> set (cf_connections c). valid_connection conn) \<and>
     distinct (serial_ports (cf_connections c)) \<and>
     valid_ca_cert env (mq_ca_cert_path (cf_mqtt c))"

section \<open>Units and serial ports\<close>

lemma check_unit_ids_aux:
  "(\<exists>s. try_fold (\<lambda>seen d.
       if dv_unit_id d \<in> seen then Inl (DuplicateUnitId c (dv_unit_id d))
       else Inr (insert (dv_unit_id d) seen)) seen ds = Inr s) \<longleftrightarrow>
   distinct (map dv_unit_id ds) \<and> seen \<inter> dv_unit_id ` set ds = {}"
  by (induction ds arbitrary: seen) auto

lemma check_unit_ids_iff:
  "(\<exists>s. check_unit_ids conn = Inr s) \<longleftrightarrow> distinct (map dv_unit_id (cn_devices conn))"
  unfolding check_unit_ids_def by (subst check_unit_ids_aux) simp

lemma u8_range_iff:
  "5 \<le> (b :: u8) \<and> b \<le> 8 \<longleftrightarrow> b \<in> {5, 6, 7, 8}" "1 \<le> (b :: u8) \<and> b \<le> 2 \<longleftrightarrow> b \<in> {1, 2}"
  "\<not> 2 < (b :: u8) \<longleftrightarrow> b \<in> {0, 1, 2}"
proof -
  have *: "b = x \<longleftrightarrow> unat b = unat x" for x by (simp add: word_unat_eq_iff)
  show "5 \<le> b \<and> b \<le> 8 \<longleftrightarrow> b \<in> {5, 6, 7, 8}" "1 \<le> b \<and> b \<le> 2 \<longleftrightarrow> b \<in> {1, 2}"
    "\<not> 2 < b \<longleftrightarrow> b \<in> {0, 1, 2}"
    by (auto simp: * word_le_nat_alt word_less_nat_alt)
qed

lemma check_serial_Inr_iff:
  "check_serial ports c = Inr ports' \<longleftrightarrow>
     valid_serial (cn_transport c) \<and>
     (\<forall>p \<in> set (serial_ports [c]). ports p = None) \<and>
     ports' = ports ++ map_of (map (\<lambda>p. (p, cn_id c)) (serial_ports [c]))"
  by (cases "cn_transport c")
    (auto simp: check_serial_def valid_serial_def serial_ports_def u8_range_iff split: option.splits)

section \<open>Blocks\<close>

lemma check_point_Inr_iff:
  "check_point conn d b p = Inr sp \<longleftrightarrow>
     point_registers p \<subseteq> {..< unat (bk_count b)} \<and>
     sp = (pt_offset p, pt_offset p + word_count (pt_data_type p), pt_name p)"
proof -
  let ?w = "word_count (pt_data_type p)"
  note w = word_count_bounds [of "pt_data_type p"]
  have o: "unat (pt_offset p) < 2 ^ 16" "unat (bk_count b) < 2 ^ 16"
    by (rule unat_u16_less)+
  have e: "unat ((ucast (pt_offset p) :: u32) + ucast ?w) = unat (pt_offset p) + unat ?w"
    using o w by (simp add: unat_word_ariths)
  have "(ucast (bk_count b) :: u32) < ucast (pt_offset p) + ucast ?w
      \<longleftrightarrow> unat (bk_count b) < unat (pt_offset p) + unat ?w"
    unfolding word_less_nat_alt e by simp
  then show ?thesis
    by (auto simp: check_point_def Let_def point_registers_subset_iff)
qed

text \<open>The end of a sp does not wrap in \<open>u16\<close> once the point is inside a block of at most 125 registers.\<close>

lemma span_end_exact:
  assumes "point_registers p \<subseteq> {..< unat (bk_count b)}" and "unat (bk_count b) \<le> 125"
  shows "unat (pt_offset p + word_count (pt_data_type p))
      = unat (pt_offset p) + unat (word_count (pt_data_type p))"
  using assms by (simp add: point_registers_subset_iff unat_word_ariths)

lemma check_block_iff: "check_block conn d b = Inr () \<longleftrightarrow> valid_block b"
proof -
  define sp where
    "sp = (\<lambda>p :: PointConfig. (pt_offset p, pt_offset p + word_count (pt_data_type p), pt_name p))"
  let ?fits = "\<forall>p \<in> set (bk_points b). point_registers p \<subseteq> {..< unat (bk_count b)}"
  have count: "\<not> 125 < bk_count b \<longleftrightarrow> unat (bk_count b) \<le> 125"
    by (simp add: word_less_nat_alt not_less)
  have map: "try_map (check_point conn d b) (bk_points b) = Inr spans \<longleftrightarrow>
      ?fits \<and> spans = map sp (bk_points b)" for spans
    unfolding sp_def by (rule try_map_Inr_map_iff) (rule check_point_Inr_iff)
  have overlap: "try_each (check_pair conn d b) (windows2 (sort_key fst (map sp (bk_points b)))) = Inr ()
      \<longleftrightarrow> sorted_wrt (\<lambda>p q. point_registers p \<inter> point_registers q = {}) (bk_points b)"
    if fits: ?fits and c: "unat (bk_count b) \<le> 125"
  proof -
    let ?xs = "sort_key fst (map sp (bk_points b))"
    let ?f = "\<lambda>s :: u16 \<times> u16 \<times> string. unat (fst s)"
    let ?g = "\<lambda>s :: u16 \<times> u16 \<times> string. unat (fst (snd s))"
    have ends: "?g (sp p) = unat (pt_offset p) + unat (word_count (pt_data_type p))"
      if "p \<in> set (bk_points b)" for p
      using span_end_exact [of p b] fits c that by (simp add: sp_def)
    have regs: "{?f (sp p) ..< ?g (sp p)} = point_registers p" if "p \<in> set (bk_points b)" for p
      using ends [OF that] by (simp add: point_registers_def sp_def)
    have "sorted (map fst ?xs)" by simp
    then have "sorted (map ?f ?xs)"
      by (simp add: sorted_map word_le_nat_alt)
    moreover have "\<forall>s \<in> set ?xs. ?f s < ?g s"
      using ends word_count_bounds(1) by (force simp: sp_def intro: less_le_trans)
    moreover have "try_each (check_pair conn d b) (windows2 ?xs) = Inr () \<longleftrightarrow>
        (\<forall>(x, y) \<in> set (windows2 ?xs). ?g x \<le> ?f y)"
      by (auto simp: try_each_Inr_iff check_pair_def word_less_nat_alt not_less split: if_splits; force)
    ultimately have "try_each (check_pair conn d b) (windows2 ?xs) = Inr () \<longleftrightarrow>
        sorted_wrt (\<lambda>x y. {?f x ..< ?g x} \<inter> {?f y ..< ?g y} = {}) ?xs"
      by (simp only: windows2_disjoint_iff)
    also have "\<dots> \<longleftrightarrow> sorted_wrt (\<lambda>x y. {?f x ..< ?g x} \<inter> {?f y ..< ?g y} = {}) (map sp (bk_points b))"
      by (rule sorted_wrt_sort_key_sym) (simp add: Int_commute)
    also have "\<dots> \<longleftrightarrow> sorted_wrt (\<lambda>p q. point_registers p \<inter> point_registers q = {}) (bk_points b)"
      unfolding sorted_wrt_map by (rule iffI; erule sorted_wrt_mono_rel [rotated]; simp only: regs)
    finally show ?thesis .
  qed
  show ?thesis
    using count map overlap
    by (auto simp: check_block_def valid_block_def try_then_Inr_iff)
qed

section \<open>Connections and the whole configuration\<close>

lemma check_blocks_iff:
  "check_blocks c = Inr u \<longleftrightarrow> (\<forall>d \<in> set (cn_devices c). \<forall>b \<in> set (dv_blocks d). valid_block b)"
  by (simp add: check_blocks_def try_each_Inr_iff check_block_iff)

lemma validate_connection_Inr_iff:
  "validate_connection ports c = Inr ports' \<longleftrightarrow>
     valid_connection c \<and>
     (\<forall>p \<in> set (serial_ports [c]). ports p = None) \<and>
     ports' = ports ++ map_of (map (\<lambda>p. (p, cn_id c)) (serial_ports [c]))"
  using check_unit_ids_iff [of c]
  by (auto simp: validate_connection_def valid_connection_def try_then_Inr_iff check_blocks_iff
      check_serial_Inr_iff)

lemma serial_ports_Cons: "serial_ports (c # cs) = serial_ports [c] @ serial_ports cs"
  by (simp add: serial_ports_def)

lemma distinct_serial_ports_single: "distinct (serial_ports [c])"
  by (auto simp: serial_ports_def split: Transport.splits)

lemma validate_connections_iff:
  "(\<exists>s. try_fold validate_connection ports conns = Inr s) \<longleftrightarrow>
     (\<forall>c \<in> set conns. valid_connection c) \<and> distinct (serial_ports conns) \<and>
     (\<forall>p \<in> set (serial_ports conns). ports p = None)"
proof (induction conns arbitrary: ports)
  case Nil
  show ?case by (simp add: serial_ports_def)
next
  case (Cons c cs)
  let ?ports' = "ports ++ map_of (map (\<lambda>p. (p, cn_id c)) (serial_ports [c]))"
  have new: "?ports' p = None \<longleftrightarrow> ports p = None \<and> p \<notin> set (serial_ports [c])" for p
    by (simp add: map_add_def map_of_const split: option.split)
  have "(\<exists>s. try_fold validate_connection ports (c # cs) = Inr s) \<longleftrightarrow>
      valid_connection c \<and> (\<forall>p \<in> set (serial_ports [c]). ports p = None) \<and>
      (\<exists>s. try_fold validate_connection ?ports' cs = Inr s)"
    by (auto simp: try_then_Inr_iff validate_connection_Inr_iff)
  also have "\<dots> \<longleftrightarrow> (\<forall>d \<in> set (c # cs). valid_connection d) \<and> distinct (serial_ports (c # cs)) \<and>
     (\<forall>p \<in> set (serial_ports (c # cs)). ports p = None)"
    unfolding Cons.IH serial_ports_Cons [of c cs] new
    using distinct_serial_ports_single [of c] by auto
  finally show ?case .
qed

lemma validate_ca_cert_iff: "validate_ca_cert env path = Inr u \<longleftrightarrow> valid_ca_cert env path"
proof (cases "ce_read_file env path")
  case (Inr bytes)
  have "validate_ca_cert env path = Inr u \<longleftrightarrow>
      (\<exists>certs. try_map (\<lambda>r. r) (ce_pem_certs env bytes) = Inr certs \<and> certs \<noteq> [])"
    by (cases "try_map (\<lambda>r. r) (ce_pem_certs env bytes)") (simp_all add: validate_ca_cert_def Inr)
  then show ?thesis
    unfolding valid_ca_cert_def try_map_id_Inr_iff by (simp add: Inr)
qed (simp add: validate_ca_cert_def valid_ca_cert_def)

text \<open>The checks accept exactly the valid configurations.\<close>

lemma validate_iff: "validate env c = Inr u \<longleftrightarrow> valid_config env c"
proof -
  have "validate env c = Inr u \<longleftrightarrow>
      gw_aggregation_window_secs (cf_gateway c) \<noteq> 0 \<and>
      ce_parse_level env (gw_log_level (cf_gateway c)) \<noteq> None \<and>
      \<not> 2 < mq_qos (cf_mqtt c) \<and>
      (\<exists>s. try_fold validate_connection Map.empty (cf_connections c) = Inr s) \<and>
      valid_ca_cert env (mq_ca_cert_path (cf_mqtt c))"
    by (auto simp: validate_def try_then_Inr_iff validate_ca_cert_iff)
  then show ?thesis
    unfolding validate_connections_iff u8_range_iff valid_config_def by auto
qed

lemma load_Inr_D:
  assumes "load env path = Inr c"
  shows "valid_config env c"
    and "\<exists>text. ce_read_text env path = Inr text \<and> ce_parse_toml env text = Inr c"
  using assms validate_iff [of env c] by (auto simp: load_def split: sum.splits)

section \<open>Every error names a defect\<close>

text \<open>The defect that an error reports, read off the configuration.\<close>

definition point_defect :: "Config \<Rightarrow> string \<Rightarrow> string \<Rightarrow> u16 \<Rightarrow> (BlockConfig \<Rightarrow> bool) \<Rightarrow> bool" where
  "point_defect c cid did start Q \<longleftrightarrow>
     (\<exists>conn \<in> set (cf_connections c). \<exists>d \<in> set (cn_devices conn). \<exists>b \<in> set (dv_blocks d).
        cn_id conn = cid \<and> dv_id d = did \<and> bk_start b = start \<and> Q b)"

primrec defect :: "'level config_env \<Rightarrow> Config \<Rightarrow> ValidationError \<Rightarrow> bool" where
  "defect env c (ZeroInterval field) \<longleftrightarrow>
     field = ''gateway.aggregation_window_secs'' \<and> gw_aggregation_window_secs (cf_gateway c) = 0 \<or>
     (\<exists>conn \<in> set (cf_connections c). cn_poll_interval_secs conn = 0 \<and>
        field = ''connection '' @ squote @ cn_id conn @ squote @ '': poll_interval_secs'')"
| "defect env c (InvalidLogLevel l) \<longleftrightarrow>
     l = gw_log_level (cf_gateway c) \<and> ce_parse_level env l = None"
| "defect env c (InvalidQos q) \<longleftrightarrow> q = mq_qos (cf_mqtt c) \<and> q \<notin> {0, 1, 2}"
| "defect env c (DuplicateUnitId cid u) \<longleftrightarrow>
     (\<exists>conn \<in> set (cf_connections c). cn_id conn = cid \<and>
        {#u, u#} \<subseteq># mset (map dv_unit_id (cn_devices conn)))"
| "defect env c (DuplicateSerialPort port first second) \<longleftrightarrow>
     (\<exists>pre c1 mid c2 post. cf_connections c = pre @ c1 # mid @ c2 # post \<and>
        cn_id c1 = first \<and> cn_id c2 = second \<and>
        port \<in> set (serial_ports [c1]) \<and> port \<in> set (serial_ports [c2]))"
| "defect env c (UnsupportedSerialSetting cid field v allowed) \<longleftrightarrow>
     (\<exists>conn \<in> set (cf_connections c). \<exists>port baud db par sb delay.
        cn_id conn = cid \<and> cn_transport conn = Rtu port baud db par sb delay \<and>
        (field = ''data_bits'' \<and> v = db \<and> v \<notin> {5, 6, 7, 8} \<or>
         field = ''stop_bits'' \<and> v = sb \<and> v \<notin> {1, 2}))"
| "defect env c (BlockTooLarge cid did start n) \<longleftrightarrow>
     point_defect c cid did start (\<lambda>b. n = bk_count b \<and> 125 < unat n)"
| "defect env c (PointOutOfBounds cid did start name off width n) \<longleftrightarrow>
     point_defect c cid did start (\<lambda>b. n = bk_count b \<and>
       (\<exists>p \<in> set (bk_points b). pt_name p = name \<and> pt_offset p = off \<and>
          word_count (pt_data_type p) = width \<and> unat n < unat off + unat width))"
| "defect env c (OverlappingPoints cid did start a b) \<longleftrightarrow>
     point_defect c cid did start (\<lambda>blk. \<exists>p q. {#p, q#} \<subseteq># mset (bk_points blk) \<and>
       pt_name p = a \<and> pt_name q = b \<and> point_registers p \<inter> point_registers q \<noteq> {})"
| "defect env c (CaCertUnreadable path e) \<longleftrightarrow>
     path = mq_ca_cert_path (cf_mqtt c) \<and> ce_read_file env path = Inl e"
| "defect env c (CaCertEmpty path) \<longleftrightarrow>
     path = mq_ca_cert_path (cf_mqtt c) \<and>
     (\<exists>bytes. ce_read_file env path = Inr bytes \<and> ce_pem_certs env bytes = [])"
| "defect env c (CaCertUnparseable path e) \<longleftrightarrow>
     path = mq_ca_cert_path (cf_mqtt c) \<and>
     (\<exists>bytes. ce_read_file env path = Inr bytes \<and> Inl e \<in> set (ce_pem_certs env bytes))"

lemma check_unit_ids_Inl_D:
  assumes "check_unit_ids conn = Inl e"
  obtains u where "e = DuplicateUnitId (cn_id conn) u"
    and "{#u, u#} \<subseteq># mset (map dv_unit_id (cn_devices conn))"
proof -
  let ?f = "\<lambda>seen d. if dv_unit_id d \<in> seen then Inl (DuplicateUnitId (cn_id conn) (dv_unit_id d))
       else Inr (insert (dv_unit_id d) seen)"
  have seen: "try_fold ?f s ds = Inr s' \<Longrightarrow> s' = s \<union> dv_unit_id ` set ds" for s s' ds
    by (induction ds arbitrary: s) (auto split: if_splits)
  from assms [unfolded check_unit_ids_def, THEN try_fold_Inl_D] obtain pre d post s' where
    split: "cn_devices conn = pre @ d # post" and s': "try_fold ?f {} pre = Inr s'"
    and e: "?f s' d = Inl e" by blast
  from e have "dv_unit_id d \<in> s'" "e = DuplicateUnitId (cn_id conn) (dv_unit_id d)"
    by (auto split: if_splits)
  moreover from this seen [OF s'] obtain d' where "d' \<in> set pre" "dv_unit_id d' = dv_unit_id d"
    by auto
  then have "dv_unit_id d \<in># mset (map dv_unit_id pre)" by (metis image_eqI set_map set_mset_mset)
  then have "{#dv_unit_id d, dv_unit_id d#} \<subseteq># mset (map dv_unit_id (cn_devices conn))"
    unfolding split by (auto dest!: multi_member_split)
  ultimately show thesis using that by blast
qed

lemma check_serial_Inl_D:
  assumes "check_serial ports conn = Inl e"
  obtains port baud db par sb delay where
    "cn_transport conn = Rtu port baud db par sb delay"
    "e = UnsupportedSerialSetting (cn_id conn) ''data_bits'' db ''5, 6, 7, 8'' \<and> db \<notin> {5, 6, 7, 8} \<or>
     e = UnsupportedSerialSetting (cn_id conn) ''stop_bits'' sb ''1, 2'' \<and> sb \<notin> {1, 2} \<or>
     (\<exists>first. ports port = Some first \<and> e = DuplicateSerialPort port first (cn_id conn))"
  using assms unfolding check_serial_def u8_range_iff
  by (cases "cn_transport conn") (auto split: if_splits option.splits)

lemma check_point_Inl_D:
  assumes "check_point conn d b p = Inl e"
  shows "e = PointOutOfBounds (cn_id conn) (dv_id d) (bk_start b) (pt_name p) (pt_offset p)
      (word_count (pt_data_type p)) (bk_count b)"
    and "unat (bk_count b) < unat (pt_offset p) + unat (word_count (pt_data_type p))"
proof -
  from assms show "e = PointOutOfBounds (cn_id conn) (dv_id d) (bk_start b) (pt_name p) (pt_offset p)
      (word_count (pt_data_type p)) (bk_count b)"
    by (auto simp: check_point_def Let_def split: if_splits)
  from assms check_point_Inr_iff [of conn d b p]
  show "unat (bk_count b) < unat (pt_offset p) + unat (word_count (pt_data_type p))"
    by (auto simp: point_registers_subset_iff not_le [symmetric])
qed

lemma check_block_Inl_D:
  assumes err: "check_block conn d b = Inl e"
    and c: "conn \<in> set (cf_connections c)" "d \<in> set (cn_devices conn)" "b \<in> set (dv_blocks d)"
  shows "defect env c e"
proof -
  have block: "point_defect c (cn_id conn) (dv_id d) (bk_start b) Q" if "Q b" for Q
    using c that by (auto simp: point_defect_def)
  from err consider
      "125 < bk_count b" "e = BlockTooLarge (cn_id conn) (dv_id d) (bk_start b) (bk_count b)"
    | p where "p \<in> set (bk_points b)" "check_point conn d b p = Inl e"
    | spans pair where "unat (bk_count b) \<le> 125"
        "try_map (check_point conn d b) (bk_points b) = Inr spans"
        "pair \<in> set (windows2 (sort_key fst spans))" "check_pair conn d b pair = Inl e"
    by (auto simp: check_block_def try_then_Inl_iff word_less_nat_alt
        dest!: try_map_Inl_D try_each_Inl_D split: if_splits)
  then show ?thesis
  proof cases
    case 1
    then have "125 < unat (bk_count b)" by (simp add: word_less_nat_alt)
    with 1 block show ?thesis by simp
  next
    case 2
    with check_point_Inl_D [OF 2(2)] show ?thesis by (auto intro!: block bexI [of _ p])
  next
    case 3
    define sp where "sp = (\<lambda>p :: PointConfig.
      (pt_offset p, pt_offset p + word_count (pt_data_type p), pt_name p))"
    from 3(2) have spans: "spans = map sp (bk_points b)"
      and fits: "\<forall>p \<in> set (bk_points b). point_registers p \<subseteq> {..< unat (bk_count b)}"
      using try_map_Inr_map_iff [of "check_point conn d b", OF check_point_Inr_iff]
      unfolding sp_def by blast+
    obtain x y where pair: "pair = (x, y)" by (cases pair)
    from 3(3) have "{#x, y#} \<subseteq># mset (map sp (bk_points b))"
      unfolding pair using windows2_mset [of x y "sort_key fst spans"] by (simp add: spans)
    then obtain p q where pq: "{#p, q#} \<subseteq># mset (bk_points b)" "x = sp p" "y = sp q"
      by (rule mset_pair_map_D)
    then have mem: "p \<in> set (bk_points b)" "q \<in> set (bk_points b)"
      by (auto dest: mset_subset_eqD)
    have "sorted (map fst (sort_key fst spans))" by simp
    then have "\<forall>(x, y) \<in> set (windows2 (sort_key fst spans)). fst x \<le> fst y"
      by (rule windows2_sorted)
    with 3(3) pq pair have le: "pt_offset p \<le> pt_offset q" by (auto simp: sp_def)
    from 3(4) pair pq have lt: "pt_offset q < pt_offset p + word_count (pt_data_type p)"
      and e: "e = OverlappingPoints (cn_id conn) (dv_id d) (bk_start b) (pt_name p) (pt_name q)"
      by (auto simp: check_pair_def sp_def split: if_splits)
    have "unat (pt_offset q) < unat (pt_offset p) + unat (word_count (pt_data_type p))"
      using lt span_end_exact [of p b] fits mem 3(1) by (simp add: word_less_nat_alt)
    with le have "unat (pt_offset q) \<in> point_registers p"
      by (simp add: point_registers_def word_le_nat_alt)
    then have "point_registers p \<inter> point_registers q \<noteq> {}" using point_registers_nonempty [of q] by blast
    with pq have "\<exists>p' q'. {#p', q'#} \<subseteq># mset (bk_points b) \<and> pt_name p' = pt_name p \<and>
        pt_name q' = pt_name q \<and> point_registers p' \<inter> point_registers q' \<noteq> {}" by blast
    then show ?thesis unfolding e defect.simps by (rule block)
  qed
qed

lemma check_blocks_Inl_D:
  assumes "check_blocks conn = Inl e" and "conn \<in> set (cf_connections c)"
  shows "defect env c e"
  using assms by (auto simp: check_blocks_def dest!: try_each_Inl_D intro: check_block_Inl_D)

text \<open>The table of serial ports names, for each port, an earlier connection that uses it.\<close>

lemma ports_origin:
  "try_fold validate_connection ports conns = Inr ports' \<Longrightarrow> ports' p = Some f \<Longrightarrow>
     ports p = Some f \<or> (\<exists>c \<in> set conns. cn_id c = f \<and> p \<in> set (serial_ports [c]))"
proof (induction conns arbitrary: ports)
  case (Cons c cs)
  then obtain ports1 where "validate_connection ports c = Inr ports1"
    and rest: "try_fold validate_connection ports1 cs = Inr ports'"
    by (auto simp: try_then_Inr_iff)
  then have p1: "ports1 p = (if p \<in> set (serial_ports [c]) then Some (cn_id c) else ports p)"
    by (auto simp: validate_connection_Inr_iff map_add_def map_of_const)
  from Cons.IH [OF rest Cons.prems(2)] show ?case
    by (auto simp: p1 split: if_splits)
qed simp

lemma validate_connection_Inl_D:
  assumes err: "validate_connection ports conn = Inl e"
    and split: "cf_connections c = pre @ conn # post"
    and ports: "try_fold validate_connection Map.empty pre = Inr ports"
  shows "defect env c e"
proof -
  have conn: "conn \<in> set (cf_connections c)" by (simp add: split)
  from err consider
      "cn_poll_interval_secs conn = 0"
        "e = ZeroInterval (''connection '' @ squote @ cn_id conn @ squote @ '': poll_interval_secs'')"
    | "check_unit_ids conn = Inl e" | "check_serial ports conn = Inl e" | "check_blocks conn = Inl e"
    by (auto simp: validate_connection_def try_then_Inl_iff split: if_splits)
  then show ?thesis
  proof cases
    case 1
    with conn show ?thesis by auto
  next
    case 2
    with conn show ?thesis by (auto elim!: check_unit_ids_Inl_D)
  next
    case 3
    then show ?thesis
    proof (rule check_serial_Inl_D)
      fix port baud db par sb delay
      assume tr: "cn_transport conn = Rtu port baud db par sb delay"
        and e: "e = UnsupportedSerialSetting (cn_id conn) ''data_bits'' db ''5, 6, 7, 8'' \<and> db \<notin> {5, 6, 7, 8} \<or>
         e = UnsupportedSerialSetting (cn_id conn) ''stop_bits'' sb ''1, 2'' \<and> sb \<notin> {1, 2} \<or>
         (\<exists>first. ports port = Some first \<and> e = DuplicateSerialPort port first (cn_id conn))"
      have "defect env c (DuplicateSerialPort port first (cn_id conn))" if "ports port = Some first" for first
      proof -
        from ports_origin [OF ports that] obtain c1 where
          c1: "c1 \<in> set pre" "cn_id c1 = first" "port \<in> set (serial_ports [c1])" by auto
        then obtain us vs where "pre = us @ c1 # vs" by (meson split_list)
        then have "cf_connections c = us @ c1 # vs @ conn # post" by (simp add: split)
        moreover have "port \<in> set (serial_ports [conn])" by (simp add: serial_ports_def tr)
        ultimately show ?thesis using c1(2,3) by (simp only: defect.simps) blast
      qed
      moreover have "defect env c (UnsupportedSerialSetting (cn_id conn) ''data_bits'' db a)"
        if "db \<notin> {5, 6, 7, 8}" for a
        unfolding defect.simps using conn tr that by blast
      moreover have "defect env c (UnsupportedSerialSetting (cn_id conn) ''stop_bits'' sb a)"
        if "sb \<notin> {1, 2}" for a
        unfolding defect.simps using conn tr that by blast
      ultimately show ?thesis using e by blast
    qed
  next
    case 4
    with conn show ?thesis by (rule check_blocks_Inl_D [rotated])
  qed
qed

lemma validate_ca_cert_Inl_D:
  "validate_ca_cert env (mq_ca_cert_path (cf_mqtt c)) = Inl e \<Longrightarrow> defect env c e"
  by (auto simp: validate_ca_cert_def try_map_id_Inr_iff dest!: try_map_Inl_D
      split: sum.splits if_splits)

lemma guarded_Inl_D:
  assumes "(if a then Inl x else if b then Inl y else if g then Inl z
      else try_then r (\<lambda>_. try_then s (\<lambda>_. Inr ()))) = Inl e"
  shows "a \<and> e = x \<or> b \<and> e = y \<or> g \<and> e = z \<or> r = Inl e \<or> s = Inl e"
  using assms by (auto simp: try_then_Inl_iff split: if_splits)

lemma validate_Inl_D:
  assumes "validate env c = Inl e"
  shows "defect env c e"
proof -
  from guarded_Inl_D [OF assms [unfolded validate_def]] show ?thesis
  proof (elim disjE conjE)
    assume "2 < mq_qos (cf_mqtt c)" and e: "e = InvalidQos (mq_qos (cf_mqtt c))"
    then have "mq_qos (cf_mqtt c) \<notin> {0, 1, 2}" using u8_range_iff(3) by blast
    then show ?thesis by (simp only: e defect.simps) blast
  next
    assume "try_fold validate_connection Map.empty (cf_connections c) = Inl e"
    from try_fold_Inl_D [OF this] obtain pre conn post ports where
      "cf_connections c = pre @ conn # post" "try_fold validate_connection Map.empty pre = Inr ports"
      "validate_connection ports conn = Inl e" by blast
    then show ?thesis by (intro validate_connection_Inl_D)
  next
    assume "validate_ca_cert env (mq_ca_cert_path (cf_mqtt c)) = Inl e"
    then show ?thesis by (rule validate_ca_cert_Inl_D)
  qed (simp_all only: defect.simps simp_thms)
qed

section \<open>Properties\<close>

definition ex_env :: "unit config_env" where
  "ex_env = \<lparr>ce_read_file = (\<lambda>path. if path = ''/missing'' then Inl ''not found'' else Inr path),
     ce_read_text = (\<lambda>path. if path = ''/missing'' then Inl ''not found'' else Inr path),
     ce_parse_toml = (\<lambda>text. Inr ex_config),
     ce_parse_level = (\<lambda>l. if l = ''info'' then Some () else None),
     ce_pem_certs = (\<lambda>bytes. [Inr bytes])\<rparr>"

lemma ex_block_registers [simp]:
  "point_registers ex_voltage = {0 ..< 1}" "point_registers ex_power = {2 ..< 4}"
  "point_registers ex_temp = {0 ..< Suc (Suc 0)}"
  by (simp_all add: point_registers_def ex_voltage_def ex_power_def ex_temp_def)

lemma ex_valid_blocks: "valid_block ex_block" "valid_block ex_block2"
  by (auto simp: valid_block_def ex_block_def ex_block2_def)

lemma ex_valid_ca_cert: "path \<noteq> ''/missing'' \<Longrightarrow> valid_ca_cert ex_env path"
  by (auto simp: valid_ca_cert_def ex_env_def intro!: exI [of _ "[path]"])

lemma ex_valid: "valid_config ex_env ex_config"
  using ex_valid_blocks ex_valid_ca_cert
  by (simp add: valid_config_def valid_connection_def valid_serial_def serial_ports_def
      ex_env_def ex_config_def ex_tcp_def ex_rtu_def ex_meter_def ex_inverter_def ex_gateway_def ex_mqtt_def)

text \<open>C12: Validation accepts exactly the valid configurations: intervals not zero, a known log level, a QoS
the protocol has, a readable certificate file, and for every connection distinct unit ids, a
supported and exclusive serial line, and blocks of at most 125 registers whose points lie inside
them and do not overlap in any register. Sorting the spans and comparing neighbours is as good as
comparing all pairs.\<close>

theorem validate_accepts: "validate env config = Inr () \<longleftrightarrow> valid_config env config"
  by (rule validate_iff)

text \<open>C25: Every rejection names a defect that the configuration really has, with the connection, device,
block and points where it is.\<close>

theorem validate_rejects:
  assumes "validate env config = Inl e"
  shows "defect env config e"
  using assms by (rule validate_Inl_D)

theorem validate_rejects_witness:
  "defect ex_env (ex_config\<lparr>cf_mqtt := ex_mqtt\<lparr>mq_qos := 3\<rparr>\<rparr>) (InvalidQos 3)"
  by (rule validate_rejects) (simp add: validate_def ex_env_def ex_config_def ex_gateway_def ex_mqtt_def)

text \<open>What \<open>load\<close> returns is what the file deserialises to, and it is valid; a file that cannot be
read, does not parse or is not valid gives the corresponding error with the path.\<close>

theorem load_valid:
  assumes "load env path = Inr config"
  shows "valid_config env config \<and>
    (\<exists>text. ce_read_text env path = Inr text \<and> ce_parse_toml env text = Inr config)"
  using load_Inr_D [OF assms] by blast

theorem load_valid_witness: "load ex_env ''/etc/gw.toml'' = Inr ex_config \<and> valid_config ex_env ex_config"
proof
  have "validate ex_env ex_config = Inr ()" using ex_valid by (simp add: validate_iff)
  then show l: "load ex_env ''/etc/gw.toml'' = Inr ex_config" by (simp add: load_def ex_env_def)
  show "valid_config ex_env ex_config" using load_valid [OF l] by blast
qed

end
