(* ===== verification/Deserialize.thy ===== *)
theory Deserialize
  imports Serde Schema Validate
begin

text \<open>
  The \<open>Deserialize\<close> implementations of \<open>src/config/schema.rs\<close>: each struct as the visitor that its
  fields and their serde attributes ask for, each enum as the names of its variants, and \<open>from_str\<close>,
  which \<open>load\<close> calls. For every type there is what a value denotes (\<open>is_\<close> and the name of the type,
  field by field, without an order of entries) and how a value is written (\<open>_toml\<close>, with the fields
  at their defaults written out or left out). \<open>reader\<close> is interpreted for every type: reading
  succeeds exactly on the values that denote something, and what is written is read back.
\<close>

section \<open>Enums\<close>

definition Parity_variants :: "(string \<times> Parity) list" where
  "Parity_variants = [(''none'', ParityNone), (''even'', ParityEven), (''odd'', ParityOdd)]"

definition Function_variants :: "(string \<times> Function) list" where
  "Function_variants = [(''holding'', Holding), (''input'', Input)]"

definition WordOrder_variants :: "(string \<times> WordOrder) list" where
  "WordOrder_variants = [(''big_endian'', BigEndian), (''little_endian'', LittleEndian)]"

definition DataType_variants :: "(string \<times> DataType) list" where
  "DataType_variants = [(''u16'', U16), (''i16'', I16), (''u32'', U32), (''i32'', I32), (''f32'', F32)]"

text \<open>The variants of the tag \<open>transport\<close>.\<close>

datatype Transport_tag = TagTcp | TagRtu

definition Transport_variants :: "(string \<times> Transport_tag) list" where
  "Transport_variants = [(''tcp'', TagTcp), (''rtu'', TagRtu)]"

primrec Parity_name :: "Parity \<Rightarrow> string" where
  "Parity_name ParityNone = ''none''"
| "Parity_name ParityEven = ''even''"
| "Parity_name ParityOdd = ''odd''"

primrec Function_name :: "Function \<Rightarrow> string" where
  "Function_name Holding = ''holding''"
| "Function_name Input = ''input''"

primrec WordOrder_name :: "WordOrder \<Rightarrow> string" where
  "WordOrder_name BigEndian = ''big_endian''"
| "WordOrder_name LittleEndian = ''little_endian''"

primrec DataType_name :: "DataType \<Rightarrow> string" where
  "DataType_name U16 = ''u16''"
| "DataType_name I16 = ''i16''"
| "DataType_name U32 = ''u32''"
| "DataType_name I32 = ''i32''"
| "DataType_name F32 = ''f32''"

primrec Transport_tag_name :: "Transport_tag \<Rightarrow> string" where
  "Transport_tag_name TagTcp = ''tcp''"
| "Transport_tag_name TagRtu = ''rtu''"

abbreviation "de_Parity crate \<equiv> de_variant crate ''Parity'' Parity_variants"
abbreviation "de_Function crate \<equiv> de_variant crate ''Function'' Function_variants"
abbreviation "de_WordOrder crate \<equiv> de_variant crate ''WordOrder'' WordOrder_variants"
abbreviation "de_DataType crate \<equiv> de_variant crate ''DataType'' DataType_variants"
abbreviation "de_tag crate \<equiv> de_variant crate ''Transport'' Transport_variants"

abbreviation "is_Parity crate \<equiv> is_variant crate ''Parity'' Parity_name"
abbreviation "is_Function crate \<equiv> is_variant crate ''Function'' Function_name"
abbreviation "is_WordOrder crate \<equiv> is_variant crate ''WordOrder'' WordOrder_name"
abbreviation "is_DataType crate \<equiv> is_variant crate ''DataType'' DataType_name"
abbreviation "is_tag crate \<equiv> is_variant crate ''Transport'' Transport_tag_name"

interpretation parity: reader "de_Parity crate" "is_Parity crate" "\<lambda>x. TString (Parity_name x)"
  for crate
proof (rule variant_reader)
  show "map_of Parity_variants s = Some x \<longleftrightarrow> s = Parity_name x" for s x
    by (cases x) (auto simp: Parity_variants_def split: if_splits)
qed

interpretation func: reader "de_Function crate" "is_Function crate" "\<lambda>x. TString (Function_name x)"
  for crate
proof (rule variant_reader)
  show "map_of Function_variants s = Some x \<longleftrightarrow> s = Function_name x" for s x
    by (cases x) (auto simp: Function_variants_def split: if_splits)
qed

interpretation word_order: reader "de_WordOrder crate" "is_WordOrder crate"
    "\<lambda>x. TString (WordOrder_name x)"
  for crate
proof (rule variant_reader)
  show "map_of WordOrder_variants s = Some x \<longleftrightarrow> s = WordOrder_name x" for s x
    by (cases x) (auto simp: WordOrder_variants_def split: if_splits)
qed

interpretation data_type: reader "de_DataType crate" "is_DataType crate"
    "\<lambda>x. TString (DataType_name x)"
  for crate
proof (rule variant_reader)
  show "map_of DataType_variants s = Some x \<longleftrightarrow> s = DataType_name x" for s x
    by (cases x) (auto simp: DataType_variants_def split: if_splits)
qed

interpretation tag: reader "de_tag crate" "is_tag crate" "\<lambda>x. TString (Transport_tag_name x)"
  for crate
proof (rule variant_reader)
  show "map_of Transport_variants s = Some x \<longleftrightarrow> s = Transport_tag_name x" for s x
    by (cases x) (auto simp: Transport_variants_def split: if_splits)
qed

lemmas field_iffs =
  visit_map_Inr_iff str.visits_required str.visits_with_default truth.visits_required
  truth.visits_with_default uint.visits_required uint.visits_with_default double.visits_with_default
  parity.visits_with_default func.visits_required word_order.visits_with_default
  data_type.visits_required tag.visits_required

section \<open>Points, blocks and devices\<close>

text \<open>
  In each of the following the entries of the struct are listed as the source lists its fields; the
  constructor at the end takes them in the reverse order.
\<close>

definition PointConfig_fields :: "toml_crate \<Rightarrow> PointConfig visitor" where
  "PointConfig_fields crate =
     required ''name'' de_string (
     required ''offset'' de_uint (
     required ''data_type'' (de_DataType crate) (
     with_default ''scale'' de_f64 default_scale (
     with_default ''absolute'' de_bool False (
     required ''unit'' de_string (
     all_fields (\<lambda>point_unit absolute scale data_type offset name.
       \<lparr>pt_name = name, pt_offset = offset, pt_data_type = data_type, pt_scale = scale,
        pt_absolute = absolute, pt_unit = point_unit\<rparr>)))))))"

definition PointConfig_deserialize :: "toml_crate \<Rightarrow> toml \<Rightarrow> de_error + PointConfig" where
  "PointConfig_deserialize crate v =
     try_then (struct_entries crate ''PointConfig'' v) (visit_map (PointConfig_fields crate))"

definition is_PointConfig :: "toml_crate \<Rightarrow> toml \<Rightarrow> PointConfig \<Rightarrow> bool" where
  "is_PointConfig crate v p \<longleftrightarrow>
     (\<exists>es. struct_entries crate ''PointConfig'' v = Inr es \<and>
        entry_is es ''name'' is_string (pt_name p) \<and>
        entry_is es ''offset'' is_uint (pt_offset p) \<and>
        entry_is es ''data_type'' (is_DataType crate) (pt_data_type p) \<and>
        entry_or_default es ''scale'' is_f64 default_scale (pt_scale p) \<and>
        entry_or_default es ''absolute'' is_bool False (pt_absolute p) \<and>
        entry_is es ''unit'' is_string (pt_unit p))"

text \<open>An entry at its default is written when \<open>full\<close> asks for it.\<close>

definition entry_of :: "bool \<Rightarrow> string \<Rightarrow> 'a \<Rightarrow> ('a \<Rightarrow> toml) \<Rightarrow> 'a \<Rightarrow> entries" where
  "entry_of full key default_value written x =
     (if full \<or> x \<noteq> default_value then [(key, written x)] else [])"

lemma values_at_entry_of [simp]:
  "values_at (entry_of full key' d written x) key =
     (if key' = key then if full \<or> x \<noteq> d then [written x] else [] else [])"
  by (simp add: entry_of_def)

definition PointConfig_toml :: "bool \<Rightarrow> PointConfig \<Rightarrow> toml" where
  "PointConfig_toml full p = TTable
     ([(''name'', TString (pt_name p)),
       (''offset'', TInteger (uint (pt_offset p))),
       (''data_type'', TString (DataType_name (pt_data_type p)))] @
      entry_of full ''scale'' default_scale TFloat (pt_scale p) @
      entry_of full ''absolute'' False TBoolean (pt_absolute p) @
      [(''unit'', TString (pt_unit p))])"

lemma struct_entries_TTable [simp]: "struct_entries crate name (TTable es) = Inr es"
  by (simp add: struct_entries_def)

lemmas entries_written = str.entry_written truth.entry_written uint.entry_written
  parity.entry_written func.entry_written word_order.entry_written data_type.entry_written
  tag.entry_written str.entry_or_default_written truth.entry_or_default_written
  uint.entry_or_default_written double.entry_or_default_written parity.entry_or_default_written
  word_order.entry_or_default_written

interpretation point: reader "PointConfig_deserialize crate" "is_PointConfig crate"
    "PointConfig_toml full"
  for crate full
proof
  show "PointConfig_deserialize crate v = Inr p \<longleftrightarrow> is_PointConfig crate v p" for v p
    by (cases p) (auto simp: PointConfig_deserialize_def PointConfig_fields_def is_PointConfig_def
        try_then_Inr_iff field_iffs)
  show "is_PointConfig crate (PointConfig_toml full p) p" for p
    by (simp add: is_PointConfig_def PointConfig_toml_def entries_written)
qed

interpretation points: reader "de_vec (PointConfig_deserialize crate)"
    "is_vec (is_PointConfig crate)" "\<lambda>ps. TArray (map (PointConfig_toml full) ps)"
  for crate full
  by (rule point.vec_reader)

definition BlockConfig_fields :: "toml_crate \<Rightarrow> BlockConfig visitor" where
  "BlockConfig_fields crate =
     required ''function'' (de_Function crate) (
     required ''start'' de_uint (
     required ''count'' de_uint (
     with_default ''word_order'' (de_WordOrder crate) default_word_order (
     required ''point'' (de_vec (PointConfig_deserialize crate)) (
     all_fields (\<lambda>points word_order block_count start func.
       \<lparr>bk_function = func, bk_start = start, bk_count = block_count, bk_word_order = word_order,
        bk_points = points\<rparr>))))))"

definition BlockConfig_deserialize :: "toml_crate \<Rightarrow> toml \<Rightarrow> de_error + BlockConfig" where
  "BlockConfig_deserialize crate v =
     try_then (struct_entries crate ''BlockConfig'' v) (visit_map (BlockConfig_fields crate))"

definition is_BlockConfig :: "toml_crate \<Rightarrow> toml \<Rightarrow> BlockConfig \<Rightarrow> bool" where
  "is_BlockConfig crate v b \<longleftrightarrow>
     (\<exists>es. struct_entries crate ''BlockConfig'' v = Inr es \<and>
        entry_is es ''function'' (is_Function crate) (bk_function b) \<and>
        entry_is es ''start'' is_uint (bk_start b) \<and>
        entry_is es ''count'' is_uint (bk_count b) \<and>
        entry_or_default es ''word_order'' (is_WordOrder crate) default_word_order (bk_word_order b) \<and>
        entry_is es ''point'' (is_vec (is_PointConfig crate)) (bk_points b))"

definition BlockConfig_toml :: "bool \<Rightarrow> BlockConfig \<Rightarrow> toml" where
  "BlockConfig_toml full b = TTable
     ([(''function'', TString (Function_name (bk_function b))),
       (''start'', TInteger (uint (bk_start b))),
       (''count'', TInteger (uint (bk_count b)))] @
      entry_of full ''word_order'' default_word_order (\<lambda>x. TString (WordOrder_name x)) (bk_word_order b) @
      [(''point'', TArray (map (PointConfig_toml full) (bk_points b)))])"

interpretation block: reader "BlockConfig_deserialize crate" "is_BlockConfig crate"
    "BlockConfig_toml full"
  for crate full
proof
  show "BlockConfig_deserialize crate v = Inr b \<longleftrightarrow> is_BlockConfig crate v b" for v b
    by (cases b) (auto simp: BlockConfig_deserialize_def BlockConfig_fields_def is_BlockConfig_def
        try_then_Inr_iff field_iffs points.visits_required)
  show "is_BlockConfig crate (BlockConfig_toml full b) b" for b
    by (simp add: is_BlockConfig_def BlockConfig_toml_def entries_written
        points.entry_written [where full = full])
qed

interpretation blocks: reader "de_vec (BlockConfig_deserialize crate)"
    "is_vec (is_BlockConfig crate)" "\<lambda>bs. TArray (map (BlockConfig_toml full) bs)"
  for crate full
  by (rule block.vec_reader)

definition DeviceConfig_fields :: "toml_crate \<Rightarrow> DeviceConfig visitor" where
  "DeviceConfig_fields crate =
     required ''id'' de_string (
     required ''unit_id'' de_uint (
     required ''block'' (de_vec (BlockConfig_deserialize crate)) (
     all_fields (\<lambda>blocks unit_id device_id.
       \<lparr>dv_id = device_id, dv_unit_id = unit_id, dv_blocks = blocks\<rparr>))))"

definition DeviceConfig_deserialize :: "toml_crate \<Rightarrow> toml \<Rightarrow> de_error + DeviceConfig" where
  "DeviceConfig_deserialize crate v =
     try_then (struct_entries crate ''DeviceConfig'' v) (visit_map (DeviceConfig_fields crate))"

definition is_DeviceConfig :: "toml_crate \<Rightarrow> toml \<Rightarrow> DeviceConfig \<Rightarrow> bool" where
  "is_DeviceConfig crate v d \<longleftrightarrow>
     (\<exists>es. struct_entries crate ''DeviceConfig'' v = Inr es \<and>
        entry_is es ''id'' is_string (dv_id d) \<and>
        entry_is es ''unit_id'' is_uint (dv_unit_id d) \<and>
        entry_is es ''block'' (is_vec (is_BlockConfig crate)) (dv_blocks d))"

definition DeviceConfig_toml :: "bool \<Rightarrow> DeviceConfig \<Rightarrow> toml" where
  "DeviceConfig_toml full d = TTable
     [(''id'', TString (dv_id d)),
      (''unit_id'', TInteger (uint (dv_unit_id d))),
      (''block'', TArray (map (BlockConfig_toml full) (dv_blocks d)))]"

interpretation device: reader "DeviceConfig_deserialize crate" "is_DeviceConfig crate"
    "DeviceConfig_toml full"
  for crate full
proof
  show "DeviceConfig_deserialize crate v = Inr d \<longleftrightarrow> is_DeviceConfig crate v d" for v d
    by (cases d) (auto simp: DeviceConfig_deserialize_def DeviceConfig_fields_def is_DeviceConfig_def
        try_then_Inr_iff field_iffs blocks.visits_required)
  show "is_DeviceConfig crate (DeviceConfig_toml full d) d" for d
    by (simp add: is_DeviceConfig_def DeviceConfig_toml_def entries_written
        blocks.entry_written [where full = full])
qed

interpretation devices: reader "de_vec (DeviceConfig_deserialize crate)"
    "is_vec (is_DeviceConfig crate)" "\<lambda>ds. TArray (map (DeviceConfig_toml full) ds)"
  for crate full
  by (rule device.vec_reader)

section \<open>Connections\<close>

text \<open>
  \<open>Transport\<close> is tagged by the entry \<open>transport\<close> of the table it shares with its connection: the tag is
  read first, then the fields of its variant from the other entries.
\<close>

definition Tcp_fields :: "Transport visitor" where
  "Tcp_fields =
     required ''host'' de_string (
     required ''port'' de_uint (
     all_fields (\<lambda>port host. Tcp host port)))"

definition Rtu_fields :: "toml_crate \<Rightarrow> Transport visitor" where
  "Rtu_fields crate =
     required ''serial_port'' de_string (
     required ''baud_rate'' de_uint (
     with_default ''data_bits'' de_uint default_data_bits (
     with_default ''parity'' (de_Parity crate) default_parity (
     with_default ''stop_bits'' de_uint default_stop_bits (
     with_default ''inter_frame_delay_ms'' de_uint 0 (
     all_fields (\<lambda>inter_frame_delay_ms stop_bits parity data_bits baud_rate serial_port.
       Rtu serial_port baud_rate data_bits parity stop_bits inter_frame_delay_ms)))))))"

definition Transport_deserialize :: "toml_crate \<Rightarrow> entries \<Rightarrow> de_error + Transport" where
  "Transport_deserialize crate es =
     try_then (visit_map (required ''transport'' (de_tag crate) (all_fields (\<lambda>tag. tag))) es) (\<lambda>tag.
       case tag of
         TagTcp \<Rightarrow> visit_map Tcp_fields (other_entries [''transport''] es)
       | TagRtu \<Rightarrow> visit_map (Rtu_fields crate) (other_entries [''transport''] es))"

definition is_Transport :: "toml_crate \<Rightarrow> entries \<Rightarrow> Transport \<Rightarrow> bool" where
  "is_Transport crate es t \<longleftrightarrow>
     (case t of
        Tcp host port \<Rightarrow>
          entry_is es ''transport'' (is_tag crate) TagTcp \<and>
          entry_is es ''host'' is_string host \<and>
          entry_is es ''port'' is_uint port
      | Rtu serial_port baud_rate data_bits parity stop_bits inter_frame_delay_ms \<Rightarrow>
          entry_is es ''transport'' (is_tag crate) TagRtu \<and>
          entry_is es ''serial_port'' is_string serial_port \<and>
          entry_is es ''baud_rate'' is_uint baud_rate \<and>
          entry_or_default es ''data_bits'' is_uint default_data_bits data_bits \<and>
          entry_or_default es ''parity'' (is_Parity crate) default_parity parity \<and>
          entry_or_default es ''stop_bits'' is_uint default_stop_bits stop_bits \<and>
          entry_or_default es ''inter_frame_delay_ms'' is_uint 0 inter_frame_delay_ms)"

definition Transport_toml :: "bool \<Rightarrow> Transport \<Rightarrow> entries" where
  "Transport_toml full t =
     (case t of
        Tcp host port \<Rightarrow>
          [(''transport'', TString ''tcp''), (''host'', TString host), (''port'', TInteger (uint port))]
      | Rtu serial_port baud_rate data_bits parity stop_bits inter_frame_delay_ms \<Rightarrow>
          [(''transport'', TString ''rtu''), (''serial_port'', TString serial_port),
           (''baud_rate'', TInteger (uint baud_rate))] @
          entry_of full ''data_bits'' default_data_bits (\<lambda>w. TInteger (uint w)) data_bits @
          entry_of full ''parity'' default_parity (\<lambda>x. TString (Parity_name x)) parity @
          entry_of full ''stop_bits'' default_stop_bits (\<lambda>w. TInteger (uint w)) stop_bits @
          entry_of full ''inter_frame_delay_ms'' 0 (\<lambda>w. TInteger (uint w)) inter_frame_delay_ms)"

lemma ex_tag_iff: "(\<exists>tag. P tag) \<longleftrightarrow> P TagTcp \<or> P TagRtu"
  by (metis Transport_tag.exhaust)

lemma Transport_iff: "Transport_deserialize crate es = Inr t \<longleftrightarrow> is_Transport crate es t"
proof -
  have "Transport_deserialize crate es = Inr t \<longleftrightarrow>
      (\<exists>tag. entry_is es ''transport'' (is_tag crate) tag \<and>
         (case tag of TagTcp \<Rightarrow> visit_map Tcp_fields (other_entries [''transport''] es)
          | TagRtu \<Rightarrow> visit_map (Rtu_fields crate) (other_entries [''transport''] es)) = Inr t)"
    unfolding Transport_deserialize_def try_then_Inr_iff visit_map_Inr_iff [of "required _ _ _"]
    by (simp add: tag.visits_required)
  also have "\<dots> \<longleftrightarrow> is_Transport crate es t"
    unfolding ex_tag_iff
    by (cases t) (auto simp: is_Transport_def Tcp_fields_def Rtu_fields_def field_iffs)
  finally show ?thesis .
qed

lemma Transport_toml: "is_Transport crate (Transport_toml full t) t"
proof -
  have "is_tag crate (TString ''tcp'') TagTcp" "is_tag crate (TString ''rtu'') TagRtu"
    using tag.denotes_written [of crate TagTcp] tag.denotes_written [of crate TagRtu] by simp_all
  then show ?thesis
    by (cases t) (simp_all add: is_Transport_def Transport_toml_def entries_written
        entry_is_def [of _ "''transport''"])
qed

definition ConnectionConfig_fields :: "toml_crate \<Rightarrow> (Transport \<Rightarrow> ConnectionConfig) visitor" where
  "ConnectionConfig_fields crate =
     required ''id'' de_string (
     required ''poll_interval_secs'' de_uint (
     required ''io_timeout_ms'' de_uint (
     with_default ''reconnect_backoff_min_secs'' de_uint default_backoff_min_secs (
     with_default ''reconnect_backoff_max_secs'' de_uint default_backoff_max_secs (
     required ''device'' (de_vec (DeviceConfig_deserialize crate)) (
     all_fields (\<lambda>devices backoff_max backoff_min io_timeout_ms poll_interval_secs conn_id transport.
       \<lparr>cn_id = conn_id, cn_transport = transport, cn_poll_interval_secs = poll_interval_secs,
        cn_io_timeout_ms = io_timeout_ms, cn_reconnect_backoff_min_secs = backoff_min,
        cn_reconnect_backoff_max_secs = backoff_max, cn_devices = devices\<rparr>)))))))"

definition ConnectionConfig_deserialize :: "toml_crate \<Rightarrow> toml \<Rightarrow> de_error + ConnectionConfig" where
  "ConnectionConfig_deserialize crate v =
     try_then (struct_entries crate ''ConnectionConfig'' v) (\<lambda>es.
     try_then (visit_map (ConnectionConfig_fields crate) es) (\<lambda>make.
     try_then (Transport_deserialize crate
         (other_entries (field_names (ConnectionConfig_fields crate)) es)) (\<lambda>transport.
     Inr (make transport))))"

definition is_ConnectionConfig :: "toml_crate \<Rightarrow> toml \<Rightarrow> ConnectionConfig \<Rightarrow> bool" where
  "is_ConnectionConfig crate v c \<longleftrightarrow>
     (\<exists>es. struct_entries crate ''ConnectionConfig'' v = Inr es \<and>
        entry_is es ''id'' is_string (cn_id c) \<and>
        is_Transport crate es (cn_transport c) \<and>
        entry_is es ''poll_interval_secs'' is_uint (cn_poll_interval_secs c) \<and>
        entry_is es ''io_timeout_ms'' is_uint (cn_io_timeout_ms c) \<and>
        entry_or_default es ''reconnect_backoff_min_secs'' is_uint default_backoff_min_secs
          (cn_reconnect_backoff_min_secs c) \<and>
        entry_or_default es ''reconnect_backoff_max_secs'' is_uint default_backoff_max_secs
          (cn_reconnect_backoff_max_secs c) \<and>
        entry_is es ''device'' (is_vec (is_DeviceConfig crate)) (cn_devices c))"

definition ConnectionConfig_toml :: "bool \<Rightarrow> ConnectionConfig \<Rightarrow> toml" where
  "ConnectionConfig_toml full c = TTable
     ([(''id'', TString (cn_id c))] @
      Transport_toml full (cn_transport c) @
      [(''poll_interval_secs'', TInteger (uint (cn_poll_interval_secs c))),
       (''io_timeout_ms'', TInteger (uint (cn_io_timeout_ms c)))] @
      entry_of full ''reconnect_backoff_min_secs'' default_backoff_min_secs (\<lambda>w. TInteger (uint w))
        (cn_reconnect_backoff_min_secs c) @
      entry_of full ''reconnect_backoff_max_secs'' default_backoff_max_secs (\<lambda>w. TInteger (uint w))
        (cn_reconnect_backoff_max_secs c) @
      [(''device'', TArray (map (DeviceConfig_toml full) (cn_devices c)))])"

text \<open>The keys of a transport and those of its connection do not meet.\<close>

definition transport_keys :: "string set" where
  "transport_keys = {''transport'', ''host'', ''port'', ''serial_port'', ''baud_rate'', ''data_bits'',
     ''parity'', ''stop_bits'', ''inter_frame_delay_ms''}"

lemma Transport_toml_keys: "fst ` set (Transport_toml full t) \<subseteq> transport_keys"
  by (cases t) (auto simp: Transport_toml_def entry_of_def transport_keys_def split: if_splits)

lemma values_at_Transport_toml [simp]:
  "key \<notin> transport_keys \<Longrightarrow> values_at (Transport_toml full t) key = []"
  by (rule values_at_eq_Nil [OF Transport_toml_keys])

lemma is_Transport_values_at:
  assumes "\<And>key. key \<in> transport_keys \<Longrightarrow> values_at es key = values_at es' key"
  shows "is_Transport crate es t \<longleftrightarrow> is_Transport crate es' t"
  by (cases t) (simp_all add: is_Transport_def entry_is_def entry_or_default_def assms transport_keys_def)

lemma is_Transport_other_entries:
  "is_Transport crate (other_entries (field_names (ConnectionConfig_fields crate)) es) t \<longleftrightarrow>
   is_Transport crate es t"
  by (rule is_Transport_values_at) (auto simp: ConnectionConfig_fields_def transport_keys_def)

interpretation connection: reader "ConnectionConfig_deserialize crate" "is_ConnectionConfig crate"
    "ConnectionConfig_toml full"
  for crate full
proof
  show "ConnectionConfig_deserialize crate v = Inr c \<longleftrightarrow> is_ConnectionConfig crate v c" for v c
    unfolding ConnectionConfig_deserialize_def is_ConnectionConfig_def visit_then_iff
      try_then_Inr_iff [of "struct_entries _ _ _"] try_then_Inr_iff [of "Transport_deserialize _ _"]
      Transport_iff is_Transport_other_entries
    unfolding ConnectionConfig_fields_def
    by (cases c) (auto simp: field_iffs devices.visits_required)
  show "is_ConnectionConfig crate (ConnectionConfig_toml full c) c" for c
  proof -
    obtain es where es: "ConnectionConfig_toml full c = TTable es" by (simp add: ConnectionConfig_toml_def)
    then have "is_Transport crate es (cn_transport c) \<longleftrightarrow>
        is_Transport crate (Transport_toml full (cn_transport c)) (cn_transport c)"
      by (intro is_Transport_values_at) (auto simp: ConnectionConfig_toml_def transport_keys_def)
    with Transport_toml have t: "is_Transport crate es (cn_transport c)" by simp
    have d: "entry_is es ''device'' (is_vec (is_DeviceConfig crate)) (cn_devices c)"
      using es by (intro devices.entry_written [where full = full])
        (auto simp: ConnectionConfig_toml_def transport_keys_def)
    show ?thesis
      using es by (auto simp: is_ConnectionConfig_def ConnectionConfig_toml_def transport_keys_def
          entries_written t [unfolded ConnectionConfig_toml_def] d)
  qed
qed

section \<open>The sections of the file\<close>

definition GatewayConfig_fields :: "GatewayConfig visitor" where
  "GatewayConfig_fields =
     required ''id'' de_string (
     required ''aggregation_window_secs'' de_uint (
     required ''base_name_prefix'' de_string (
     required ''log_level'' de_string (
     with_default ''status_file_path'' de_string default_status_file_path (
     with_default ''status_debounce_secs'' de_uint default_status_debounce_secs (
     with_default ''status_heartbeat_secs'' de_uint default_status_heartbeat_secs (
     all_fields (\<lambda>status_heartbeat_secs status_debounce_secs status_file_path log_level
       base_name_prefix aggregation_window_secs gateway_id.
       \<lparr>gw_id = gateway_id, gw_aggregation_window_secs = aggregation_window_secs,
        gw_base_name_prefix = base_name_prefix, gw_log_level = log_level, gw_status_file_path =
        status_file_path, gw_status_debounce_secs = status_debounce_secs,
        gw_status_heartbeat_secs = status_heartbeat_secs\<rparr>))))))))"

definition GatewayConfig_deserialize :: "toml_crate \<Rightarrow> toml \<Rightarrow> de_error + GatewayConfig" where
  "GatewayConfig_deserialize crate v =
     try_then (struct_entries crate ''GatewayConfig'' v) (visit_map GatewayConfig_fields)"

definition is_GatewayConfig :: "toml_crate \<Rightarrow> toml \<Rightarrow> GatewayConfig \<Rightarrow> bool" where
  "is_GatewayConfig crate v g \<longleftrightarrow>
     (\<exists>es. struct_entries crate ''GatewayConfig'' v = Inr es \<and>
        entry_is es ''id'' is_string (gw_id g) \<and>
        entry_is es ''aggregation_window_secs'' is_uint (gw_aggregation_window_secs g) \<and>
        entry_is es ''base_name_prefix'' is_string (gw_base_name_prefix g) \<and>
        entry_is es ''log_level'' is_string (gw_log_level g) \<and>
        entry_or_default es ''status_file_path'' is_string default_status_file_path (gw_status_file_path g) \<and>
        entry_or_default es ''status_debounce_secs'' is_uint default_status_debounce_secs (gw_status_debounce_secs g) \<and>
        entry_or_default es ''status_heartbeat_secs'' is_uint default_status_heartbeat_secs (gw_status_heartbeat_secs g))"

definition GatewayConfig_toml :: "bool \<Rightarrow> GatewayConfig \<Rightarrow> toml" where
  "GatewayConfig_toml full g = TTable
     ([(''id'', TString (gw_id g)),
       (''aggregation_window_secs'', TInteger (uint (gw_aggregation_window_secs g))),
       (''base_name_prefix'', TString (gw_base_name_prefix g)),
       (''log_level'', TString (gw_log_level g))] @
      entry_of full ''status_file_path'' default_status_file_path TString (gw_status_file_path g) @
      entry_of full ''status_debounce_secs'' default_status_debounce_secs (\<lambda>w. TInteger (uint w)) (gw_status_debounce_secs g) @
      entry_of full ''status_heartbeat_secs'' default_status_heartbeat_secs (\<lambda>w. TInteger (uint w)) (gw_status_heartbeat_secs g))"

interpretation gateway_section: reader "GatewayConfig_deserialize crate" "is_GatewayConfig crate" "GatewayConfig_toml full"
  for crate full
proof
  show "GatewayConfig_deserialize crate v = Inr g \<longleftrightarrow> is_GatewayConfig crate v g" for v g
    by (cases g) (auto simp: GatewayConfig_deserialize_def GatewayConfig_fields_def is_GatewayConfig_def
        try_then_Inr_iff field_iffs)
  show "is_GatewayConfig crate (GatewayConfig_toml full g) g" for g
    by (simp add: is_GatewayConfig_def GatewayConfig_toml_def entries_written)
qed

definition MqttConfig_fields :: "MqttConfig visitor" where
  "MqttConfig_fields =
     required ''broker_host'' de_string (
     required ''broker_port'' de_uint (
     required ''client_id'' de_string (
     required ''tls'' de_bool (
     required ''ca_cert_path'' de_string (
     required ''username'' de_string (
     required ''password_env'' de_string (
     with_default ''qos'' de_uint default_qos (
     required ''keep_alive_secs'' de_uint (
     required ''topic_template'' de_string (
     all_fields (\<lambda>topic_template keep_alive_secs qos password_env username ca_cert_path
       tls client_id broker_port broker_host.
       \<lparr>mq_broker_host = broker_host, mq_broker_port = broker_port, mq_client_id =
        client_id, mq_tls = tls, mq_ca_cert_path = ca_cert_path, mq_username = username,
        mq_password_env = password_env, mq_qos = qos, mq_keep_alive_secs = keep_alive_secs,
        mq_topic_template = topic_template\<rparr>)))))))))))"

definition MqttConfig_deserialize :: "toml_crate \<Rightarrow> toml \<Rightarrow> de_error + MqttConfig" where
  "MqttConfig_deserialize crate v =
     try_then (struct_entries crate ''MqttConfig'' v) (visit_map MqttConfig_fields)"

definition is_MqttConfig :: "toml_crate \<Rightarrow> toml \<Rightarrow> MqttConfig \<Rightarrow> bool" where
  "is_MqttConfig crate v m \<longleftrightarrow>
     (\<exists>es. struct_entries crate ''MqttConfig'' v = Inr es \<and>
        entry_is es ''broker_host'' is_string (mq_broker_host m) \<and>
        entry_is es ''broker_port'' is_uint (mq_broker_port m) \<and>
        entry_is es ''client_id'' is_string (mq_client_id m) \<and>
        entry_is es ''tls'' is_bool (mq_tls m) \<and>
        entry_is es ''ca_cert_path'' is_string (mq_ca_cert_path m) \<and>
        entry_is es ''username'' is_string (mq_username m) \<and>
        entry_is es ''password_env'' is_string (mq_password_env m) \<and>
        entry_or_default es ''qos'' is_uint default_qos (mq_qos m) \<and>
        entry_is es ''keep_alive_secs'' is_uint (mq_keep_alive_secs m) \<and>
        entry_is es ''topic_template'' is_string (mq_topic_template m))"

definition MqttConfig_toml :: "bool \<Rightarrow> MqttConfig \<Rightarrow> toml" where
  "MqttConfig_toml full m = TTable
     ([(''broker_host'', TString (mq_broker_host m)),
       (''broker_port'', TInteger (uint (mq_broker_port m))),
       (''client_id'', TString (mq_client_id m)),
       (''tls'', TBoolean (mq_tls m)),
       (''ca_cert_path'', TString (mq_ca_cert_path m)),
       (''username'', TString (mq_username m)),
       (''password_env'', TString (mq_password_env m))] @
      entry_of full ''qos'' default_qos (\<lambda>w. TInteger (uint w)) (mq_qos m) @
      [(''keep_alive_secs'', TInteger (uint (mq_keep_alive_secs m))),
       (''topic_template'', TString (mq_topic_template m))])"

interpretation mqtt_section: reader "MqttConfig_deserialize crate" "is_MqttConfig crate" "MqttConfig_toml full"
  for crate full
proof
  show "MqttConfig_deserialize crate v = Inr m \<longleftrightarrow> is_MqttConfig crate v m" for v m
    by (cases m) (auto simp: MqttConfig_deserialize_def MqttConfig_fields_def is_MqttConfig_def
        try_then_Inr_iff field_iffs)
  show "is_MqttConfig crate (MqttConfig_toml full m) m" for m
    by (simp add: is_MqttConfig_def MqttConfig_toml_def entries_written)
qed

interpretation connections: reader "de_vec (ConnectionConfig_deserialize crate)"
    "is_vec (is_ConnectionConfig crate)" "\<lambda>cs. TArray (map (ConnectionConfig_toml full) cs)"
  for crate full
  by (rule connection.vec_reader)

definition Config_fields :: "toml_crate \<Rightarrow> Config visitor" where
  "Config_fields crate =
     required ''gateway'' (GatewayConfig_deserialize crate) (
     required ''mqtt'' (MqttConfig_deserialize crate) (
     required ''connection'' (de_vec (ConnectionConfig_deserialize crate)) (
     all_fields (\<lambda>connections mqtt gateway.
       \<lparr>cf_gateway = gateway, cf_mqtt = mqtt, cf_connections = connections\<rparr>))))"

definition Config_deserialize :: "toml_crate \<Rightarrow> toml \<Rightarrow> de_error + Config" where
  "Config_deserialize crate v =
     try_then (struct_entries crate ''Config'' v) (visit_map (Config_fields crate))"

definition is_Config :: "toml_crate \<Rightarrow> toml \<Rightarrow> Config \<Rightarrow> bool" where
  "is_Config crate v c \<longleftrightarrow>
     (\<exists>es. struct_entries crate ''Config'' v = Inr es \<and>
        entry_is es ''gateway'' (is_GatewayConfig crate) (cf_gateway c) \<and>
        entry_is es ''mqtt'' (is_MqttConfig crate) (cf_mqtt c) \<and>
        entry_is es ''connection'' (is_vec (is_ConnectionConfig crate)) (cf_connections c))"

definition Config_toml :: "bool \<Rightarrow> Config \<Rightarrow> toml" where
  "Config_toml full c = TTable
     [(''gateway'', GatewayConfig_toml full (cf_gateway c)),
      (''mqtt'', MqttConfig_toml full (cf_mqtt c)),
      (''connection'', TArray (map (ConnectionConfig_toml full) (cf_connections c)))]"

interpretation config: reader "Config_deserialize crate" "is_Config crate" "Config_toml full"
  for crate full
proof
  show "Config_deserialize crate v = Inr c \<longleftrightarrow> is_Config crate v c" for v c
    by (cases c) (auto simp: Config_deserialize_def Config_fields_def is_Config_def
        try_then_Inr_iff field_iffs gateway_section.visits_required mqtt_section.visits_required
        connections.visits_required)
  show "is_Config crate (Config_toml full c) c" for c
    by (simp add: is_Config_def Config_toml_def gateway_section.entry_written [where full = full]
        mqtt_section.entry_written [where full = full] connections.entry_written [where full = full])
qed

section \<open>From the text of the file\<close>

definition from_str :: "toml_crate \<Rightarrow> (toml \<Rightarrow> de_error + 'a) \<Rightarrow> string \<Rightarrow> string + 'a" where
  "from_str crate de contents =
     (case tc_parse crate contents of
        Inl e \<Rightarrow> Inl e
      | Inr es \<Rightarrow> (case de (TTable es) of Inl e \<Rightarrow> Inl (tc_message crate e) | Inr x \<Rightarrow> Inr x))"

lemma from_str_Inr_iff:
  "from_str crate de contents = Inr x \<longleftrightarrow>
     (\<exists>es. tc_parse crate contents = Inr es \<and> de (TTable es) = Inr x)"
  by (auto simp: from_str_def split: sum.splits)

text \<open>What \<open>load\<close> finds in its environment: the parser of the source.\<close>

definition with_toml :: "toml_crate \<Rightarrow> 'level config_env \<Rightarrow> 'level config_env" where
  "with_toml crate env = env\<lparr>ce_parse_toml := from_str crate (Config_deserialize crate)\<rparr>"

lemma valid_config_with_toml [simp]: "valid_config (with_toml crate env) c = valid_config env c"
  by (simp add: valid_config_def valid_ca_cert_def with_toml_def)

lemma load_Inr_iff:
  "load env path = Inr c \<longleftrightarrow>
     (\<exists>contents. ce_read_text env path = Inr contents \<and> ce_parse_toml env contents = Inr c \<and>
        valid_config env c)"
  using validate_iff [of env c] by (auto simp: load_def split: sum.splits)

lemma load_Inl_iffs:
  "load env path = Inl (ReadError p e) \<longleftrightarrow> p = path \<and> ce_read_text env path = Inl e"
  "(\<exists>e. load env path = Inl (ParseError p e)) \<longleftrightarrow>
     p = path \<and> (\<exists>contents. ce_read_text env path = Inr contents \<and>
       \<not> (\<exists>c. ce_parse_toml env contents = Inr c))"
  "(\<exists>e. load env path = Inl (ValidationErr e)) \<longleftrightarrow>
     (\<exists>contents c. ce_read_text env path = Inr contents \<and> ce_parse_toml env contents = Inr c \<and>
        \<not> valid_config env c)"
proof -
  have "\<not> valid_config env c \<longleftrightarrow> (\<exists>e. validate env c = Inl e)" for c
    using validate_iff [of env c "()"] by (cases "validate env c") auto
  then show "(\<exists>e. load env path = Inl (ValidationErr e)) \<longleftrightarrow>
     (\<exists>contents c. ce_read_text env path = Inr contents \<and> ce_parse_toml env contents = Inr c \<and>
        \<not> valid_config env c)"
    by (auto simp: load_def split: sum.splits)
qed (auto simp: load_def split: sum.splits)

section \<open>What holds of the readers\<close>

text \<open>C13: A document deserialises to a configuration exactly when it denotes it: every struct is a
table in which each field without a default has exactly one entry, each field with a default at most
one, the value of an entry has the type of its field (an integer in the range of its width, a variant
by its name), a field without an entry is at its default, and a transport is read from the table of
its connection by its tag. The order of the entries and entries of other names do not matter.\<close>

theorem config_denotation: "Config_deserialize crate v = Inr c \<longleftrightarrow> is_Config crate v c"
  by (rule config.de_iff)

text \<open>C18: Every configuration can be written as a document that deserialises to it, whether the fields
that are at their defaults are written out or left out.\<close>

theorem config_roundtrip: "Config_deserialize crate (Config_toml full c) = Inr c"
  by (rule config.reads_written)

text \<open>C29: What \<open>load\<close> does with a file is decided by its document: a configuration is returned exactly when
the file can be read, its text parses as TOML, the document denotes the configuration and the
configuration is valid. A file that cannot be read, a text that is no TOML or denotes nothing, and a
configuration that is not valid give the three errors, each in exactly its case.\<close>

theorem load_reads_file:
  "(load (with_toml crate env) path = Inr c \<longleftrightarrow>
     (\<exists>contents es. ce_read_text env path = Inr contents \<and> tc_parse crate contents = Inr es \<and>
        is_Config crate (TTable es) c \<and> valid_config env c)) \<and>
   (load (with_toml crate env) path = Inl (ReadError p e) \<longleftrightarrow>
      p = path \<and> ce_read_text env path = Inl e) \<and>
   ((\<exists>e. load (with_toml crate env) path = Inl (ParseError p e)) \<longleftrightarrow>
      p = path \<and> (\<exists>contents. ce_read_text env path = Inr contents \<and>
        \<not> (\<exists>es c. tc_parse crate contents = Inr es \<and> is_Config crate (TTable es) c))) \<and>
   ((\<exists>e. load (with_toml crate env) path = Inl (ValidationErr e)) \<longleftrightarrow>
      (\<exists>contents es c. ce_read_text env path = Inr contents \<and> tc_parse crate contents = Inr es \<and>
         is_Config crate (TTable es) c \<and> \<not> valid_config env c))"
proof -
  have read: "ce_read_text (with_toml crate env) = ce_read_text env"
    and parse: "ce_parse_toml (with_toml crate env) = from_str crate (Config_deserialize crate)"
    by (simp_all add: with_toml_def)
  have parsed: "ce_parse_toml (with_toml crate env) contents = Inr c \<longleftrightarrow>
      (\<exists>es. tc_parse crate contents = Inr es \<and> is_Config crate (TTable es) c)" for contents c
    by (simp add: parse from_str_Inr_iff config.de_iff)
  show ?thesis
    unfolding load_Inr_iff load_Inl_iffs read parsed valid_config_with_toml by blast
qed

text \<open>Entries that are not of its variant do not disturb a transport: serial settings on TCP.\<close>

theorem tcp_ignores_serial_settings:
  assumes "Transport_deserialize crate es = Inr (Tcp host port)"
    and "fst ` set extra \<inter> {''transport'', ''host'', ''port''} = {}"
  shows "Transport_deserialize crate (es @ extra) = Inr (Tcp host port)"
proof -
  have "values_at extra ''transport'' = []" "values_at extra ''host'' = []" "values_at extra ''port'' = []"
    using assms(2) by (auto intro!: values_at_eq_Nil [OF subset_refl])
  with assms(1) show ?thesis by (simp add: Transport_iff is_Transport_def entry_is_def)
qed

end
