(* ===== verification/Decode.thy ===== *)
theory Decode
  imports Validate
begin

unbundle bit_operations_syntax

text \<open>
  \<open>src/modbus/decode.rs\<close>: from the registers of one block to named values. Indexing past the end of
  the response is a panic (\<open>None\<close>). The lemmas say when that happens, that a 32-bit value survives
  the split into two registers in either word order, and that a decoded value is the scaled
  register content rounded once.
\<close>

section \<open>The decoder\<close>

definition combine_u32 :: "u16 list \<Rightarrow> nat \<Rightarrow> WordOrder \<Rightarrow> u32 option" where
  "combine_u32 words idx word_order =
     Option.bind
       (case word_order of
          BigEndian \<Rightarrow>
            Option.bind (nth_opt words idx) (\<lambda>hi.
            Option.bind (nth_opt words (idx + 1)) (\<lambda>lo. Some (hi, lo)))
        | LittleEndian \<Rightarrow>
            Option.bind (nth_opt words (idx + 1)) (\<lambda>hi.
            Option.bind (nth_opt words idx) (\<lambda>lo. Some (hi, lo))))
       (\<lambda>(hi, lo). Some (push_bit 16 (ucast hi) OR ucast lo))"

definition extract_raw :: "u16 list \<Rightarrow> u16 \<Rightarrow> DataType \<Rightarrow> WordOrder \<Rightarrow> f64 option" where
  "extract_raw words offset data_type word_order =
     (let idx = unat offset in
      case data_type of
        U16 \<Rightarrow> map_option (\<lambda>w. f64_of_int (uint w)) (nth_opt words idx)
      | I16 \<Rightarrow> map_option (\<lambda>w. f64_of_int (sint w)) (nth_opt words idx)
      | U32 \<Rightarrow> map_option (\<lambda>w. f64_of_int (uint w)) (combine_u32 words idx word_order)
      | I32 \<Rightarrow> map_option (\<lambda>w. f64_of_int (sint w)) (combine_u32 words idx word_order)
      | F32 \<Rightarrow> map_option f64_of_f32_bits (combine_u32 words idx word_order))"

definition decode_point :: "BlockConfig \<Rightarrow> u16 list \<Rightarrow> PointConfig \<Rightarrow> (string \<times> f64) option" where
  "decode_point block words p =
     Option.bind (extract_raw words (pt_offset p) (pt_data_type p) (bk_word_order block)) (\<lambda>raw.
       let value = f64_mul raw (pt_scale p);
           value = (if pt_absolute p then f64_abs value else value)
       in Some (pt_name p, value))"

definition decode :: "BlockConfig \<Rightarrow> u16 list \<Rightarrow> (string \<times> f64) list option" where
  "decode block words = map_opt (decode_point block words) (bk_points block)"

section \<open>When it panics\<close>

lemma combine_u32_None_iff: "combine_u32 words idx wo = None \<longleftrightarrow> length words \<le> idx + 1"
  by (cases wo) (auto simp: combine_u32_def nth_opt_def)

lemma extract_raw_None_iff:
  "extract_raw words off t wo = None \<longleftrightarrow> length words < unat off + unat (word_count t)"
  by (cases t) (auto simp: extract_raw_def Let_def nth_opt_def combine_u32_None_iff)

lemma decode_point_None_iff:
  "decode_point b words p = None \<longleftrightarrow>
     length words < unat (pt_offset p) + unat (word_count (pt_data_type p))"
  by (auto simp: decode_point_def Let_def bind_eq_None_conv extract_raw_None_iff)

lemma decode_point_fst: "decode_point b words p = Some x \<Longrightarrow> fst x = pt_name p"
  by (auto simp: decode_point_def Let_def bind_eq_Some_conv)

lemma decode_None_iff:
  "decode b words = None \<longleftrightarrow>
     (\<exists>p \<in> set (bk_points b). length words < unat (pt_offset p) + unat (word_count (pt_data_type p)))"
  by (simp add: decode_def map_opt_None_iff decode_point_None_iff)

lemma decode_names:
  "decode b words = Some vs \<Longrightarrow> map fst vs = map pt_name (bk_points b)"
  unfolding decode_def by (erule map_opt_map_eq) (rule decode_point_fst)

text \<open>A block that passed validation decodes every response of the requested length.\<close>

lemma valid_block_decodes:
  assumes "valid_block b" and "unat (bk_count b) \<le> length words"
  shows "decode b words \<noteq> None"
  using assms by (auto simp: decode_None_iff valid_block_def point_registers_subset_iff not_less)

section \<open>Word order\<close>

lemma combine_words_value:
  "(push_bit 16 (ucast hi) OR ucast lo :: u32) = word_of_nat (unat (hi :: u16) * 2 ^ 16 + unat (lo :: u16))"
proof -
  have "(push_bit 16 (ucast hi) OR ucast lo :: u32) = push_bit 16 (ucast hi) + ucast lo"
    by (rule disjunctive_add [symmetric]) (auto simp: bit_push_bit_iff bit_ucast_iff dest: bit_imp_le_length)
  also have "\<dots> = word_of_nat (unat hi * 2 ^ 16 + unat lo)"
    by (simp add: push_bit_eq_mult)
  finally show ?thesis .
qed

text \<open>How a device puts a 32-bit value into two consecutive registers.\<close>

definition split_u32 :: "WordOrder \<Rightarrow> u32 \<Rightarrow> u16 list" where
  "split_u32 wo v =
     (let hi = ucast (drop_bit 16 v); lo = ucast v
      in case wo of BigEndian \<Rightarrow> [hi, lo] | LittleEndian \<Rightarrow> [lo, hi])"

lemma join_halves: "(push_bit 16 (ucast (ucast (drop_bit 16 v) :: u16)) OR ucast (ucast v :: u16) :: u32) = v"
  by (rule bit_eqI)
    (auto simp: bit_or_iff bit_push_bit_iff bit_ucast_iff bit_drop_bit_eq dest: bit_imp_le_length)

lemma combine_split_u32:
  "combine_u32 (pre @ split_u32 wo v @ post) (length pre) wo = Some v"
  by (cases wo) (simp_all add: combine_u32_def split_u32_def nth_opt_def Let_def nth_append join_halves)

lemma combine_u32_value:
  assumes "idx + 1 < length words"
  shows "map_option unat (combine_u32 words idx wo) =
    Some (case wo of BigEndian \<Rightarrow> unat (words ! idx) * 2 ^ 16 + unat (words ! (idx + 1))
                   | LittleEndian \<Rightarrow> unat (words ! (idx + 1)) * 2 ^ 16 + unat (words ! idx))"
proof -
  have "unat (word_of_nat (unat hi * 2 ^ 16 + unat lo) :: u32) = unat hi * 2 ^ 16 + unat lo" for hi lo :: u16
    using unat_u16_less [of hi] unat_u16_less [of lo]
    by (intro unat_of_nat_u32) simp
  then show ?thesis
    using assms by (cases wo) (simp_all add: combine_u32_def panic_free combine_words_value)
qed

section \<open>Values\<close>

text \<open>
  What the registers of a point mean, over the reals and without machine integers: two's complement
  for the signed types, \<open>hi * 2 ^ 16 + lo\<close> for two registers, the IEEE 754 single for \<open>F32\<close>.
\<close>

definition twos_complement :: "nat \<Rightarrow> nat \<Rightarrow> int" where
  "twos_complement w n = (if 2 * n < 2 ^ w then int n else int n - 2 ^ w)"

definition register_pair :: "WordOrder \<Rightarrow> u16 list \<Rightarrow> nat \<Rightarrow> nat" where
  "register_pair wo words i =
     (case wo of BigEndian \<Rightarrow> unat (words ! i) * 2 ^ 16 + unat (words ! (i + 1))
               | LittleEndian \<Rightarrow> unat (words ! (i + 1)) * 2 ^ 16 + unat (words ! i))"

definition register_real :: "WordOrder \<Rightarrow> u16 list \<Rightarrow> nat \<Rightarrow> DataType \<Rightarrow> real" where
  "register_real wo words i t =
     (case t of
        U16 \<Rightarrow> real (unat (words ! i))
      | I16 \<Rightarrow> real_of_int (twos_complement 16 (unat (words ! i)))
      | U32 \<Rightarrow> real (register_pair wo words i)
      | I32 \<Rightarrow> real_of_int (twos_complement 32 (register_pair wo words i))
      | F32 \<Rightarrow> f32_bits_val (word_of_nat (register_pair wo words i)))"

text \<open>The registers of an \<open>F32\<close> point hold a number, not an infinity or a NaN.\<close>

definition register_number :: "WordOrder \<Rightarrow> u16 list \<Rightarrow> nat \<Rightarrow> DataType \<Rightarrow> bool" where
  "register_number wo words i t \<longleftrightarrow>
     (t = F32 \<longrightarrow> unat (drop_bit 23 (word_of_nat (register_pair wo words i) :: u32)) mod 256 \<noteq> 255)"

lemma twos_complement_mod:
  assumes "n < 2 ^ Suc k"
  shows "(int n + 2 ^ k) mod 2 ^ Suc k - 2 ^ k = twos_complement (Suc k) n"
proof (cases "n < 2 ^ k")
  case True
  then have "int n < 2 ^ k" by (simp flip: of_nat_less_iff)
  with True show ?thesis by (simp add: twos_complement_def)
next
  case False
  have "int n < int (2 ^ Suc k)" "int (2 ^ k) \<le> int n"
    using assms False by (simp_all only: of_nat_less_iff of_nat_le_iff)
  then have n: "int n < 2 ^ Suc k" "2 ^ k \<le> int n" by simp_all
  have "(int n + 2 ^ k) mod 2 ^ Suc k = ((int n - 2 ^ k) + 2 ^ Suc k) mod 2 ^ Suc k"
    by (simp add: algebra_simps)
  also have "\<dots> = int n - 2 ^ k" using n by (simp only: mod_add_self2) simp
  finally show ?thesis using False by (simp add: twos_complement_def)
qed

lemma sint_twos_complement: "sint (w :: 'a :: len word) = twos_complement LENGTH('a) (unat w)"
proof -
  obtain k where k: "LENGTH('a) = Suc k" by (metis len_gt_0 gr0_conv_Suc)
  have "sint w = (uint w + 2 ^ k) mod 2 ^ Suc k - 2 ^ k"
    using int_word_sint [of "uint w", where ?'a = 'a] by (simp only: word_of_int_uint k diff_Suc_1)
  also have "\<dots> = (int (unat w) + 2 ^ k) mod 2 ^ Suc k - 2 ^ k" unfolding uint_nat ..
  also have "\<dots> = twos_complement LENGTH('a) (unat w)"
    unfolding k by (rule twos_complement_mod) (metis k unsigned_less)
  finally show ?thesis .
qed

lemma register_pair_less: "register_pair wo words i < 2 ^ 32"
proof -
  have "unat (hi :: u16) * 2 ^ 16 + unat (lo :: u16) < 2 ^ 32" for hi lo
    using unat_u16_less [of hi] unat_u16_less [of lo] by simp
  then show ?thesis by (cases wo) (simp_all add: register_pair_def)
qed

lemma twos_complement_bound:
  assumes "n < 2 ^ w"
  shows "\<bar>twos_complement w n\<bar> \<le> 2 ^ w"
proof -
  have "int n < int (2 ^ w)" using assms by (simp only: of_nat_less_iff)
  then show ?thesis by (simp add: twos_complement_def)
qed

lemma combine_u32_pair:
  assumes "idx + 1 < length words"
  shows "combine_u32 words idx wo = Some (word_of_nat (register_pair wo words idx))"
  using assms by (cases wo) (simp_all add: combine_u32_def panic_free combine_words_value register_pair_def)

text \<open>The integer types are read as the exact number they denote.\<close>

definition register_int :: "WordOrder \<Rightarrow> u16 list \<Rightarrow> nat \<Rightarrow> DataType \<Rightarrow> int" where
  "register_int wo words i t =
     (case t of
        U16 \<Rightarrow> int (unat (words ! i))
      | I16 \<Rightarrow> twos_complement 16 (unat (words ! i))
      | U32 \<Rightarrow> int (register_pair wo words i)
      | I32 \<Rightarrow> twos_complement 32 (register_pair wo words i)
      | F32 \<Rightarrow> 0)"

lemma register_int_bound: "\<bar>register_int wo words i t\<bar> \<le> 2 ^ 32"
proof -
  have "\<bar>twos_complement 16 (unat (w :: u16))\<bar> \<le> 2 ^ 32" for w
    using twos_complement_bound [OF unat_u16_less, of w] by simp
  moreover have "\<bar>int (unat (w :: u16))\<bar> \<le> 2 ^ 32" for w
  proof -
    have "int (unat w) < int (2 ^ 16)" using unat_u16_less [of w] by (simp only: of_nat_less_iff)
    then show ?thesis by simp
  qed
  moreover have "\<bar>int (register_pair wo words i)\<bar> \<le> 2 ^ 32"
    using register_pair_less [of wo words i] by simp
  ultimately show ?thesis
    using twos_complement_bound [OF register_pair_less, of wo words i]
    by (cases t; simp only: register_int_def DataType.case abs_0)
qed

lemma extract_raw_int:
  assumes "t \<noteq> F32" and "unat off + unat (word_count t) \<le> length words"
  shows "extract_raw words off t wo = Some (f64_of_int (register_int wo words (unat off) t))"
  using assms
  by (cases t) (simp_all add: extract_raw_def Let_def panic_free combine_u32_pair register_int_def
      sint_twos_complement unat_of_nat_u32 uint_of_nat_u32 register_pair_less [simplified])

lemma extract_raw_real:
  assumes "unat off + unat (word_count t) \<le> length words"
    and "register_number wo words (unat off) t"
  obtains r where "extract_raw words off t wo = Some r" "f64_finite r" "f64_wf r"
    "f64_val r = register_real wo words (unat off) t"
proof (cases "t = F32")
  case True
  let ?w = "word_of_nat (register_pair wo words (unat off)) :: u32"
  have "extract_raw words off t wo = Some (f64_of_f32_bits ?w)"
    using assms True by (simp add: extract_raw_def Let_def combine_u32_pair)
  moreover have "f64_finite (f64_of_f32_bits ?w)" "f64_val (f64_of_f32_bits ?w) = f32_bits_val ?w"
    using assms(2) True by (auto simp: register_number_def intro: f64_of_f32_bits_exact)
  ultimately show thesis
    using that True f64_of_f32_bits_wf by (simp add: register_real_def)
next
  case False
  let ?i = "register_int wo words (unat off) t"
  have b: "\<bar>?i\<bar> \<le> 2 ^ 53" using register_int_bound [of wo words "unat off" t] by simp
  have "real_of_int ?i = register_real wo words (unat off) t"
    using False by (cases t) (simp_all add: register_int_def register_real_def)
  with that [OF extract_raw_int [OF False assms(1)]] f64_of_int [OF b] show thesis by simp
qed

text \<open>
  The exact value of a point: register content times scale, or its magnitude. The decoder returns
  the double nearest to it; with scale 1 an integer point is returned exactly.
\<close>

definition exact_value :: "BlockConfig \<Rightarrow> u16 list \<Rightarrow> PointConfig \<Rightarrow> real" where
  "exact_value b words p =
     (let x = register_real (bk_word_order b) words (unat (pt_offset p)) (pt_data_type p)
              * f64_val (pt_scale p)
      in if pt_absolute p then \<bar>x\<bar> else x)"

lemma nearest_magnitude:
  fixes m x y :: real
  assumes "\<bar>m - x\<bar> \<le> \<bar>y - x\<bar>" and "\<bar>m - x\<bar> \<le> \<bar>- y - x\<bar>"
  shows "\<bar>\<bar>m\<bar> - \<bar>x\<bar>\<bar> \<le> \<bar>y - \<bar>x\<bar>\<bar>"
  using assms by (cases "0 \<le> x") linarith+

lemma f64_neg_exists: "f64_wf y \<Longrightarrow> f64_finite y \<Longrightarrow> \<exists>z. f64_wf z \<and> f64_finite z \<and> f64_val z = - f64_val y"
  by (cases y) (auto intro!: exI [of _ "F64_Fin (\<not> s) m e" for s m e])

lemma decode_point_nearest:
  assumes len: "unat (pt_offset p) + unat (word_count (pt_data_type p)) \<le> length words"
    and num: "register_number (bk_word_order b) words (unat (pt_offset p)) (pt_data_type p)"
    and scale: "f64_finite (pt_scale p)"
  shows "\<exists>v. decode_point b words p = Some (pt_name p, v) \<and> f64_wf v \<and>
    (\<bar>exact_value b words p\<bar> < 2 ^ 1023 \<longrightarrow> f64_finite v) \<and>
    (f64_finite v \<longrightarrow> (\<forall>y. f64_wf y \<longrightarrow> f64_finite y \<longrightarrow>
       \<bar>f64_val v - exact_value b words p\<bar> \<le> \<bar>f64_val y - exact_value b words p\<bar>))"
proof -
  let ?reg = "register_real (bk_word_order b) words (unat (pt_offset p)) (pt_data_type p)"
  from extract_raw_real [OF len num] obtain r where
    r: "extract_raw words (pt_offset p) (pt_data_type p) (bk_word_order b) = Some r"
      "f64_finite r" "f64_val r = ?reg" by blast
  let ?m = "f64_mul r (pt_scale p)" and ?x = "?reg * f64_val (pt_scale p)"
  define v where "v = (if pt_absolute p then f64_abs ?m else ?m)"
  have dec: "decode_point b words p = Some (pt_name p, v)"
    by (simp add: decode_point_def r Let_def v_def)
  have near: "\<bar>f64_val ?m - ?x\<bar> \<le> \<bar>f64_val y - ?x\<bar>"
    if "f64_finite ?m" "f64_wf y" "f64_finite y" for y
    using f64_mul_nearest [OF r(2) scale that] by (simp add: r(3))
  have "\<bar>f64_val v - exact_value b words p\<bar> \<le> \<bar>f64_val y - exact_value b words p\<bar>"
    if v: "f64_finite v" and y: "f64_wf y" "f64_finite y" for y
  proof (cases "pt_absolute p")
    case False
    with v y near [of y] show ?thesis by (simp add: v_def exact_value_def)
  next
    case True
    then have fin: "f64_finite ?m" using v by (cases ?m) (auto simp: v_def)
    from f64_neg_exists [OF y] obtain z where z: "f64_wf z" "f64_finite z" "f64_val z = - f64_val y" by blast
    have "\<bar>\<bar>f64_val ?m\<bar> - \<bar>?x\<bar>\<bar> \<le> \<bar>f64_val y - \<bar>?x\<bar>\<bar>"
      using near [OF fin y] near [OF fin z(1,2)] unfolding z(3) by (rule nearest_magnitude)
    with True show ?thesis by (simp add: v_def exact_value_def f64_abs_val)
  qed
  moreover have "\<bar>exact_value b words p\<bar> = \<bar>f64_val r * f64_val (pt_scale p)\<bar>"
    by (simp add: exact_value_def r(3) Let_def)
  then have "\<bar>exact_value b words p\<bar> < 2 ^ 1023 \<Longrightarrow> f64_finite v"
    using f64_mul_finite [OF r(2) scale] by (cases ?m) (auto simp: v_def)
  moreover have "f64_wf v" by (simp add: v_def f64_abs_wf f64_mul_wf)
  ultimately show ?thesis using dec by blast
qed

section \<open>Properties\<close>

text \<open>Decoding panics exactly when the response is too short for one of the block's points; otherwise
it yields one value for each point, under its name and in the order of the configuration.\<close>

theorem decode_panics_iff_short:
  "(decode b words = None \<longleftrightarrow>
     (\<exists>p \<in> set (bk_points b). length words < unat (pt_offset p) + unat (word_count (pt_data_type p)))) \<and>
   (case decode b words of None \<Rightarrow> True | Some vs \<Rightarrow> map fst vs = map pt_name (bk_points b))"
  using decode_names [of b words] by (simp add: decode_None_iff split: option.split)

text \<open>C14: The value of a point is the double nearest to the exact product of register content (two's
complement, high word first or last, IEEE single) and scale, or of its magnitude: one rounding and
no other error, and an infinity only for a product of at least \<open>2 ^ 1023\<close>.\<close>

theorem decoded_value_nearest:
  assumes "unat (pt_offset p) + unat (word_count (pt_data_type p)) \<le> length words"
    and "register_number (bk_word_order b) words (unat (pt_offset p)) (pt_data_type p)"
    and "f64_finite (pt_scale p)"
  shows "\<exists>v. decode_point b words p = Some (pt_name p, v) \<and> f64_wf v \<and>
    (\<bar>exact_value b words p\<bar> < 2 ^ 1023 \<longrightarrow> f64_finite v) \<and>
    (f64_finite v \<longrightarrow> (\<forall>y. f64_wf y \<longrightarrow> f64_finite y \<longrightarrow>
       \<bar>f64_val v - exact_value b words p\<bar> \<le> \<bar>f64_val y - exact_value b words p\<bar>))"
  using assms by (rule decode_point_nearest)

theorem decoded_value_nearest_witness:
  "\<exists>v. decode_point ex_block [230, 0, 0xFFFF, 0xFFF6] ex_power = Some (''power'', v) \<and> f64_wf v"
proof -
  have "\<exists>v. decode_point ex_block [230, 0, 0xFFFF, 0xFFF6] ex_power = Some (pt_name ex_power, v) \<and> f64_wf v \<and>
    (\<bar>exact_value ex_block [230, 0, 0xFFFF, 0xFFF6] ex_power\<bar> < 2 ^ 1023 \<longrightarrow> f64_finite v) \<and>
    (f64_finite v \<longrightarrow> (\<forall>y. f64_wf y \<longrightarrow> f64_finite y \<longrightarrow>
       \<bar>f64_val v - exact_value ex_block [230, 0, 0xFFFF, 0xFFF6] ex_power\<bar>
         \<le> \<bar>f64_val y - exact_value ex_block [230, 0, 0xFFFF, 0xFFF6] ex_power\<bar>))"
    by (rule decoded_value_nearest) (simp_all add: ex_power_def register_number_def f64_one_def)
  then show ?thesis by (auto simp: ex_power_def)
qed

end
