(* ===== verification/Hash_Map.thy ===== *)
theory Hash_Map
  imports Gw_Prelude "HOL-Library.AList"
begin

text \<open>
  \<open>std::collections::HashMap\<close> as the gateway uses it: the interface as a locale, what its clients
  need proved once over the interface, and the model of the container the components compute with,
  an association list without duplicate keys in the order the map happens to iterate in. The
  iteration order of a hash map is unspecified, so no lemma here fixes it: results that depend on
  it are stated for every order.
\<close>

section \<open>The interface\<close>

locale hash_map =
  fixes empty :: "'m"
    and get :: "'m \<Rightarrow> 'k \<Rightarrow> 'v option"
    and insert :: "'k \<Rightarrow> 'v \<Rightarrow> 'm \<Rightarrow> 'm"
    and modify :: "'k \<Rightarrow> ('v \<Rightarrow> 'v) \<Rightarrow> 'm \<Rightarrow> 'm"
    and entries :: "'m \<Rightarrow> ('k \<times> 'v) list"
    and ok :: "'m \<Rightarrow> bool"
  assumes get_empty: "get empty k = None"
    and get_insert: "ok m \<Longrightarrow> get (insert k v m) k' = (if k' = k then Some v else get m k')"
    and get_modify: "ok m \<Longrightarrow> get (modify k f m) k' = (if k' = k then map_option f (get m k) else get m k')"
    and entries_distinct: "ok m \<Longrightarrow> distinct (map fst (entries m))"
    and entries_get: "ok m \<Longrightarrow> (k, v) \<in> set (entries m) \<longleftrightarrow> get m k = Some v"
    and ok_empty: "ok empty"
    and ok_insert: "ok m \<Longrightarrow> ok (insert k v m)"
    and ok_modify: "ok m \<Longrightarrow> ok (modify k f m)"
begin

text \<open>\<open>for (k, v) in kvs { m.insert(k, v); }\<close>: the last pair with a key wins.\<close>

lemma ok_insert_all: "ok m \<Longrightarrow> ok (foldl (\<lambda>m (k, v). insert k v m) m kvs)"
  by (induction kvs arbitrary: m) (auto simp: ok_insert)

lemma get_insert_all:
  "ok m \<Longrightarrow> get (foldl (\<lambda>m (k, v). insert k v m) m kvs) k =
     (case map_of (rev kvs) k of Some v \<Rightarrow> Some v | None \<Rightarrow> get m k)"
proof (induction kvs arbitrary: m)
  case (Cons kv kvs)
  then show ?case
    by (cases kv) (auto simp: ok_insert get_insert map_add_def split: option.splits)
qed simp

lemma get_insert_all_empty:
  "get (foldl (\<lambda>m (k, v). insert k v m) empty kvs) k = map_of (rev kvs) k"
  by (simp add: get_insert_all [OF ok_empty] get_empty split: option.splits)

text \<open>\<open>m.entry(k).or_insert(d)\<close> followed by an update of the entry in place.\<close>

lemma get_entry:
  assumes "ok m"
  shows "get (modify k f (if get m k = None then insert k d m else m)) k' =
    (if k' = k then Some (f (case get m k of None \<Rightarrow> d | Some v \<Rightarrow> v)) else get m k')"
  using assms by (auto simp: get_modify get_insert ok_insert split: option.splits)

lemma ok_entry: "ok m \<Longrightarrow> ok (modify k f (if get m k = None then insert k d m else m))"
  by (simp add: ok_insert ok_modify)

end

section \<open>The model of the container\<close>

type_synonym ('k, 'v) hashmap = "('k \<times> 'v) list"

definition hm_ok :: "('k, 'v) hashmap \<Rightarrow> bool" where
  "hm_ok m \<longleftrightarrow> distinct (map fst m)"

definition hm_get :: "('k, 'v) hashmap \<Rightarrow> 'k \<Rightarrow> 'v option" where
  "hm_get m k = map_of m k"

definition hm_insert :: "'k \<Rightarrow> 'v \<Rightarrow> ('k, 'v) hashmap \<Rightarrow> ('k, 'v) hashmap" where
  "hm_insert k v m = AList.update k v m"

definition hm_modify :: "'k \<Rightarrow> ('v \<Rightarrow> 'v) \<Rightarrow> ('k, 'v) hashmap \<Rightarrow> ('k, 'v) hashmap" where
  "hm_modify k f m = AList.map_entry k f m"

text \<open>\<open>m.entry(k).or_insert(d)\<close>, then the closure on the value behind the reference.\<close>

definition hm_entry :: "'k \<Rightarrow> 'v \<Rightarrow> ('v \<Rightarrow> 'v) \<Rightarrow> ('k, 'v) hashmap \<Rightarrow> ('k, 'v) hashmap" where
  "hm_entry k d f m = hm_modify k f (if hm_get m k = None then hm_insert k d m else m)"

interpretation hm: hash_map "[]" hm_get hm_insert hm_modify "\<lambda>m. m" hm_ok
  by unfold_locales
    (auto simp: hm_ok_def hm_get_def hm_insert_def hm_modify_def update_conv map_of_map_entry
      AList.distinct_update AList.distinct_map_entry map_of_eq_Some_iff fun_upd_def
      split: option.splits)

lemma hm_get_entry:
  "hm_ok m \<Longrightarrow> hm_get (hm_entry k d f m) k' =
     (if k' = k then Some (f (case hm_get m k of None \<Rightarrow> d | Some v \<Rightarrow> v)) else hm_get m k')"
  unfolding hm_entry_def by (rule hm.get_entry)

lemma hm_ok_entry: "hm_ok m \<Longrightarrow> hm_ok (hm_entry k d f m)"
  unfolding hm_entry_def by (rule hm.ok_entry)

lemma hm_entry_Nil [simp]: "hm_entry k d f [] = [(k, f d)]"
  by (simp add: hm_entry_def hm_get_def hm_insert_def hm_modify_def)

lemma hm_entry_Cons [simp]:
  "hm_entry k d f ((k', v) # m) = (if k' = k then (k', f v) # m else (k', v) # hm_entry k d f m)"
  by (auto simp: hm_entry_def hm_get_def hm_insert_def hm_modify_def)

end
