(* ===== verification/Clock.thy ===== *)
theory Clock
  imports Gw_Prelude
begin

text \<open>
  \<open>std::time::Duration\<close> as the number of its nanoseconds, with the panics of its checked
  arithmetic, and \<open>tokio::time::Instant\<close> as nanoseconds since its origin, with its end. An interval of
  the configuration is added with \<open>inst_add\<close>, which panics there; the delays of the program itself are
  at most half a minute and are added without a check.
\<close>

type_synonym duration = nat
type_synonym instant = nat

definition nanos_per_sec :: nat where "nanos_per_sec = 10 ^ 9"

definition dur_max :: duration where
  "dur_max = (2 ^ 64 - 1) * nanos_per_sec + (nanos_per_sec - 1)"

definition dur_from_secs :: "u64 \<Rightarrow> duration" where
  "dur_from_secs s = unat s * nanos_per_sec"

definition dur_from_millis :: "u64 \<Rightarrow> duration" where
  "dur_from_millis ms = unat ms * 10 ^ 6"

definition dur_as_secs :: "duration \<Rightarrow> u64" where
  "dur_as_secs d = word_of_nat (d div nanos_per_sec)"

text \<open>\<open>a - b\<close> and \<open>d * k\<close>, which panic outside the range of the type.\<close>

definition dur_sub :: "duration \<Rightarrow> duration \<Rightarrow> duration option" where
  "dur_sub a b = (if b \<le> a then Some (a - b) else None)"

definition dur_mul :: "duration \<Rightarrow> nat \<Rightarrow> duration option" where
  "dur_mul d k = (if d * k \<le> dur_max then Some (d * k) else None)"

text \<open>
  \<open>Instant + Duration\<close> panics past the end of the clock, which counts its seconds in an \<open>i64\<close>. An
  instant of the model is counted from the clock's origin.
\<close>

definition inst_max :: instant where
  "inst_max = (2 ^ 63 - 1) * nanos_per_sec + (nanos_per_sec - 1)"

definition inst_add :: "instant \<Rightarrow> duration \<Rightarrow> instant option" where
  "inst_add now d = (if now + d \<le> inst_max then Some (now + d) else None)"

lemma inst_add_Some [panic_free]: "now + d \<le> inst_max \<Longrightarrow> inst_add now d = Some (now + d)"
  by (simp add: inst_add_def)

lemma inst_add_Some_iff: "inst_add now d = Some t \<longleftrightarrow> t = now + d \<and> t \<le> inst_max"
  by (auto simp: inst_add_def)

lemma inst_add_None_iff: "inst_add now d = None \<longleftrightarrow> inst_max < now + d"
  by (simp add: inst_add_def)

text \<open>Half of the clock is more than any interval below \<open>2 ^ 62\<close> seconds needs.\<close>

lemma inst_max_half:
  assumes "now \<le> 2 ^ 62 * nanos_per_sec" and "unat s < 2 ^ 62"
  shows "now + dur_from_secs s \<le> inst_max"
proof -
  have "unat s * nanos_per_sec \<le> (2 ^ 62 - 1) * nanos_per_sec"
    using assms(2) by (intro mult_le_mono1) simp
  with assms(1) show ?thesis by (simp add: dur_from_secs_def inst_max_def nanos_per_sec_def)
qed

lemma unat_u64_less: "unat (w :: u64) < 2 ^ 64"
  using unsigned_less [of w, where ?'a = nat] by (simp only: len_of_numeral_defs) simp

lemma dur_from_secs_le: "dur_from_secs s \<le> dur_max"
proof -
  have "unat s \<le> 2 ^ 64 - 1" using unat_u64_less [of s] by linarith
  then have "unat s * nanos_per_sec \<le> (2 ^ 64 - 1) * nanos_per_sec" by (rule mult_le_mono1)
  then show ?thesis unfolding dur_from_secs_def dur_max_def by linarith
qed

lemma dur_as_secs_from_secs [simp]: "dur_as_secs (dur_from_secs s) = s"
  by (simp add: dur_as_secs_def dur_from_secs_def nanos_per_sec_def)

lemma dur_mul_Some [panic_free]: "d * k \<le> dur_max \<Longrightarrow> dur_mul d k = Some (d * k)"
  by (simp add: dur_mul_def)

lemma dur_sub_Some [panic_free]: "b \<le> a \<Longrightarrow> dur_sub a b = Some (a - b)"
  by (simp add: dur_sub_def)

end
