(* ===== verification/Aggregator.thy ===== *)
theory Aggregator
  imports Schema Hash_Map Clock Example_Config
begin

text \<open>
  \<open>src/aggregator.rs\<close>: the accumulators, the tumbling window and the task that owns both. The task
  is modelled one \<open>select!\<close> branch at a time: an event is a reading received, the input channel
  closed, or the sleep elapsed. The specification keeps the readings of the open window as a list;
  the refinement lemmas show that the accumulators are a function of that list and that every
  batch is computed from the readings of its own window alone.
\<close>

section \<open>Accumulators\<close>

record PointAgg =
  pa_sum :: f64
  pa_count :: u32
  pa_min :: f64
  pa_max :: f64
  pa_unit :: string

definition PointAgg_new :: "string \<Rightarrow> PointAgg" where
  "PointAgg_new u =
     \<lparr>pa_sum = f64_zero, pa_count = 0, pa_min = F64_Inf False, pa_max = F64_Inf True, pa_unit = u\<rparr>"

definition PointAgg_reset :: "PointAgg \<Rightarrow> PointAgg" where
  "PointAgg_reset p =
     p\<lparr>pa_sum := f64_zero, pa_count := 0, pa_min := F64_Inf False, pa_max := F64_Inf True\<rparr>"

type_synonym agg_map = "(PointId, PointAgg) hashmap"

definition init_from_config :: "Config \<Rightarrow> agg_map" where
  "init_from_config config =
     foldl (\<lambda>agg conn.
       foldl (\<lambda>agg device.
         foldl (\<lambda>agg block.
           foldl (\<lambda>agg point.
             hm_insert \<lparr>pid_device = dv_id device, pid_point = pt_name point\<rparr>
               (PointAgg_new (pt_unit point)) agg)
           agg (bk_points block))
         agg (dv_blocks device))
       agg (cn_devices conn))
     [] (cf_connections config)"

definition record_reading :: "agg_map \<Rightarrow> Reading \<Rightarrow> agg_map" where
  "record_reading agg reading =
     hm_modify (rd_point_id reading) (\<lambda>p. p\<lparr>
         pa_sum := f64_add (pa_sum p) (rd_value reading),
         pa_count := pa_count p + 1,
         pa_min := f64_min (pa_min p) (rd_value reading),
         pa_max := f64_max (pa_max p) (rd_value reading)\<rparr>) agg"

text \<open>
  One entry of \<open>agg.iter_mut()\<close> in \<open>flush\<close>: a point without samples is left out, any other is
  pushed to its device's list with its mean.
\<close>

definition point_mean :: "PointAgg \<Rightarrow> f64" where
  "point_mean p = f64_div (pa_sum p) (f64_of_int (uint (pa_count p)))"

definition flush_entry ::
  "(string, AggregatedPoint list) hashmap \<Rightarrow> PointId \<times> PointAgg
     \<Rightarrow> (string, AggregatedPoint list) hashmap" where
  "flush_entry by_device = (\<lambda>(point_id, p).
     if pa_count p = 0 then by_device
     else hm_entry (pid_device point_id) [] (\<lambda>ps. ps @
       [\<lparr>ap_name = pid_point point_id, ap_unit = pa_unit p, ap_mean = point_mean p\<rparr>]) by_device)"

text \<open>The order in which the device map iterates is the argument \<open>order\<close>.\<close>

type_synonym device_order =
  "(string, AggregatedPoint list) hashmap \<Rightarrow> (string, AggregatedPoint list) hashmap"

definition flush :: "device_order \<Rightarrow> agg_map \<Rightarrow> u64 \<Rightarrow> u64 \<Rightarrow> agg_map \<times> AggregatedBatch list" where
  "flush order agg window_start window_end =
     (map (\<lambda>(k, p). (k, PointAgg_reset p)) agg,
      map (\<lambda>(device_id, points).
          \<lparr>ab_device_id = device_id, ab_window_start = window_start, ab_window_end = window_end,
           ab_points = points\<rparr>)
        (order (foldl flush_entry [] agg)))"

section \<open>The window\<close>

text \<open>
  \<open>next_boundary\<close>: \<open>None\<close> is the division by a zero window or the negative \<open>Duration\<close>; the
  additions and the product wrap in \<open>u64\<close> as in a release build.
\<close>

definition next_boundary :: "duration \<Rightarrow> duration \<Rightarrow> (duration \<times> u64) option" where
  "next_boundary now window =
     (let window_secs = dur_as_secs window in
      if window_secs = 0 then None
      else let boundary_secs = (dur_as_secs now div window_secs + 1) * window_secs;
               boundary = dur_from_secs boundary_secs
           in Option.bind (dur_sub boundary now) (\<lambda>wait. Some (wait, boundary_secs)))"

record agg_state =
  ag_agg :: agg_map
  ag_window_end :: u64
  ag_deadline :: instant

text \<open>\<open>SleepElapsed n\<close>: the timer fired; \<open>n\<close> is the number of batches the publisher still takes
before its end of the channel is gone, \<open>None\<close> if it takes them all.\<close>

datatype agg_event = RecvReading Reading | RecvClosed | SleepElapsed "nat option"

text \<open>A task that runs on with its state, has returned, or has panicked.\<close>

datatype 's agg_result = AggRunning 's | AggReturned | AggPanicked

definition agg_start :: "agg_map \<Rightarrow> u64 \<Rightarrow> duration \<Rightarrow> instant \<Rightarrow> agg_state option" where
  "agg_start agg window_secs now_unix now =
     Option.bind (next_boundary now_unix (dur_from_secs window_secs)) (\<lambda>(wait, window_end).
       map_option (\<lambda>deadline. \<lparr>ag_agg = agg, ag_window_end = window_end, ag_deadline = deadline\<rparr>)
         (inst_add now wait))"

definition agg_tick ::
  "device_order \<Rightarrow> u64 \<Rightarrow> agg_state \<Rightarrow> nat option \<Rightarrow> agg_state agg_result \<times> AggregatedBatch list" where
  "agg_tick order window_secs st taken =
     (let window_start = ag_window_end st - window_secs;
          (agg', batches) = flush order (ag_agg st) window_start (ag_window_end st);
          next = (case inst_add (ag_deadline st) (dur_from_secs window_secs) of
                    None \<Rightarrow> AggPanicked
                  | Some deadline \<Rightarrow> AggRunning (st\<lparr>ag_agg := agg',
                      ag_window_end := ag_window_end st + window_secs, ag_deadline := deadline\<rparr>))
      in case taken of
           None \<Rightarrow> (next, batches)
         | Some n \<Rightarrow> if n < length batches then (AggReturned, take n batches) else (next, batches))"

definition agg_step ::
  "device_order \<Rightarrow> u64 \<Rightarrow> agg_state \<Rightarrow> agg_event \<Rightarrow> agg_state agg_result \<times> AggregatedBatch list" where
  "agg_step order window_secs st ev =
     (case ev of
        RecvReading reading \<Rightarrow> (AggRunning (st\<lparr>ag_agg := record_reading (ag_agg st) reading\<rparr>), [])
      | RecvClosed \<Rightarrow> (AggReturned, [])
      | SleepElapsed taken \<Rightarrow> agg_tick order window_secs st taken)"

text \<open>\<open>run_aggregator\<close> over a sequence of events, up to its end.\<close>

primrec agg_run ::
  "device_order \<Rightarrow> u64 \<Rightarrow> agg_state \<Rightarrow> agg_event list \<Rightarrow> agg_state agg_result \<times> AggregatedBatch list" where
  "agg_run order window_secs st [] = (AggRunning st, [])"
| "agg_run order window_secs st (ev # evs) =
     (case agg_step order window_secs st ev of
        (AggRunning st', out) \<Rightarrow>
          (case agg_run order window_secs st' evs of (r, out') \<Rightarrow> (r, out @ out'))
      | (r, out) \<Rightarrow> (r, out))"

section \<open>The points of a configuration\<close>

definition config_points :: "Config \<Rightarrow> (PointId \<times> string) list" where
  "config_points config =
     concat (map (\<lambda>conn. concat (map (\<lambda>device. map (\<lambda>point.
         (\<lparr>pid_device = dv_id device, pid_point = pt_name point\<rparr>, pt_unit point))
       (device_points device)) (cn_devices conn))) (cf_connections config))"

lemma foldl_concat_map: "foldl f s (concat (map g xs)) = foldl (\<lambda>s x. foldl f s (g x)) s xs"
  by (induction xs arbitrary: s) auto

lemma init_from_config_eq:
  "init_from_config c =
     foldl (\<lambda>m (k, v). hm_insert k v m) [] (map (\<lambda>(k, u). (k, PointAgg_new u)) (config_points c))"
  by (simp add: init_from_config_def config_points_def device_points_def foldl_concat_map
      foldl_map map_concat comp_def)

text \<open>Every configured point has a zeroed accumulator, with the unit of the last point of that name.\<close>

lemma init_from_config_get:
  "hm_get (init_from_config c) k = map_option PointAgg_new (map_of (rev (config_points c)) k)"
proof -
  have "map_of (rev (map (\<lambda>(k, u). (k, PointAgg_new u)) ps)) k
      = map_option PointAgg_new (map_of (rev ps) k)" for ps :: "(PointId \<times> string) list"
    unfolding rev_map by (rule map_of_map [THEN fun_cong, unfolded comp_def])
  then show ?thesis by (simp only: init_from_config_eq hm.get_insert_all_empty)
qed

lemma init_from_config_ok: "hm_ok (init_from_config c)"
  unfolding init_from_config_eq by (intro hm.ok_insert_all hm.ok_empty)

section \<open>The specification: accumulators from the window's readings\<close>

definition samples :: "Reading list \<Rightarrow> PointId \<Rightarrow> f64 list" where
  "samples rs pid = map rd_value (filter (\<lambda>r. rd_point_id r = pid) rs)"

definition acc_of :: "string \<Rightarrow> f64 list \<Rightarrow> PointAgg" where
  "acc_of u xs =
     \<lparr>pa_sum = foldl f64_add f64_zero xs, pa_count = word_of_nat (length xs),
      pa_min = foldl f64_min (F64_Inf False) xs, pa_max = foldl f64_max (F64_Inf True) xs,
      pa_unit = u\<rparr>"

definition agg_of :: "(PointId \<times> string) list \<Rightarrow> Reading list \<Rightarrow> agg_map" where
  "agg_of pts rs = map (\<lambda>(pid, u). (pid, acc_of u (samples rs pid))) pts"

lemma samples_Nil [simp]: "samples [] pid = []"
  by (simp add: samples_def)

lemma samples_snoc [simp]:
  "samples (rs @ [r]) pid = (if rd_point_id r = pid then samples rs pid @ [rd_value r] else samples rs pid)"
  by (simp add: samples_def)

lemma acc_of_Nil: "acc_of u [] = PointAgg_new u"
  by (simp add: acc_of_def PointAgg_new_def)

lemma PointAgg_reset_acc_of: "PointAgg_reset (acc_of u xs) = acc_of u []"
  by (simp add: acc_of_def PointAgg_reset_def)

lemma acc_of_snoc:
  "acc_of u (xs @ [x]) = (acc_of u xs)\<lparr>
     pa_sum := f64_add (pa_sum (acc_of u xs)) x, pa_count := pa_count (acc_of u xs) + 1,
     pa_min := f64_min (pa_min (acc_of u xs)) x, pa_max := f64_max (pa_max (acc_of u xs)) x\<rparr>"
  by (simp add: acc_of_def add.commute)

lemma hm_modify_Cons [simp]:
  "hm_modify k f ((k', v) # m) = (if k' = k then (k', f v) # m else (k', v) # hm_modify k f m)"
  by (simp add: hm_modify_def)

lemma hm_modify_Nil [simp]: "hm_modify k f [] = []"
  by (simp add: hm_modify_def)

lemma agg_of_cong: "(\<And>pid u. (pid, u) \<in> set pts \<Longrightarrow> samples rs pid = samples rs' pid) \<Longrightarrow>
    agg_of pts rs = agg_of pts rs'"
  by (auto simp: agg_of_def)

lemma record_reading_refines:
  assumes "distinct (map fst pts)"
  shows "record_reading (agg_of pts rs) r = agg_of pts (rs @ [r])"
  using assms
proof (induction pts)
  case (Cons p pts)
  obtain pid u where p: "p = (pid, u)" by (cases p)
  show ?case
  proof (cases "rd_point_id r = pid")
    case True
    with Cons.prems p have "agg_of pts (rs @ [r]) = agg_of pts rs"
      by (intro agg_of_cong) (auto simp: rev_image_eqI)
    with True show ?thesis
      by (simp add: record_reading_def agg_of_def p acc_of_snoc del: samples_snoc)
        (simp add: acc_of_snoc)
  next
    case False
    with Cons p show ?thesis by (auto simp: record_reading_def agg_of_def)
  qed
qed (simp add: record_reading_def agg_of_def)

lemma flush_resets: "fst (flush order (agg_of pts rs) ws we) = agg_of pts []"
  by (simp add: flush_def agg_of_def PointAgg_reset_acc_of split: prod.splits)

section \<open>What a flush emits\<close>

text \<open>The points that a window's batch for device \<open>d\<close> holds: the ones with samples, in map order.\<close>

definition live :: "PointId \<times> PointAgg \<Rightarrow> bool" where
  "live kp \<longleftrightarrow> pa_count (snd kp) \<noteq> 0"

definition batch_points :: "agg_map \<Rightarrow> string \<Rightarrow> AggregatedPoint list" where
  "batch_points agg d =
     map (\<lambda>(k, p). \<lparr>ap_name = pid_point k, ap_unit = pa_unit p, ap_mean = point_mean p\<rparr>)
       (filter (\<lambda>kp. pid_device (fst kp) = d \<and> live kp) agg)"

lemma flush_entries_ok: "hm_ok m \<Longrightarrow> hm_ok (foldl flush_entry m agg)"
  by (induction agg arbitrary: m) (auto simp: flush_entry_def hm_ok_entry split: prod.splits)

lemma flush_entries_get:
  "hm_ok m \<Longrightarrow> hm_get (foldl flush_entry m agg) d =
     (if batch_points agg d = [] then hm_get m d
      else Some ((case hm_get m d of None \<Rightarrow> [] | Some ps \<Rightarrow> ps) @ batch_points agg d))"
proof (induction agg arbitrary: m)
  case (Cons kp agg)
  obtain k p where kp: "kp = (k, p)" by (cases kp)
  have "hm_ok (flush_entry m (k, p))" using Cons.prems by (simp add: flush_entry_def hm_ok_entry)
  from Cons.IH [OF this] show ?case
    using Cons.prems
    by (auto simp: kp flush_entry_def batch_points_def live_def hm_get_entry split: option.splits)
qed (simp add: batch_points_def)

lemma by_device_get:
  "hm_get (foldl flush_entry [] agg) d =
     (if batch_points agg d = [] then None else Some (batch_points agg d))"
  using flush_entries_get [OF hm.ok_empty, of agg d] by (simp add: hm.get_empty)

lemma flush_batches:
  assumes order: "\<And>m. mset (order m) = mset m"
    and out: "(agg', batches) = flush order agg ws we"
  shows "distinct (map ab_device_id batches)"
    and "b \<in> set batches \<longleftrightarrow>
      b = \<lparr>ab_device_id = ab_device_id b, ab_window_start = ws, ab_window_end = we,
           ab_points = batch_points agg (ab_device_id b)\<rparr> \<and>
      batch_points agg (ab_device_id b) \<noteq> []"
proof -
  let ?m = "foldl flush_entry [] agg"
  let ?mk = "\<lambda>(d, ps). \<lparr>ab_device_id = d, ab_window_start = ws, ab_window_end = we, ab_points = ps\<rparr>"
  have ok: "hm_ok ?m" by (intro flush_entries_ok hm.ok_empty)
  have batches: "batches = map ?mk (order ?m)" using out by (simp add: flush_def)
  have "mset (map fst (order ?m)) = mset (map fst ?m)" by (simp add: order)
  then have "distinct (map fst (order ?m))"
    using hm.entries_distinct [OF ok] by (metis mset_eq_imp_distinct_iff)
  moreover have "map ab_device_id batches = map fst (order ?m)"
    by (simp add: batches comp_def case_prod_unfold)
  ultimately show "distinct (map ab_device_id batches)" by simp
  have set: "set (order ?m) = set ?m" using order by (metis set_mset_mset)
  have mem: "(d, ps) \<in> set ?m \<longleftrightarrow> ps = batch_points agg d \<and> ps \<noteq> []" for d ps
    using hm.entries_get [OF ok, of d ps] by (auto simp: by_device_get)
  show "b \<in> set batches \<longleftrightarrow>
      b = \<lparr>ab_device_id = ab_device_id b, ab_window_start = ws, ab_window_end = we,
           ab_points = batch_points agg (ab_device_id b)\<rparr> \<and>
      batch_points agg (ab_device_id b) \<noteq> []"
    unfolding batches set_map set by (cases b) (auto simp: mem image_iff split: prod.splits)
qed

section \<open>The task refines the list of readings of the open window\<close>

record window =
  wn_log :: "Reading list"
  wn_end :: u64
  wn_deadline :: instant

definition conc :: "(PointId \<times> string) list \<Rightarrow> window \<Rightarrow> agg_state" where
  "conc pts s = \<lparr>ag_agg = agg_of pts (wn_log s), ag_window_end = wn_end s, ag_deadline = wn_deadline s\<rparr>"

definition window_batches ::
  "device_order \<Rightarrow> (PointId \<times> string) list \<Rightarrow> Reading list \<times> u64 \<times> u64 \<Rightarrow> AggregatedBatch list" where
  "window_batches order pts = (\<lambda>(rs, ws, we). snd (flush order (agg_of pts rs) ws we))"

definition window_next :: "u64 \<Rightarrow> window \<Rightarrow> window" where
  "window_next w s =
     \<lparr>wn_log = [], wn_end = wn_end s + w, wn_deadline = wn_deadline s + dur_from_secs w\<rparr>"

text \<open>The clock has room for one more window.\<close>

definition window_advance :: "u64 \<Rightarrow> window \<Rightarrow> window agg_result" where
  "window_advance w s =
     (if wn_deadline s + dur_from_secs w \<le> inst_max then AggRunning (window_next w s) else AggPanicked)"

definition window_step ::
  "device_order \<Rightarrow> (PointId \<times> string) list \<Rightarrow> u64 \<Rightarrow> window \<Rightarrow> agg_event
     \<Rightarrow> window agg_result \<times> AggregatedBatch list" where
  "window_step order pts w s ev =
     (case ev of
        RecvReading r \<Rightarrow> (AggRunning (s\<lparr>wn_log := wn_log s @ [r]\<rparr>), [])
      | RecvClosed \<Rightarrow> (AggReturned, [])
      | SleepElapsed taken \<Rightarrow>
          (let out = window_batches order pts (wn_log s, wn_end s - w, wn_end s) in
           case taken of
             None \<Rightarrow> (window_advance w s, out)
           | Some n \<Rightarrow> if n < length out then (AggReturned, take n out) else (window_advance w s, out)))"

lemma agg_step_refines:
  assumes "distinct (map fst pts)"
  shows "agg_step order w (conc pts s) ev =
    (case window_step order pts w s ev of (s', out) \<Rightarrow> (map_agg_result (conc pts) s', out))"
proof (cases ev)
  case (RecvReading r)
  then show ?thesis
    using record_reading_refines [OF assms] by (simp add: agg_step_def window_step_def conc_def)
next
  case RecvClosed
  then show ?thesis by (simp add: agg_step_def window_step_def)
next
  case (SleepElapsed taken)
  obtain agg' out where f: "flush order (agg_of pts (wn_log s)) (wn_end s - w) (wn_end s) = (agg', out)"
    by (cases "flush order (agg_of pts (wn_log s)) (wn_end s - w) (wn_end s)")
  then have "agg' = agg_of pts []" using flush_resets by (metis fst_conv)
  with f SleepElapsed show ?thesis
    by (simp add: agg_step_def agg_tick_def window_step_def conc_def window_batches_def window_next_def
        window_advance_def inst_add_def Let_def split: option.split)
qed

text \<open>The windows that a sequence of events closes, each with its readings and its bounds.\<close>

fun closed_windows :: "u64 \<Rightarrow> Reading list \<Rightarrow> u64 \<Rightarrow> agg_event list \<Rightarrow> (Reading list \<times> u64 \<times> u64) list" where
  "closed_windows w rs we [] = []"
| "closed_windows w rs we (RecvReading r # evs) = closed_windows w (rs @ [r]) we evs"
| "closed_windows w rs we (SleepElapsed taken # evs) = (rs, we - w, we) # closed_windows w [] (we + w) evs"
| "closed_windows w rs we (RecvClosed # evs) = []"

text \<open>The readings of the window still open after the events.\<close>

fun open_window :: "Reading list \<Rightarrow> agg_event list \<Rightarrow> Reading list" where
  "open_window rs [] = rs"
| "open_window rs (RecvReading r # evs) = open_window (rs @ [r]) evs"
| "open_window rs (SleepElapsed taken # evs) = open_window [] evs"
| "open_window rs (RecvClosed # evs) = rs"

definition readings :: "agg_event list \<Rightarrow> Reading list" where
  "readings evs = concat (map (\<lambda>ev. case ev of RecvReading r \<Rightarrow> [r] | _ \<Rightarrow> []) evs)"

definition ticks :: "agg_event list \<Rightarrow> nat" where
  "ticks evs = length (filter (\<lambda>ev. case ev of SleepElapsed _ \<Rightarrow> True | _ \<Rightarrow> False) evs)"

text \<open>The publisher's end of the channel stays open.\<close>

definition all_taken :: "agg_event list \<Rightarrow> bool" where
  "all_taken evs \<longleftrightarrow> (\<forall>n. SleepElapsed (Some n) \<notin> set evs)"

text \<open>The clock has room for the ticks of the events.\<close>

definition in_clock :: "u64 \<Rightarrow> instant \<Rightarrow> agg_event list \<Rightarrow> bool" where
  "in_clock w deadline evs \<longleftrightarrow> deadline + ticks evs * dur_from_secs w \<le> inst_max"

lemma in_clock_simps [simp]:
  "in_clock w d (RecvReading r # evs) \<longleftrightarrow> in_clock w d evs"
  "in_clock w d (SleepElapsed taken # evs) \<longleftrightarrow> in_clock w (d + dur_from_secs w) evs"
  by (simp_all add: in_clock_def ticks_def add.assoc)

lemma window_advance_in_clock:
  "in_clock w (wn_deadline s + dur_from_secs w) evs \<Longrightarrow> window_advance w s = AggRunning (window_next w s)"
  by (auto simp: window_advance_def in_clock_def)

lemma agg_run_outputs:
  assumes pts: "distinct (map fst pts)" and "all_taken evs" and "in_clock w (wn_deadline s) evs"
  shows "snd (agg_run order w (conc pts s) evs) =
    concat (map (window_batches order pts) (closed_windows w (wn_log s) (wn_end s) evs))"
  using assms(2,3)
proof (induction evs arbitrary: s)
  case (Cons ev evs)
  then have evs: "all_taken evs" by (simp add: all_taken_def)
  note IH = Cons.IH [OF evs]
  show ?case
  proof (cases ev)
    case (SleepElapsed taken)
    with Cons.prems have "taken = None" by (cases taken) (auto simp: all_taken_def)
    with SleepElapsed IH [of "window_next w s"] Cons.prems show ?thesis
      by (simp add: agg_step_refines [OF pts] window_step_def window_advance_in_clock window_next_def Let_def
          case_prod_unfold)
  next
    case (RecvReading r)
    with IH [of "s\<lparr>wn_log := wn_log s @ [r]\<rparr>"] Cons.prems show ?thesis
      by (simp add: agg_step_refines [OF pts] window_step_def case_prod_unfold)
  qed (simp add: agg_step_refines [OF pts] window_step_def)
qed simp

lemma agg_run_state:
  assumes pts: "distinct (map fst pts)" and "all_taken evs" and "RecvClosed \<notin> set evs" and "in_clock w (wn_deadline s) evs"
  shows "fst (agg_run order w (conc pts s) evs) =
    AggRunning (conc pts \<lparr>wn_log = open_window (wn_log s) evs,
      wn_end = wn_end s + of_nat (ticks evs) * w,
      wn_deadline = wn_deadline s + ticks evs * dur_from_secs w\<rparr>)"
  using assms(2,3,4)
proof (induction evs arbitrary: s)
  case (Cons ev evs)
  then have "all_taken evs" "RecvClosed \<notin> set evs" by (simp_all add: all_taken_def)
  note IH = Cons.IH [OF this]
  show ?case
  proof (cases ev)
    case (SleepElapsed taken)
    with Cons.prems have "taken = None" by (cases taken) (auto simp: all_taken_def)
    with SleepElapsed IH [of "window_next w s"] Cons.prems show ?thesis
      by (simp add: agg_step_refines [OF pts] window_step_def window_advance_in_clock window_next_def Let_def ticks_def
          distrib_right add.assoc case_prod_unfold)
  next
    case (RecvReading r)
    with IH [of "s\<lparr>wn_log := wn_log s @ [r]\<rparr>"] Cons.prems show ?thesis
      by (simp add: agg_step_refines [OF pts] window_step_def ticks_def case_prod_unfold)
  qed (use Cons.prems in simp)
qed (cases s, simp add: ticks_def conc_def)

text \<open>Every reading received belongs to exactly one window, in the order of arrival.\<close>

lemma windows_partition:
  "RecvClosed \<notin> set evs \<Longrightarrow>
     concat (map fst (closed_windows w rs we evs)) @ open_window rs evs = rs @ readings evs"
  by (induction w rs we evs rule: closed_windows.induct) (simp_all add: readings_def)

lemma closed_windows_length:
  "RecvClosed \<notin> set evs \<Longrightarrow> length (closed_windows w rs we evs) = ticks evs"
  by (induction w rs we evs rule: closed_windows.induct) (simp_all add: ticks_def)

lemma closed_windows_bounds:
  "i < length (closed_windows w rs we evs) \<Longrightarrow>
     snd (closed_windows w rs we evs ! i) = (we + of_nat i * w - w, we + of_nat i * w)"
proof (induction w rs we evs arbitrary: i rule: closed_windows.induct)
  case (3 w rs we taken evs)
  then show ?case by (cases i) (simp_all add: algebra_simps)
qed simp_all

text \<open>A closed input ends the task without a flush of the open window.\<close>

lemma agg_run_closed:
  assumes "distinct (map fst pts)" and "all_taken evs" and "RecvClosed \<notin> set evs" and "in_clock w (wn_deadline s) evs"
  shows "agg_run order w (conc pts s) (evs @ RecvClosed # later) =
    (AggReturned, snd (agg_run order w (conc pts s) evs))"
  using assms(2,3,4)
proof (induction evs arbitrary: s)
  case Nil
  show ?case by (simp add: agg_step_def)
next
  case (Cons ev evs)
  then have "all_taken evs" "RecvClosed \<notin> set evs" by (simp_all add: all_taken_def)
  note IH = Cons.IH [OF this]
  show ?case
  proof (cases ev)
    case (SleepElapsed taken)
    with Cons.prems have "taken = None" by (cases taken) (auto simp: all_taken_def)
    with SleepElapsed IH [of "window_next w s"] Cons.prems show ?thesis
      by (simp add: agg_step_refines [OF assms(1)] window_step_def window_advance_in_clock window_next_def Let_def
          case_prod_unfold)
  next
    case (RecvReading r)
    with IH [of "s\<lparr>wn_log := wn_log s @ [r]\<rparr>"] Cons.prems show ?thesis
      by (simp add: agg_step_refines [OF assms(1)] window_step_def case_prod_unfold)
  qed (use Cons.prems in simp)
qed

section \<open>What a window's batches hold\<close>

definition mean_of :: "f64 list \<Rightarrow> f64" where
  "mean_of xs = f64_div (foldl f64_add f64_zero xs) (f64_of_int (int (length xs)))"

definition window_points :: "(PointId \<times> string) list \<Rightarrow> Reading list \<Rightarrow> string \<Rightarrow> AggregatedPoint list" where
  "window_points pts rs d =
     map (\<lambda>(pid, u). \<lparr>ap_name = pid_point pid, ap_unit = u, ap_mean = mean_of (samples rs pid)\<rparr>)
       (filter (\<lambda>(pid, u). pid_device pid = d \<and> samples rs pid \<noteq> []) pts)"

lemma PointId_eta: "pid_device k = d \<Longrightarrow> \<lparr>pid_device = d, pid_point = pid_point k\<rparr> = k"
  by auto

lemma samples_length: "length (samples rs pid) \<le> length rs"
  by (simp add: samples_def)

lemma acc_of_count:
  assumes "length xs < 2 ^ 32"
  shows "pa_count (acc_of u xs) = 0 \<longleftrightarrow> xs = []"
    and "point_mean (acc_of u xs) = mean_of xs"
proof -
  have c: "uint (pa_count (acc_of u xs)) = int (length xs)"
    using uint_of_nat_u32 [OF assms] by (simp add: acc_of_def)
  then show "pa_count (acc_of u xs) = 0 \<longleftrightarrow> xs = []" by (metis length_0_conv of_nat_eq_0_iff uint_0_iff)
  show "point_mean (acc_of u xs) = mean_of xs"
    unfolding point_mean_def mean_of_def c by (simp add: acc_of_def)
qed

lemma acc_of_unit: "pa_unit (acc_of u xs) = u"
  by (simp add: acc_of_def)

lemma batch_points_window:
  assumes "length rs < 2 ^ 32"
  shows "batch_points (agg_of pts rs) d = window_points pts rs d"
proof -
  have len: "length (samples rs pid) < 2 ^ 32" for pid
    using samples_length [of rs pid] assms by linarith
  have "filter (\<lambda>kp. pid_device (fst kp) = d \<and> live kp) (agg_of pts rs)
      = agg_of (filter (\<lambda>(pid, u). pid_device pid = d \<and> samples rs pid \<noteq> []) pts) rs"
    unfolding agg_of_def filter_map comp_def
    by (intro arg_cong [where f = "map _"] filter_cong) (simp_all add: live_def acc_of_count(1) [OF len] split_beta)
  then show ?thesis
    unfolding batch_points_def window_points_def
    by (simp add: agg_of_def comp_def split_beta acc_of_count(2) [OF len] acc_of_unit)
qed

lemma foldl_add_ints:
  assumes "\<forall>i \<in> set is. \<bar>i\<bar> \<le> B" and "\<bar>a\<bar> + int (length is) * B \<le> 2 ^ 53" and "0 \<le> B"
  shows "foldl f64_add (f64_of_int a) (map f64_of_int is) = f64_of_int (a + sum_list is)"
  using assms
proof (induction "is" arbitrary: a)
  case (Cons i "is")
  have i: "\<bar>i\<bar> \<le> B" using Cons.prems by simp
  have l: "0 \<le> int (length is) * B" using Cons.prems(3) by simp
  have tot: "\<bar>a\<bar> + B + int (length is) * B \<le> 2 ^ 53" using Cons.prems(2) by (simp add: algebra_simps)
  have "f64_add (f64_of_int a) (f64_of_int i) = f64_of_int (a + i)"
    using i l tot by (intro f64_add_of_int) linarith+
  moreover have "foldl f64_add (f64_of_int (a + i)) (map f64_of_int is) = f64_of_int (a + i + sum_list is)"
    using Cons.prems i l tot by (intro Cons.IH) auto
  ultimately show ?case by (simp add: add.assoc)
qed simp

lemma sum_list_bounds:
  fixes lo hi :: int
  assumes "\<forall>i \<in> set is. lo \<le> i \<and> i \<le> hi"
  shows "int (length is) * lo \<le> sum_list is" and "sum_list is \<le> int (length is) * hi"
  using assms by (induction "is") (auto simp: algebra_simps)

text \<open>
  Up to \<open>2 ^ 21\<close> samples of magnitude at most \<open>2 ^ 32\<close> (what the integer register types hold): the
  sum is exact, so the mean is the double nearest to the true mean.
\<close>

lemma mean_of_ints:
  assumes ne: "is \<noteq> []" and b: "\<forall>i \<in> set is. \<bar>i\<bar> \<le> 2 ^ 32" and len: "length is \<le> 2 ^ 21"
  defines "q \<equiv> real_of_int (sum_list is) / real (length is)"
  shows "f64_finite (mean_of (map f64_of_int is))"
    and "f64_wf y \<Longrightarrow> f64_finite y \<Longrightarrow> \<bar>f64_val (mean_of (map f64_of_int is)) - q\<bar> \<le> \<bar>f64_val y - q\<bar>"
proof -
  have "int (length is) * 2 ^ 32 \<le> 2 ^ 21 * 2 ^ 32" using len by (intro mult_right_mono) simp_all
  then have tot: "int (length is) * 2 ^ 32 \<le> 2 ^ 53" by simp
  have sum: "foldl f64_add f64_zero (map f64_of_int is) = f64_of_int (sum_list is)"
    using foldl_add_ints [of "is" "2 ^ 32" 0] b tot by (simp add: f64_of_int_0)
  have "\<forall>i \<in> set is. - (2 ^ 32) \<le> i \<and> i \<le> 2 ^ 32" using b by auto
  from sum_list_bounds [OF this] have s: "\<bar>sum_list is\<bar> \<le> 2 ^ 53" using tot by linarith
  have l: "0 < int (length is)" "int (length is) \<le> 2 ^ 53" using ne len by simp_all
  then have l': "\<bar>int (length is)\<bar> \<le> 2 ^ 53" by simp
  have m: "mean_of (map f64_of_int is) = f64_div (f64_of_int (sum_list is)) (f64_of_int (int (length is)))"
    by (simp add: mean_of_def sum)
  show fin: "f64_finite (mean_of (map f64_of_int is))"
    unfolding m by (rule f64_div_of_int_finite [OF s l])
  have q: "q = f64_val (f64_of_int (sum_list is)) / f64_val (f64_of_int (int (length is)))"
    by (simp add: q_def f64_of_int_val [OF s] f64_of_int_val [OF l'])
  have nz: "f64_val (f64_of_int (int (length is))) \<noteq> 0" using ne by (simp add: f64_of_int_val [OF l'])
  show "f64_wf y \<Longrightarrow> f64_finite y \<Longrightarrow> \<bar>f64_val (mean_of (map f64_of_int is)) - q\<bar> \<le> \<bar>f64_val y - q\<bar>"
    unfolding q m
    by (rule f64_div_nearest [OF f64_of_int_finite [OF s] f64_of_int_finite [OF l'] nz fin [unfolded m]])
qed

text \<open>Hence the published mean lies between the least and the greatest sample.\<close>

lemma mean_of_ints_between:
  assumes ne: "is \<noteq> []" and b: "\<forall>i \<in> set is. \<bar>i\<bar> \<le> 2 ^ 32" and len: "length is \<le> 2 ^ 21"
    and lo: "\<forall>i \<in> set is. lo \<le> i" "\<bar>lo\<bar> \<le> 2 ^ 53" and hi: "\<forall>i \<in> set is. i \<le> hi" "\<bar>hi\<bar> \<le> 2 ^ 53"
  shows "real_of_int lo \<le> f64_val (mean_of (map f64_of_int is))"
    and "f64_val (mean_of (map f64_of_int is)) \<le> real_of_int hi"
proof -
  define q where "q = real_of_int (sum_list is) / real (length is)"
  have l: "0 < real (length is)" using ne by simp
  have "int (length is) * lo \<le> sum_list is" "sum_list is \<le> int (length is) * hi"
    using sum_list_bounds [of "is" lo hi] lo hi by auto
  then have "real_of_int (int (length is) * lo) \<le> real_of_int (sum_list is)"
    "real_of_int (sum_list is) \<le> real_of_int (int (length is) * hi)" by (simp_all only: of_int_le_iff)
  then have q: "real_of_int lo \<le> q" "q \<le> real_of_int hi"
    using l by (simp_all add: q_def pos_le_divide_eq pos_divide_le_eq mult.commute)
  note near = mean_of_ints(2) [OF ne b len, folded q_def]
  show "real_of_int lo \<le> f64_val (mean_of (map f64_of_int is))"
    using near [OF f64_of_int_wf [OF lo(2)] f64_of_int_finite [OF lo(2)]] q
    unfolding f64_of_int_val [OF lo(2)] by linarith
  show "f64_val (mean_of (map f64_of_int is)) \<le> real_of_int hi"
    using near [OF f64_of_int_wf [OF hi(2)] f64_of_int_finite [OF hi(2)]] q
    unfolding f64_of_int_val [OF hi(2)] by linarith
qed

text \<open>One NaN sample makes the mean of its window NaN.\<close>

lemma foldl_add_NaN: "foldl f64_add F64_NaN xs = F64_NaN"
  by (induction xs) auto

lemma mean_of_NaN:
  assumes "F64_NaN \<in> set xs"
  shows "mean_of xs = F64_NaN"
proof -
  from assms obtain ys zs where "xs = ys @ F64_NaN # zs" by (meson split_list)
  then show ?thesis by (simp add: mean_of_def foldl_add_NaN)
qed

section \<open>The boundaries\<close>

lemma next_boundary_aligned:
  assumes w: "w \<noteq> 0" and now: "now div nanos_per_sec + unat w < 2 ^ 64"
  obtains wait b where "next_boundary now (dur_from_secs w) = Some (wait, b)"
    "unat w dvd unat b" "now + wait = unat b * nanos_per_sec" "0 < wait" "wait \<le> dur_from_secs w"
proof -
  define n where "n = now div nanos_per_sec"
  define B where "B = (n div unat w + 1) * unat w"
  have w0: "0 < unat w" using w by (simp add: unat_gt_0)
  have n: "n < 2 ^ 64" using now by (simp add: n_def)
  have B: "n < B" "B \<le> n + unat w"
    unfolding B_def distrib_right mult_1
    using div_mult_mod_eq [of n "unat w"] mod_less_divisor [OF w0, of n] by linarith+
  have now': "n + unat w < 2 ^ 64" using now by (simp add: n_def)
  with B(2) have b64: "B < 2 ^ 64" by linarith
  let ?b = "(dur_as_secs now div w + 1) * w"
  have ns: "unat (dur_as_secs now) = n" using unat_of_nat_u64 [OF n] by (simp add: dur_as_secs_def n_def)
  have "dur_as_secs now div w = word_of_nat (n div unat w)"
    unfolding word_arith_nat_div ns ..
  then have "?b = word_of_nat B" by (simp add: B_def distrib_right)
  then have ub: "unat ?b = B" by (simp only: unat_of_nat_u64 [OF b64])
  have lt: "now < (n + 1) * nanos_per_sec" "n * nanos_per_sec \<le> now"
    using mod_less_divisor [of nanos_per_sec now] div_mult_mod_eq [of now nanos_per_sec]
    by (simp_all add: n_def nanos_per_sec_def algebra_simps)
  have "(n + 1) * nanos_per_sec \<le> B * nanos_per_sec" using B(1) by (intro mult_right_mono) auto
  with lt have nowB: "now < B * nanos_per_sec" by linarith
  have "B * nanos_per_sec \<le> (n + unat w) * nanos_per_sec" using B(2) by (intro mult_right_mono) auto
  then have le: "B * nanos_per_sec \<le> now + unat w * nanos_per_sec"
    using lt(2) by (simp add: distrib_right)
  have "next_boundary now (dur_from_secs w) = Some (B * nanos_per_sec - now, ?b)"
    using w nowB by (simp add: next_boundary_def Let_def dur_sub_def dur_from_secs_def [of ?b] ub)
  moreover have "unat w dvd unat ?b" by (simp only: ub B_def) simp
  moreover have "now + (B * nanos_per_sec - now) = unat ?b * nanos_per_sec" using nowB by (simp add: ub)
  moreover have "0 < B * nanos_per_sec - now" using nowB by simp
  moreover have "B * nanos_per_sec - now \<le> dur_from_secs w"
    using le by (simp add: dur_from_secs_def)
  ultimately show thesis by (rule that)
qed

section \<open>The schedule\<close>

lemma agg_run_schedule:
  "fst (agg_run order w st evs) = AggRunning st' \<Longrightarrow>
     ag_window_end st' = ag_window_end st + of_nat (ticks evs) * w \<and>
     ag_deadline st' = ag_deadline st + ticks evs * dur_from_secs w"
proof (induction evs arbitrary: st)
  case (Cons ev evs)
  then obtain st1 where st1: "fst (agg_step order w st ev) = AggRunning st1"
    "fst (agg_run order w st1 evs) = AggRunning st'"
    by (auto split: prod.splits agg_result.splits)
  from Cons.IH [OF st1(2)] st1(1) show ?case
    by (auto simp: agg_step_def agg_tick_def ticks_def inst_add_def Let_def distrib_right add.assoc
        split: agg_event.splits option.splits prod.splits if_splits)
qed (simp add: ticks_def)

text \<open>A task that is still running has stayed within the clock.\<close>

lemma agg_run_in_clock:
  "fst (agg_run order w st evs) = AggRunning st' \<Longrightarrow> ag_deadline st \<le> inst_max \<Longrightarrow>
     in_clock w (ag_deadline st) evs"
proof (induction evs arbitrary: st)
  case (Cons ev evs)
  then obtain st1 where st1: "fst (agg_step order w st ev) = AggRunning st1"
    "fst (agg_run order w st1 evs) = AggRunning st'"
    by (auto split: prod.splits agg_result.splits)
  have "ag_deadline st1 \<le> inst_max" using st1(1) Cons.prems(2)
    by (auto simp: agg_step_def agg_tick_def inst_add_Some_iff Let_def
        split: agg_event.splits option.splits prod.splits if_splits)
  from Cons.IH [OF st1(2) this] st1(1) show ?case
    by (cases ev) (auto simp: agg_step_def agg_tick_def inst_add_Some_iff Let_def
        split: option.splits prod.splits if_splits)
qed (simp add: in_clock_def ticks_def)

lemma agg_start_in_clock: "agg_start agg w now_unix now = Some st \<Longrightarrow> ag_deadline st \<le> inst_max"
  by (auto simp: agg_start_def bind_eq_Some_conv inst_add_Some_iff)

section \<open>The initial accumulators in any iteration order\<close>

definition agg_points :: "agg_map \<Rightarrow> (PointId \<times> string) list" where
  "agg_points agg = map (\<lambda>(k, p). (k, pa_unit p)) agg"

lemma init_agg_points:
  assumes "mset agg = mset (init_from_config config)"
  shows "agg = agg_of (agg_points agg) []" and "distinct (map fst (agg_points agg))"
    and "(pid, u) \<in> set (agg_points agg) \<longleftrightarrow> map_of (rev (config_points config)) pid = Some u"
proof -
  have set: "set agg = set (init_from_config config)" using assms by (metis set_mset_mset)
  have get: "(k, p) \<in> set agg \<longleftrightarrow> map_option PointAgg_new (map_of (rev (config_points config)) k) = Some p" for k p
    unfolding set using hm.entries_get [OF init_from_config_ok, of k p config]
    by (simp add: init_from_config_get)
  have new: "p = PointAgg_new (pa_unit p)" if "(k, p) \<in> set agg" for k p
    using that unfolding get by (auto simp: PointAgg_new_def)
  show "agg = agg_of (agg_points agg) []"
    unfolding agg_of_def agg_points_def map_map
    by (rule map_idI [symmetric]) (use new in \<open>auto simp: acc_of_Nil\<close>)
  have "mset (map fst agg) = mset (map fst (init_from_config config))"
    using assms by simp
  then have "distinct (map fst agg)"
    using hm.entries_distinct [OF init_from_config_ok] by (metis mset_eq_imp_distinct_iff)
  then show "distinct (map fst (agg_points agg))"
    by (simp add: agg_points_def comp_def split_beta)
  show "(pid, u) \<in> set (agg_points agg) \<longleftrightarrow> map_of (rev (config_points config)) pid = Some u"
  proof
    assume "(pid, u) \<in> set (agg_points agg)"
    then obtain p where "(pid, p) \<in> set agg" "u = pa_unit p" by (auto simp: agg_points_def)
    then show "map_of (rev (config_points config)) pid = Some u"
      unfolding get by (auto simp: PointAgg_new_def)
  next
    assume "map_of (rev (config_points config)) pid = Some u"
    then have "(pid, PointAgg_new u) \<in> set agg" unfolding get by simp
    then show "(pid, u) \<in> set (agg_points agg)" by (force simp: agg_points_def PointAgg_new_def)
  qed
qed

lemma init_conc:
  assumes "mset agg = mset (init_from_config config)"
    and "agg_start agg w now_unix now = Some st"
  shows "st = conc (agg_points agg)
    \<lparr>wn_log = [], wn_end = ag_window_end st, wn_deadline = ag_deadline st\<rparr>"
  using init_agg_points(1) [OF assms(1)] assms(2)
  by (auto simp: agg_start_def bind_eq_Some_conv conc_def)

section \<open>Means of integers\<close>

lemma batch_mean_ints:
  assumes "b \<in> set (snd (flush order (agg_of pts rs) ws we))" and "p \<in> set (ab_points b)"
    and "distinct (map fst pts)" and "\<And>m. mset (order m) = mset m" and "length rs < 2 ^ 32"
    and xs: "samples rs \<lparr>pid_device = ab_device_id b, pid_point = ap_name p\<rparr> = map f64_of_int is"
    and "\<forall>i \<in> set is. \<bar>i\<bar> \<le> 2 ^ 32" and "length is \<le> 2 ^ 21"
  shows "is \<noteq> [] \<and> f64_finite (ap_mean p) \<and>
    (\<forall>y. f64_wf y \<and> f64_finite y \<longrightarrow>
      \<bar>f64_val (ap_mean p) - real_of_int (sum_list is) / real (length is)\<bar>
        \<le> \<bar>f64_val y - real_of_int (sum_list is) / real (length is)\<bar>) \<and>
    real_of_int (Min (set is)) \<le> f64_val (ap_mean p) \<and> f64_val (ap_mean p) \<le> real_of_int (Max (set is))"
proof -
  obtain agg' batches where f: "(agg', batches) = flush order (agg_of pts rs) ws we" by (metis surj_pair)
  then have "b \<in> set batches" using assms(1) by (metis snd_conv)
  then have "ab_points b = window_points pts rs (ab_device_id b)"
    using flush_batches(2) [OF assms(4) f, of b] unfolding batch_points_window [OF assms(5)]
    by (metis AggregatedBatch.select_convs(4))
  with assms(2) have "ap_mean p = mean_of (samples rs \<lparr>pid_device = ab_device_id b, pid_point = ap_name p\<rparr>)"
    and "samples rs \<lparr>pid_device = ab_device_id b, pid_point = ap_name p\<rparr> \<noteq> []"
    by (auto simp: window_points_def PointId_eta)
  then have m: "ap_mean p = mean_of (map f64_of_int is)" and ne: "is \<noteq> []" by (simp_all add: xs)
  have "Min (set is) \<in> set is" "Max (set is) \<in> set is" using ne by simp_all
  then have "\<bar>Min (set is)\<bar> \<le> 2 ^ 32" "\<bar>Max (set is)\<bar> \<le> 2 ^ 32" using assms(7) by blast+
  then have lo: "\<bar>Min (set is)\<bar> \<le> 2 ^ 53" and hi: "\<bar>Max (set is)\<bar> \<le> 2 ^ 53" by simp_all
  show ?thesis
    using ne mean_of_ints [OF ne assms(7,8)] unfolding m
    using mean_of_ints_between [OF ne assms(7,8) _ lo _ hi] by simp
qed

section \<open>Properties\<close>

text \<open>C6: Between the start and the close of its input, and while the clock has room for its deadlines, the
aggregator keeps running and publishes, for every window in turn, exactly the batches computed from the readings received in that window: the windows are the
consecutive runs of readings between timer ticks, no reading is lost, duplicated or counted in two
windows, and window \<open>i\<close> is labelled with the bounds \<open>[B + (i - 1) * w, B + i * w]\<close>. This holds for
every iteration order of the accumulator map.\<close>

theorem aggregator_windows:
  assumes agg: "mset agg = mset (init_from_config config)"
    and start: "agg_start agg w now_unix now = Some st"
    and evs: "all_taken evs" "RecvClosed \<notin> set evs" and clock: "in_clock w (ag_deadline st) evs"
  shows "(\<exists>st'. fst (agg_run order w st evs) = AggRunning st') \<and> (\<exists>wins.
    snd (agg_run order w st evs) =
      concat (map (\<lambda>(rs, ws, we). snd (flush order (agg_of (agg_points agg) rs) ws we)) wins) \<and>
    concat (map fst wins) @ open_window [] evs = readings evs \<and>
    length wins = ticks evs \<and>
    (\<forall>i < length wins. snd (wins ! i) =
       (ag_window_end st + of_nat i * w - w, ag_window_end st + of_nat i * w)))"
proof -
  let ?wins = "closed_windows w [] (ag_window_end st) evs"
  have "snd (agg_run order w st evs) = concat (map (window_batches order (agg_points agg)) ?wins)"
    using agg_run_outputs [OF init_agg_points(2) [OF agg] evs(1), of w
      "\<lparr>wn_log = [], wn_end = ag_window_end st, wn_deadline = ag_deadline st\<rparr>" order] clock
    by (simp flip: init_conc [OF agg start])
  moreover have "\<exists>st'. fst (agg_run order w st evs) = AggRunning st'"
    using agg_run_state [OF init_agg_points(2) [OF agg] evs, of w
      "\<lparr>wn_log = [], wn_end = ag_window_end st, wn_deadline = ag_deadline st\<rparr>" order] clock
    by (simp flip: init_conc [OF agg start])
  ultimately show ?thesis
    using windows_partition [OF evs(2), of w "[]"] closed_windows_length [OF evs(2)] closed_windows_bounds
    by (intro conjI exI [of _ ?wins]) (simp_all add: window_batches_def split_beta)
qed

lemma ex_agg_start:
  "agg_start (init_from_config ex_config) 60 (dur_from_secs 90) 0 =
     Some \<lparr>ag_agg = init_from_config ex_config, ag_window_end = 120, ag_deadline = dur_from_secs 30\<rparr>"
  by (simp add: agg_start_def next_boundary_def Let_def dur_sub_def dur_as_secs_def dur_from_secs_def
      inst_add_def inst_max_def nanos_per_sec_def)

theorem aggregator_windows_witness:
  "\<exists>wins. snd (agg_run (\<lambda>m. m) 60
        \<lparr>ag_agg = init_from_config ex_config, ag_window_end = 120, ag_deadline = dur_from_secs 30\<rparr>
        [RecvReading \<lparr>rd_point_id = \<lparr>pid_device = ''meter'', pid_point = ''voltage''\<rparr>, rd_value = f64_one\<rparr>,
         SleepElapsed None]) =
      concat (map (\<lambda>(rs, ws, we).
        snd (flush (\<lambda>m. m) (agg_of (agg_points (init_from_config ex_config)) rs) ws we)) wins) \<and>
    length wins = 1 \<and> snd (wins ! 0) = (60, 120)"
  using aggregator_windows [of "init_from_config ex_config" ex_config, OF refl ex_agg_start,
      of "[RecvReading \<lparr>rd_point_id = \<lparr>pid_device = ''meter'', pid_point = ''voltage''\<rparr>, rd_value = f64_one\<rparr>,
         SleepElapsed None]" "\<lambda>m. m"]
  by (auto simp: all_taken_def ticks_def in_clock_def inst_max_def dur_from_secs_def nanos_per_sec_def)

lemma recorded_agg_of:
  assumes agg: "mset agg = mset (init_from_config config)"
  shows "foldl record_reading agg rs = agg_of (agg_points agg) rs"
proof -
  have "foldl record_reading (agg_of (agg_points agg) rs0) rs = agg_of (agg_points agg) (rs0 @ rs)" for rs0
    by (induction rs arbitrary: rs0) (simp_all add: record_reading_refines [OF init_agg_points(2) [OF agg]])
  from this [of "[]"] show ?thesis by (simp flip: init_agg_points(1) [OF agg])
qed

text \<open>C11: What a flush publishes for the readings \<open>rs\<close> of a window: one batch for each device with a
sample, holding one point for each configured point of that device with a sample, named and with the
unit of the configuration, whose value is the sum of exactly that point's samples divided by their
number; a point without samples is left out and a device without any has no batch. This holds for
every iteration order of both maps.\<close>

theorem flush_publishes:
  assumes agg: "mset agg = mset (init_from_config config)"
    and order: "\<And>m. mset (order m) = mset m"
    and len: "length rs < 2 ^ 32"
  shows "distinct (map ab_device_id (snd (flush order (foldl record_reading agg rs) ws we))) \<and>
    (\<forall>b. b \<in> set (snd (flush order (foldl record_reading agg rs) ws we)) \<longleftrightarrow>
      b = \<lparr>ab_device_id = ab_device_id b, ab_window_start = ws, ab_window_end = we,
           ab_points = window_points (agg_points agg) rs (ab_device_id b)\<rparr> \<and>
      window_points (agg_points agg) rs (ab_device_id b) \<noteq> [])"
proof -
  note rec = recorded_agg_of [OF agg, of rs]
  obtain agg' batches where f: "(agg', batches) = flush order (agg_of (agg_points agg) rs) ws we"
    by (metis surj_pair)
  show ?thesis
    using flush_batches [OF order f] unfolding rec batch_points_window [OF len]
    by (simp flip: f)
qed

theorem flush_publishes_witness:
  "distinct (map ab_device_id (snd (flush rev (foldl record_reading (init_from_config ex_config)
      [\<lparr>rd_point_id = \<lparr>pid_device = ''meter'', pid_point = ''power''\<rparr>, rd_value = f64_of_int 5\<rparr>]) 0 60)))"
  using flush_publishes [of "init_from_config ex_config" ex_config rev
      "[\<lparr>rd_point_id = \<lparr>pid_device = ''meter'', pid_point = ''power''\<rparr>, rd_value = f64_of_int 5\<rparr>]" 0 60]
  by simp

text \<open>C23: With a window other than zero that the clock has room for, the first deadline is the next multiple of the window after the wall clock, strictly in the
future and at most one window away; every later one is a whole number of windows after it however
late the timer fires, and the label of the window moves with it.\<close>

theorem aggregator_schedule:
  assumes "w \<noteq> 0" and "now_unix div nanos_per_sec + unat w < 2 ^ 64" and "now + dur_from_secs w \<le> inst_max"
  shows "\<exists>st. agg_start agg w now_unix now = Some st \<and>
    unat w dvd unat (ag_window_end st) \<and>
    now_unix + (ag_deadline st - now) = unat (ag_window_end st) * nanos_per_sec \<and>
    now < ag_deadline st \<and> ag_deadline st \<le> now + dur_from_secs w \<and>
    (\<forall>order evs st'. fst (agg_run order w st evs) = AggRunning st' \<longrightarrow>
       ag_window_end st' = ag_window_end st + of_nat (ticks evs) * w \<and>
       ag_deadline st' = ag_deadline st + ticks evs * dur_from_secs w)"
proof -
  from next_boundary_aligned [OF assms(1,2)] obtain wait b where
    "next_boundary now_unix (dur_from_secs w) = Some (wait, b)" "unat w dvd unat b"
    "now_unix + wait = unat b * nanos_per_sec" "0 < wait" "wait \<le> dur_from_secs w" .
  moreover from this(5) assms(3) have "inst_add now wait = Some (now + wait)" by (simp add: inst_add_def)
  ultimately show ?thesis using agg_run_schedule by (fastforce simp: agg_start_def)
qed

theorem aggregator_schedule_witness:
  "\<exists>st. agg_start (init_from_config ex_config) 60 (dur_from_secs 90 + 5) 7 = Some st \<and>
    60 dvd unat (ag_window_end st) \<and>
    dur_from_secs 90 + 5 + (ag_deadline st - 7) = unat (ag_window_end st) * nanos_per_sec"
proof -
  have "unat (60 :: u64) = 60" by simp
  moreover have "(60 :: u64) \<noteq> 0" by simp
  moreover have "(dur_from_secs 90 + 5) div nanos_per_sec + unat (60 :: u64) < 2 ^ 64"
    by (simp add: dur_from_secs_def nanos_per_sec_def)
  moreover have "7 + dur_from_secs 60 \<le> inst_max"
    by (simp add: dur_from_secs_def inst_max_def nanos_per_sec_def)
  ultimately show ?thesis
    using aggregator_schedule [of 60 "dur_from_secs 90 + 5" 7 "init_from_config ex_config"] by metis
qed

text \<open>C40: One NaN among the readings recorded in a window (a device that answers with the bits of a NaN in
an \<open>f32\<close> register) makes the mean that its point publishes at the flush NaN, whatever the other samples are.\<close>

theorem nan_poisons_window:
  assumes "mset agg = mset (init_from_config config)"
    and "\<And>m. mset (order m) = mset m" and "length rs < 2 ^ 32"
    and "map_of (rev (config_points config)) pid = Some u"
    and "\<lparr>rd_point_id = pid, rd_value = F64_NaN\<rparr> \<in> set rs"
  shows "\<exists>b p. b \<in> set (snd (flush order (foldl record_reading agg rs) ws we)) \<and>
    ab_device_id b = pid_device pid \<and> p \<in> set (ab_points b) \<and>
    ap_name p = pid_point pid \<and> ap_unit p = u \<and> ap_mean p = F64_NaN"
proof -
  let ?pts = "agg_points agg" and ?p = "\<lparr>ap_name = pid_point pid, ap_unit = u, ap_mean = F64_NaN\<rparr>"
  let ?b = "\<lparr>ab_device_id = pid_device pid, ab_window_start = ws, ab_window_end = we,
    ab_points = window_points ?pts rs (pid_device pid)\<rparr>"
  have nan: "F64_NaN \<in> set (samples rs pid)" using assms(5) by (force simp: samples_def)
  have "(pid, u) \<in> set ?pts" using init_agg_points(3) [OF assms(1)] assms(4) by blast
  then have p: "?p \<in> set (ab_points ?b)"
    using nan mean_of_NaN [OF nan] by (force simp: window_points_def)
  obtain agg' batches where f: "(agg', batches) = flush order (agg_of ?pts rs) ws we" by (metis surj_pair)
  have "window_points ?pts rs (pid_device pid) \<noteq> []" using p by auto
  then have "?b \<in> set batches"
    using flush_batches(2) [OF assms(2) f, of ?b] unfolding batch_points_window [OF assms(3)] by simp
  with p f show ?thesis unfolding recorded_agg_of [OF assms(1)] by (intro exI [of _ ?b] exI [of _ ?p]) (metis snd_conv AggregatedBatch.select_convs(1) AggregatedPoint.select_convs)
qed

theorem nan_poisons_window_witness:
  "\<exists>b p. b \<in> set (snd (flush rev (foldl record_reading (init_from_config ex_config)
       [\<lparr>rd_point_id = \<lparr>pid_device = ''inverter'', pid_point = ''temp''\<rparr>, rd_value = f64_one\<rparr>,
        \<lparr>rd_point_id = \<lparr>pid_device = ''inverter'', pid_point = ''temp''\<rparr>, rd_value = F64_NaN\<rparr>]) 0 60)) \<and>
    ab_device_id b = ''inverter'' \<and> p \<in> set (ab_points b) \<and> ap_mean p = F64_NaN"
  using nan_poisons_window [of "init_from_config ex_config" ex_config rev
      "[\<lparr>rd_point_id = \<lparr>pid_device = ''inverter'', pid_point = ''temp''\<rparr>, rd_value = f64_one\<rparr>,
        \<lparr>rd_point_id = \<lparr>pid_device = ''inverter'', pid_point = ''temp''\<rparr>, rd_value = F64_NaN\<rparr>]"
      "\<lparr>pid_device = ''inverter'', pid_point = ''temp''\<rparr>" "''Cel''" 0 60]
  by (fastforce simp: config_points_def device_points_def ex_defs)

end
