(* ===== verification/Utf8.thy ===== *)
theory Utf8
  imports Gw_Prelude
begin

text \<open>
  The parts of \<open>str\<close> that cut a string by byte positions: character boundaries, \<open>rfind\<close> and the
  panic of a cut that is not on a boundary. \<open>utf8_shape\<close> is what the well-formedness of a \<open>String\<close>
  gives about its bytes: a continuation byte is never first and never follows an ASCII byte.
\<close>

definition is_cont :: "char \<Rightarrow> bool" where
  "is_cont c \<longleftrightarrow> 128 \<le> (of_char c :: nat) \<and> (of_char c :: nat) < 192"

definition is_ascii :: "char \<Rightarrow> bool" where
  "is_ascii c \<longleftrightarrow> (of_char c :: nat) < 128"

definition utf8_shape :: "string \<Rightarrow> bool" where
  "utf8_shape s \<longleftrightarrow> (\<forall>i < length s. is_cont (s ! i) \<longrightarrow> 0 < i \<and> \<not> is_ascii (s ! (i - 1)))"

lemma ascii_not_cont: "is_ascii c \<Longrightarrow> \<not> is_cont c"
  by (simp add: is_ascii_def is_cont_def)

lemma utf8_shape_Nil [simp]: "utf8_shape []"
  by (simp add: utf8_shape_def)

lemma utf8_shape_append [intro]:
  assumes "utf8_shape a" and "utf8_shape b"
  shows "utf8_shape (a @ b)"
  unfolding utf8_shape_def
proof (intro allI impI)
  fix i assume i: "i < length (a @ b)" and c: "is_cont ((a @ b) ! i)"
  show "0 < i \<and> \<not> is_ascii ((a @ b) ! (i - 1))"
  proof (cases "i < length a")
    case True
    with c assms(1) have "0 < i \<and> \<not> is_ascii (a ! (i - 1))" by (auto simp: utf8_shape_def nth_append)
    with True show ?thesis by (simp add: nth_append less_imp_diff_less)
  next
    case False
    then have "i - length a < length b" "is_cont (b ! (i - length a))" using c i by (auto simp: nth_append)
    with assms(2) have "0 < i - length a \<and> \<not> is_ascii (b ! (i - length a - 1))"
      unfolding utf8_shape_def by blast
    then have "0 < i" "\<not> i - 1 < length a" "i - 1 - length a = i - length a - 1" by linarith+
    with \<open>0 < i - length a \<and> _\<close> show ?thesis by (simp add: nth_append)
  qed
qed

lemma utf8_shape_ascii: "list_all is_ascii s \<Longrightarrow> utf8_shape s"
  by (auto simp: utf8_shape_def list_all_length dest: ascii_not_cont)

lemma utf8_shape_concat: "\<forall>s \<in> set ss. utf8_shape s \<Longrightarrow> utf8_shape (concat ss)"
  by (induction ss) auto

lemma utf8_shape_join: "utf8_shape sep \<Longrightarrow> \<forall>s \<in> set ss. utf8_shape s \<Longrightarrow> utf8_shape (join sep ss)"
  by (induction sep ss rule: join.induct) auto

lemma digits_ascii: "list_all is_ascii (digits n)"
proof (induction n rule: digits.induct)
  case (1 n)
  have d: "is_ascii (char_of (48 + m))" if "m < 10" for m :: nat
    using that by (simp add: is_ascii_def)
  show ?case
    using 1 d [of n] d [of "n mod 10"] by (subst digits.simps) simp
qed

lemma utf8_shape_show_nat [simp]: "utf8_shape (show_nat n)"
  unfolding show_nat_def by (rule utf8_shape_ascii [OF digits_ascii])

definition is_char_boundary :: "string \<Rightarrow> nat \<Rightarrow> bool" where
  "is_char_boundary s i \<longleftrightarrow> i = 0 \<or> i = length s \<or> i < length s \<and> \<not> is_cont (s ! i)"

text \<open>\<open>while !s.is_char_boundary(end) { end -= 1 }\<close>.\<close>

primrec boundary_down :: "string \<Rightarrow> nat \<Rightarrow> nat" where
  "boundary_down s 0 = 0"
| "boundary_down s (Suc n) = (if is_char_boundary s (Suc n) then Suc n else boundary_down s n)"

lemma boundary_down_le: "boundary_down s n \<le> n"
  by (induction n) auto

lemma boundary_down_boundary: "is_char_boundary s (boundary_down s n)"
  by (induction n) (auto simp: is_char_boundary_def)

lemma boundary_down_max: "is_char_boundary s i \<Longrightarrow> i \<le> n \<Longrightarrow> i \<le> boundary_down s n"
  by (induction n) (auto simp: le_Suc_eq)

text \<open>\<open>&s[..end]\<close> and \<open>s.truncate(end)\<close>: a panic off a boundary; \<open>truncate\<close> does nothing past the end.\<close>

definition str_take :: "string \<Rightarrow> nat \<Rightarrow> string option" where
  "str_take s i = (if is_char_boundary s i then Some (take i s) else None)"

definition str_truncate :: "string \<Rightarrow> nat \<Rightarrow> string option" where
  "str_truncate s i = (if i \<le> length s then str_take s i else Some s)"

text \<open>\<open>str::rfind\<close> of an ASCII character.\<close>

fun rfind :: "char \<Rightarrow> string \<Rightarrow> nat option" where
  "rfind c [] = None"
| "rfind c (x # xs) =
     (case rfind c xs of Some i \<Rightarrow> Some (Suc i) | None \<Rightarrow> if x = c then Some 0 else None)"

lemma rfind_None_iff: "rfind c s = None \<longleftrightarrow> c \<notin> set s"
  by (induction s) (auto split: option.splits)

lemma rfind_Some: "rfind c s = Some i \<Longrightarrow> i < length s \<and> s ! i = c \<and> (\<forall>j. i < j \<and> j < length s \<longrightarrow> s ! j \<noteq> c)"
proof (induction s arbitrary: i)
  case (Cons x xs)
  show ?case
  proof (cases "rfind c xs")
    case None
    then have "c \<notin> set xs" by (simp add: rfind_None_iff)
    then have "xs ! k \<noteq> c" if "k < length xs" for k using that nth_mem by blast
    then have "(x # xs) ! j \<noteq> c" if "0 < j" "j < Suc (length xs)" for j using that by (cases j) auto
    with Cons.prems None show ?thesis by (auto split: if_splits)
  next
    case (Some k)
    note IH = Cons.IH [OF Some]
    have i: "i = Suc k" using Cons.prems Some by simp
    have "(x # xs) ! j \<noteq> c" if "Suc k < j" "j < Suc (length xs)" for j
      using that IH by (cases j) auto
    with IH i show ?thesis by auto
  qed
qed simp

text \<open>The position after a newline is a boundary.\<close>

lemma boundary_after_ascii:
  assumes "utf8_shape s" and "i < length s" and "is_ascii (s ! i)"
  shows "is_char_boundary s (Suc i)"
proof (cases "Suc i = length s")
  case False
  with assms(2) have i: "Suc i < length s" by simp
  then have "\<not> is_cont (s ! Suc i)" using assms(1,3) unfolding utf8_shape_def by force
  with i show ?thesis by (simp add: is_char_boundary_def)
qed (simp add: is_char_boundary_def)

end
