(* ===== verification/Channel.thy ===== *)
theory Channel
  imports Gw_Prelude
begin

text \<open>
  The bounded channels between the tasks (\<open>tokio::sync::mpsc\<close>): the documented behaviour as locales,
  with what their users need proved once over them. The gateway's channels of readings, batches and
  status events are parameters of the model that satisfy them; a queue that does is at the end.
\<close>

section \<open>The interface\<close>

text \<open>\<open>send\<close> is \<open>try_send\<close>; a \<open>send().await\<close> is a \<open>send\<close> that is repeated until it is not refused.\<close>

datatype send_result = SendOk | SendFull | SendClosed

text \<open>
  What was accepted so far is what was taken out followed by what is still queued, in order: nothing
  is lost, duplicated or reordered, and the queue stays within its capacity.
\<close>

definition conserved :: "('c \<Rightarrow> 'a list) \<Rightarrow> nat \<Rightarrow> 'a list \<Rightarrow> 'a list \<Rightarrow> 'c \<Rightarrow> bool" where
  "conserved items cap accepted taken c \<longleftrightarrow> accepted = taken @ items c \<and> length (items c) \<le> cap"

lemma conserved_empty: "items c = [] \<Longrightarrow> conserved items cap [] [] c"
  by (simp add: conserved_def)

locale channel =
  fixes send :: "'a \<Rightarrow> 'c \<Rightarrow> send_result \<times> 'c"
    and recv :: "'c \<Rightarrow> ('a \<times> 'c) option"
    and items :: "'c \<Rightarrow> 'a list"
    and cap :: nat
  assumes send_ok: "send x c = (SendOk, c') \<Longrightarrow> items c' = items c @ [x] \<and> length (items c) < cap"
    and send_refused: "send x c = (r, c') \<Longrightarrow> r \<noteq> SendOk \<Longrightarrow> items c' = items c"
    and send_full: "send x c = (SendFull, c') \<Longrightarrow> cap \<le> length (items c)"
    and recv_Some: "recv c = Some (x, c') \<Longrightarrow> items c = x # items c'"
    and recv_None: "recv c = None \<longleftrightarrow> items c = []"
begin

lemma conserved_send:
  assumes "conserved items cap accepted taken c" and "send x c = (SendOk, c')"
  shows "conserved items cap (accepted @ [x]) taken c'"
  using assms(1) send_ok [OF assms(2)] by (simp add: conserved_def)

lemma conserved_refused:
  assumes "conserved items cap accepted taken c" and "send x c = (r, c')" and "r \<noteq> SendOk"
  shows "conserved items cap accepted taken c'"
  using assms(1) send_refused [OF assms(2,3)] by (simp add: conserved_def)

lemma conserved_recv:
  assumes "conserved items cap accepted taken c" and "recv c = Some (x, c')"
  shows "conserved items cap accepted (taken @ [x]) c'"
  using assms(1) recv_Some [OF assms(2)] by (simp add: conserved_def)

lemma recv_nonempty: "items c \<noteq> [] \<Longrightarrow> \<exists>x c'. recv c = Some (x, c') \<and> items c = x # items c'"
  using recv_None [of c] recv_Some by fastforce

end

text \<open>A channel whose receiver is there, and one whose receiver is gone.\<close>

locale open_channel = channel +
  assumes send_open: "fst (send x c) \<noteq> SendClosed"
begin

lemma send_room:
  assumes "length (items c) < cap"
  shows "\<exists>c'. send x c = (SendOk, c') \<and> items c' = items c @ [x]"
proof (cases "send x c")
  case (Pair r c')
  then show ?thesis
    using assms send_open [of x c] send_full [of x c c'] send_ok [of x c c'] by (cases r) auto
qed

end

locale closed_channel = channel +
  assumes send_closed: "fst (send x c) = SendClosed"
begin

lemma send_gone: "send x c = (r, c') \<Longrightarrow> r = SendClosed \<and> items c' = items c"
  using send_closed [of x c] send_refused [of x c r c'] by auto

end

section \<open>A channel as a parameter\<close>

text \<open>The operations of a channel; the first argument of \<open>ch_send\<close>: its receiver is still there.\<close>

record ('a, 'c) chan =
  ch_new :: 'c
  ch_send :: "bool \<Rightarrow> 'a \<Rightarrow> 'c \<Rightarrow> send_result \<times> 'c"
  ch_recv :: "'c \<Rightarrow> ('a \<times> 'c) option"
  ch_items :: "'c \<Rightarrow> 'a list"

definition chan_ok :: "nat \<Rightarrow> ('a, 'c) chan \<Rightarrow> bool" where
  "chan_ok cap ch \<longleftrightarrow> open_channel (ch_send ch True) (ch_recv ch) (ch_items ch) cap \<and>
     closed_channel (ch_send ch False) (ch_recv ch) (ch_items ch) cap \<and> ch_items ch (ch_new ch) = []"

lemma chan_okD:
  assumes "chan_ok cap ch"
  shows "open_channel (ch_send ch True) (ch_recv ch) (ch_items ch) cap"
    and "closed_channel (ch_send ch False) (ch_recv ch) (ch_items ch) cap"
    and "channel (ch_send ch opened) (ch_recv ch) (ch_items ch) cap"
    and "ch_items ch (ch_new ch) = []"
  using assms unfolding chan_ok_def
  by (blast, blast, cases opened, auto dest: open_channel.axioms closed_channel.axioms)

section \<open>A queue\<close>

definition queue_send :: "nat \<Rightarrow> bool \<Rightarrow> 'a \<Rightarrow> 'a list \<Rightarrow> send_result \<times> 'a list" where
  "queue_send cap opened x q =
     (if \<not> opened then (SendClosed, q) else if length q < cap then (SendOk, q @ [x]) else (SendFull, q))"

fun queue_recv :: "'a list \<Rightarrow> ('a \<times> 'a list) option" where
  "queue_recv [] = None"
| "queue_recv (x # q) = Some (x, q)"

lemma queue_recv_iff:
  "queue_recv q = None \<longleftrightarrow> q = []" "queue_recv q = Some (x, q') \<longleftrightarrow> q = x # q'"
  by (cases q; auto)+

interpretation mpsc_open: open_channel "queue_send cap True" queue_recv "\<lambda>q. q" cap
  by unfold_locales (auto simp: queue_send_def queue_recv_iff split: if_splits)

interpretation mpsc_closed: closed_channel "queue_send cap False" queue_recv "\<lambda>q. q" cap
  by unfold_locales (auto simp: queue_send_def queue_recv_iff)

definition queue_chan :: "nat \<Rightarrow> ('a, 'a list) chan" where
  "queue_chan cap = \<lparr>ch_new = [], ch_send = queue_send cap, ch_recv = queue_recv, ch_items = (\<lambda>q. q)\<rparr>"

lemma queue_chan_ok: "chan_ok cap (queue_chan cap)"
  by (simp add: chan_ok_def queue_chan_def mpsc_open.open_channel_axioms mpsc_closed.closed_channel_axioms)

end
