(* ===== verification/Status.thy ===== *)
theory Status
  imports Schema Utf8 Clock Channel Example_Config "HOL-Library.Sublist"
begin

text \<open>
  \<open>src/status.rs\<close>: the state the status file shows, its updates, the rendering with its size cap, the
  atomic replacement of the file and the write policy of the reporter task. A UTC time is a value of
  the type variable \<open>'t\<close>; its formatting belongs to the crate \<open>time\<close> and is the parameter \<open>fmt\<close>
  (\<open>None\<close> is a formatting error).
\<close>

section \<open>Events and state\<close>

datatype StatusEvent =
    ConnectionUp string
  | ConnectionDown string
  | DeviceOk string string
  | DeviceProblem string string string
  | MqttConnected
  | MqttDisconnected

datatype 't Health = HealthUnknown | HealthOk | HealthProblem string 't

record 't DeviceStatus =
  ds_id :: string
  ds_health :: "'t Health"

record 't ConnectionStatus =
  cs_id :: string
  cs_up :: bool
  cs_devices :: "'t DeviceStatus list"

record 't StatusState =
  ss_gateway_id :: string
  ss_broker :: string
  ss_mqtt_connected :: bool
  ss_connections :: "'t ConnectionStatus list"

definition StatusState_new ::
  "string \<Rightarrow> string \<Rightarrow> (string \<times> string list) list \<Rightarrow> 't StatusState" where
  "StatusState_new gateway_id broker connections =
     \<lparr>ss_gateway_id = gateway_id, ss_broker = broker, ss_mqtt_connected = False,
      ss_connections = map (\<lambda>(id, devices). \<lparr>cs_id = id, cs_up = False,
          cs_devices = map (\<lambda>d. \<lparr>ds_id = d, ds_health = HealthUnknown\<rparr>) devices\<rparr>) connections\<rparr>"

definition StatusState_from_config :: "Config \<Rightarrow> 't StatusState" where
  "StatusState_from_config config =
     StatusState_new (gw_id (cf_gateway config))
       (mq_broker_host (cf_mqtt config) @ '':'' @ show_nat (unat (mq_broker_port (cf_mqtt config))))
       (map (\<lambda>c. (cn_id c, map dv_id (cn_devices c))) (cf_connections config))"

text \<open>\<open>replace\<close>: the new value of the slot, and whether it changed.\<close>

definition replace :: "bool \<Rightarrow> bool \<Rightarrow> bool \<times> bool" where
  "replace slot value = (value, slot \<noteq> value)"

text \<open>
  \<open>iter_mut().find(p)\<close> followed by a change of the element found, which returns a value; \<open>None\<close> when
  no element satisfies the predicate.
\<close>

fun find_mut :: "('a \<Rightarrow> bool) \<Rightarrow> ('a \<Rightarrow> 'a \<times> 'r) \<Rightarrow> 'a list \<Rightarrow> ('a list \<times> 'r) option" where
  "find_mut P f [] = None"
| "find_mut P f (x # xs) =
     (if P x then (case f x of (x', r) \<Rightarrow> Some (x' # xs, r))
      else map_option (\<lambda>(xs', r). (x # xs', r)) (find_mut P f xs))"

definition with_connection ::
  "'t StatusState \<Rightarrow> string \<Rightarrow> ('t ConnectionStatus \<Rightarrow> 't ConnectionStatus \<times> bool) \<Rightarrow> 't StatusState \<times> bool" where
  "with_connection st cid f =
     (case find_mut (\<lambda>c. cs_id c = cid) f (ss_connections st) of
        None \<Rightarrow> (st, False)
      | Some (cs, r) \<Rightarrow> (st\<lparr>ss_connections := cs\<rparr>, r))"

definition set_health_conn ::
  "string \<Rightarrow> ('t Health \<Rightarrow> 't Health) \<Rightarrow> 't ConnectionStatus \<Rightarrow> 't ConnectionStatus \<times> bool" where
  "set_health_conn device_id health conn =
     (case find_mut (\<lambda>d. ds_id d = device_id)
        (\<lambda>d. let new = health (ds_health d) in (d\<lparr>ds_health := new\<rparr>, ds_health d \<noteq> new)) (cs_devices conn) of
        None \<Rightarrow> (conn, False)
      | Some (ds, changed) \<Rightarrow>
          (let (up, conn_changed) = replace (cs_up conn) True
           in (conn\<lparr>cs_up := up, cs_devices := ds\<rparr>, conn_changed \<or> changed)))"

definition set_health ::
  "'t StatusState \<Rightarrow> string \<Rightarrow> string \<Rightarrow> ('t Health \<Rightarrow> 't Health) \<Rightarrow> 't StatusState \<times> bool" where
  "set_health st connection_id device_id health =
     with_connection st connection_id (set_health_conn device_id health)"

definition conn_came_up :: "'t ConnectionStatus \<Rightarrow> 't ConnectionStatus \<times> bool" where
  "conn_came_up conn =
     (if cs_up conn then (conn, False)
      else (conn\<lparr>cs_up := True, cs_devices := map (\<lambda>d. d\<lparr>ds_health := HealthUnknown\<rparr>) (cs_devices conn)\<rparr>, True))"

definition problem_since :: "string \<Rightarrow> 't \<Rightarrow> 't Health \<Rightarrow> 't Health" where
  "problem_since reason now old =
     (case old of HealthProblem _ since \<Rightarrow> HealthProblem reason since | _ \<Rightarrow> HealthProblem reason now)"

definition apply_event :: "'t StatusState \<Rightarrow> StatusEvent \<Rightarrow> 't \<Rightarrow> 't StatusState \<times> bool" where
  "apply_event st event now =
     (case event of
        MqttConnected \<Rightarrow>
          (let (v, r) = replace (ss_mqtt_connected st) True in (st\<lparr>ss_mqtt_connected := v\<rparr>, r))
      | MqttDisconnected \<Rightarrow>
          (let (v, r) = replace (ss_mqtt_connected st) False in (st\<lparr>ss_mqtt_connected := v\<rparr>, r))
      | ConnectionUp connection_id \<Rightarrow> with_connection st connection_id conn_came_up
      | ConnectionDown connection_id \<Rightarrow>
          with_connection st connection_id (\<lambda>conn.
            let (up, r) = replace (cs_up conn) False in (conn\<lparr>cs_up := up\<rparr>, r))
      | DeviceOk connection_id device_id \<Rightarrow> set_health st connection_id device_id (\<lambda>_. HealthOk)
      | DeviceProblem connection_id device_id reason \<Rightarrow>
          set_health st connection_id device_id (problem_since reason now))"

section \<open>Rendering\<close>

definition MAX_STATUS_BYTES :: nat where "MAX_STATUS_BYTES = 2048"

record 't utc_fmt =
  uf_timestamp :: "'t \<Rightarrow> string option"
  uf_time_of_day :: "'t \<Rightarrow> string option"

definition format_utc :: "('t \<Rightarrow> string option) \<Rightarrow> 't \<Rightarrow> string" where
  "format_utc f t = (case f t of Some s \<Rightarrow> s | None \<Rightarrow> ''?'')"

definition render_device :: "'t utc_fmt \<Rightarrow> 't DeviceStatus \<Rightarrow> string list" where
  "render_device fmt d =
     (case ds_health d of
        HealthProblem reason since \<Rightarrow>
          [ds_id d @ '': '' @ reason @ '' since '' @ format_utc (uf_time_of_day fmt) since]
      | _ \<Rightarrow> [])"

definition render_connection :: "'t utc_fmt \<Rightarrow> 't ConnectionStatus \<Rightarrow> string" where
  "render_connection fmt conn =
     (if \<not> cs_up conn then ''connection '' @ cs_id conn @ '': down'' @ [newline]
      else
        (let ok = length (filter (\<lambda>d. ds_health d = HealthOk) (cs_devices conn));
             problems = concat (map (render_device fmt) (cs_devices conn))
         in ''connection '' @ cs_id conn @ '': up, '' @ show_nat ok @ ''/'' @
            show_nat (length (cs_devices conn)) @ '' devices ok'' @
            (if problems \<noteq> [] then '' ('' @ join '', '' problems @ '')'' else []) @ [newline]))"

definition render_full :: "'t utc_fmt \<Rightarrow> 't StatusState \<Rightarrow> 't \<Rightarrow> string" where
  "render_full fmt st now =
     ''gateway: '' @ ss_gateway_id st @ [newline] @
     ''updated: '' @ format_utc (uf_timestamp fmt) now @ [newline] @
     ''mqtt: '' @ (if ss_mqtt_connected st then ''connected'' else ''disconnected'') @
       '' ('' @ ss_broker st @ '')'' @ [newline] @
     concat (map (render_connection fmt) (ss_connections st))"

definition status_truncate :: "string \<Rightarrow> string option" where
  "status_truncate s =
     (if length s \<le> MAX_STATUS_BYTES then Some s
      else let end = boundary_down s MAX_STATUS_BYTES
           in Option.bind (str_take s end) (\<lambda>head.
                str_truncate s (case rfind newline head of Some n \<Rightarrow> n + 1 | None \<Rightarrow> end)))"

definition render_status :: "'t utc_fmt \<Rightarrow> 't StatusState \<Rightarrow> 't \<Rightarrow> string option" where
  "render_status fmt st now = status_truncate (render_full fmt st now)"

section \<open>Replacing the file\<close>

text \<open>
  The files of the directory as a map from paths to contents. \<open>write_atomic\<close> gives its result and the
  contents of the file system after each of its system calls, in order; what a reader can see at any
  time is one of them. \<open>wio\<close> says which calls fail, and how many bytes a failed \<open>write_all\<close> left.
\<close>

type_synonym files = "string \<rightharpoonup> string"

record write_io =
  wio_create :: "string option"
  wio_write :: "(string \<times> nat) option"
  wio_sync :: "string option"
  wio_rename :: "string option"

definition tmp_path :: "string \<Rightarrow> string" where
  "tmp_path path = path @ ''.tmp''"

definition write_atomic :: "write_io \<Rightarrow> files \<Rightarrow> string \<Rightarrow> string \<Rightarrow> (string + unit) \<times> files list" where
  "write_atomic wio fs path contents =
     (let tmp = tmp_path path in
      case wio_create wio of
        Some e \<Rightarrow> (Inl e, [fs])
      | None \<Rightarrow>
          (let fs1 = fs(tmp \<mapsto> []) in
           case wio_write wio of
             Some (e, n) \<Rightarrow> (Inl e, [fs, fs1, fs1(tmp \<mapsto> take n contents)])
           | None \<Rightarrow>
               (let fs2 = fs1(tmp \<mapsto> contents) in
                case wio_sync wio of
                  Some e \<Rightarrow> (Inl e, [fs, fs1, fs2])
                | None \<Rightarrow>
                    (case wio_rename wio of
                       Some e \<Rightarrow> (Inl e, [fs, fs1, fs2])
                     | None \<Rightarrow> (Inr (), [fs, fs1, fs2, fs2(tmp := None, path := fs2 tmp)])))))"

section \<open>The sending side\<close>

text \<open>
  \<open>StatusReporter\<close>: the sending end of the channel of events, or none. The result of \<open>try_send\<close> is
  ignored: an event is dropped when the channel is full or its receiver is gone (\<open>opened\<close> is false).
\<close>

definition STATUS_CHANNEL_CAPACITY :: nat where "STATUS_CHANNEL_CAPACITY = 256"

type_synonym 'c StatusReporter = "'c option"

definition reporter_new :: "'c \<Rightarrow> 'c StatusReporter" where "reporter_new tx = Some tx"

definition reporter_disabled :: "'c StatusReporter" where "reporter_disabled = None"

definition reporter_report ::
  "(StatusEvent, 'c) chan \<Rightarrow> bool \<Rightarrow> 'c StatusReporter \<Rightarrow> StatusEvent \<Rightarrow> 'c StatusReporter" where
  "reporter_report ch opened reporter ev =
     (case reporter of None \<Rightarrow> None | Some tx \<Rightarrow> Some (snd (ch_send ch opened ev tx)))"

section \<open>The reporter task\<close>

text \<open>
  \<open>run_loop\<close>, one \<open>select!\<close> branch at a time. An event carries the clock readings its branch takes:
  the UTC time and, where the code reads it, the monotonic time (for a write: after the write).
\<close>

datatype 't writer_event =
    WriterRecv StatusEvent 't instant
  | WriterClosed 't
  | WriterTimer 't instant

record 't writer =
  wr_state :: "'t StatusState"
  wr_next_heartbeat :: instant
  wr_pending :: "instant option"

datatype 't writer_result = WriterRunning "'t writer" | WriterReturned | WriterPanicked

definition writer_deadline :: "'t writer \<Rightarrow> instant" where
  "writer_deadline w =
     (case wr_pending w of None \<Rightarrow> wr_next_heartbeat w | Some p \<Rightarrow> min p (wr_next_heartbeat w))"

text \<open>A write of the rendered state, and what follows it; a panic in the rendering ends the task, and so
does one in the addition to the current instant after the write.\<close>

definition writer_write ::
  "'t utc_fmt \<Rightarrow> 't StatusState \<Rightarrow> 't \<Rightarrow> 't writer_result \<Rightarrow> 't writer_result \<times> string list" where
  "writer_write fmt st now k =
     (case render_status fmt st now of None \<Rightarrow> (WriterPanicked, []) | Some s \<Rightarrow> (k, [s]))"

definition writer_start ::
  "'t utc_fmt \<Rightarrow> duration \<Rightarrow> 't StatusState \<Rightarrow> 't \<Rightarrow> instant \<Rightarrow> 't writer_result \<times> string list" where
  "writer_start fmt heartbeat st utc now =
     writer_write fmt st utc
       (case inst_add now heartbeat of
          None \<Rightarrow> WriterPanicked
        | Some next \<Rightarrow> WriterRunning \<lparr>wr_state = st, wr_next_heartbeat = next, wr_pending = None\<rparr>)"

definition writer_step ::
  "'t utc_fmt \<Rightarrow> duration \<Rightarrow> duration \<Rightarrow> 't writer \<Rightarrow> 't writer_event \<Rightarrow> 't writer_result \<times> string list" where
  "writer_step fmt debounce heartbeat w ev =
     (case ev of
        WriterRecv event utc now \<Rightarrow>
          (let (st, changed) = apply_event (wr_state w) event utc
           in (if changed \<and> wr_pending w = None
               then (case inst_add now debounce of
                       None \<Rightarrow> WriterPanicked
                     | Some due \<Rightarrow> WriterRunning (w\<lparr>wr_state := st, wr_pending := Some due\<rparr>))
               else WriterRunning (w\<lparr>wr_state := st\<rparr>), []))
      | WriterClosed utc \<Rightarrow>
          (if wr_pending w \<noteq> None then writer_write fmt (wr_state w) utc WriterReturned else (WriterReturned, []))
      | WriterTimer utc now \<Rightarrow>
          writer_write fmt (wr_state w) utc
            (case inst_add now heartbeat of
               None \<Rightarrow> WriterPanicked
             | Some next \<Rightarrow> WriterRunning (w\<lparr>wr_pending := None, wr_next_heartbeat := next\<rparr>)))"

primrec writer_run ::
  "'t utc_fmt \<Rightarrow> duration \<Rightarrow> duration \<Rightarrow> 't writer \<Rightarrow> 't writer_event list \<Rightarrow> 't writer_result \<times> string list" where
  "writer_run fmt debounce heartbeat w [] = (WriterRunning w, [])"
| "writer_run fmt debounce heartbeat w (ev # evs) =
     (case writer_step fmt debounce heartbeat w ev of
        (WriterRunning w', out) \<Rightarrow>
          (case writer_run fmt debounce heartbeat w' evs of (r, out') \<Rightarrow> (r, out @ out'))
      | (r, out) \<Rightarrow> (r, out))"

text \<open>
  The closure that \<open>run_status_writer\<close> passes: every content is written with \<open>write_atomic\<close>, and a
  failure is only logged. The result lists what the file system holds after each system call.
\<close>

primrec run_status_writer :: "string \<Rightarrow> files \<Rightarrow> (string \<times> write_io) list \<Rightarrow> files list" where
  "run_status_writer path fs [] = [fs]"
| "run_status_writer path fs (cw # cws) =
     (let (result, seen) = write_atomic (snd cw) fs path (fst cw)
      in seen @ run_status_writer path (last seen) cws)"

section \<open>What an event changes\<close>

lemma find_mut_find:
  assumes "\<And>x. key (fst (f x)) = key x"
  shows "find (\<lambda>x. key x = k') (case find_mut (\<lambda>x. key x = k) f xs of None \<Rightarrow> xs | Some (ys, r) \<Rightarrow> ys) =
    (if k' = k then map_option (fst \<circ> f) (find (\<lambda>x. key x = k) xs) else find (\<lambda>x. key x = k') xs)"
proof (induction xs)
  case (Cons x xs)
  then show ?case
    using assms [of x] by (auto simp: comp_def split: option.splits prod.splits)
qed simp

lemma find_mut_changed:
  assumes "\<And>x. snd (f x) \<longleftrightarrow> fst (f x) \<noteq> x"
  shows "find_mut P f xs = Some (ys, r) \<Longrightarrow> r \<longleftrightarrow> ys \<noteq> xs"
proof (induction xs arbitrary: ys)
  case (Cons x xs)
  then show ?case using assms [of x] by (auto split: if_splits prod.splits)
qed simp

lemma find_mut_keys:
  assumes "\<And>x. key (fst (f x)) = key x"
  shows "find_mut P f xs = Some (ys, r) \<Longrightarrow> map key ys = map key xs"
proof (induction xs arbitrary: ys)
  case (Cons x xs)
  then show ?case using assms [of x] by (auto split: if_splits prod.splits)
qed simp

lemma find_mut_None_iff: "find_mut P f xs = None \<longleftrightarrow> find P xs = None"
  by (induction xs) (auto split: prod.splits)

lemma with_connection_changed:
  assumes "\<And>c. snd (f c) \<longleftrightarrow> fst (f c) \<noteq> c"
  shows "snd (with_connection st cid f) \<longleftrightarrow> fst (with_connection st cid f) \<noteq> st"
  using find_mut_changed [of f, OF assms]
  by (cases st) (auto simp: with_connection_def split: option.splits prod.splits)

lemma set_health_conn_changed:
  "snd (set_health_conn d h c) \<longleftrightarrow> fst (set_health_conn d h c) \<noteq> c"
proof -
  let ?f = "\<lambda>d. let new = h (ds_health d) in (d\<lparr>ds_health := new\<rparr>, ds_health d \<noteq> new)"
  have f: "snd (?f d) \<longleftrightarrow> fst (?f d) \<noteq> d" for d by (cases d) (auto simp: Let_def)
  show ?thesis
    using find_mut_changed [of ?f, OF f]
    by (cases c) (auto simp: set_health_conn_def replace_def split: option.splits prod.splits)
qed

lemma conn_came_up_changed: "snd (conn_came_up c) \<longleftrightarrow> fst (conn_came_up c) \<noteq> c"
  by (cases c) (simp add: conn_came_up_def)

lemma apply_event_changed: "snd (apply_event st ev now) \<longleftrightarrow> fst (apply_event st ev now) \<noteq> st"
proof (cases ev)
  case (ConnectionDown c)
  have "snd (let (up, r) = replace (cs_up c) False in (c\<lparr>cs_up := up\<rparr>, r)) \<longleftrightarrow>
      fst (let (up, r) = replace (cs_up c) False in (c\<lparr>cs_up := up\<rparr>, r)) \<noteq> c" for c :: "'a ConnectionStatus"
    by (cases c) (auto simp: replace_def)
  from with_connection_changed [OF this] show ?thesis by (simp add: apply_event_def ConnectionDown)
qed (cases st; auto simp: apply_event_def replace_def set_health_def
      with_connection_changed [OF conn_came_up_changed] with_connection_changed [OF set_health_conn_changed])+

text \<open>The shape of the state: what the configuration fixes and no event changes.\<close>

definition conn_shape :: "'t ConnectionStatus \<Rightarrow> string \<times> string list" where
  "conn_shape conn = (cs_id conn, map ds_id (cs_devices conn))"

definition status_shape :: "'t StatusState \<Rightarrow> string \<times> string \<times> (string \<times> string list) list" where
  "status_shape st = (ss_gateway_id st, ss_broker st, map conn_shape (ss_connections st))"

definition config_shape :: "Config \<Rightarrow> string \<times> string \<times> (string \<times> string list) list" where
  "config_shape config =
     (gw_id (cf_gateway config),
      mq_broker_host (cf_mqtt config) @ '':'' @ show_nat (unat (mq_broker_port (cf_mqtt config))),
      map (\<lambda>c. (cn_id c, map dv_id (cn_devices c))) (cf_connections config))"

lemma from_config_shape: "status_shape (StatusState_from_config config) = config_shape config"
  by (simp add: status_shape_def conn_shape_def config_shape_def StatusState_from_config_def StatusState_new_def
      comp_def)

lemma with_connection_shape:
  assumes "\<And>c. conn_shape (fst (f c)) = conn_shape c"
  shows "status_shape (fst (with_connection st cid f)) = status_shape st"
  using find_mut_keys [of conn_shape f, OF assms]
  by (auto simp: with_connection_def status_shape_def split: option.split)

lemma status_shape_mqtt [simp]: "status_shape (st\<lparr>ss_mqtt_connected := b\<rparr>) = status_shape st"
  by (simp add: status_shape_def)

lemma set_health_conn_shape: "conn_shape (fst (set_health_conn d h c)) = conn_shape c"
  using find_mut_keys [of ds_id "\<lambda>d. let new = h (ds_health d) in (d\<lparr>ds_health := new\<rparr>, ds_health d \<noteq> new)"]
  by (auto simp: set_health_conn_def conn_shape_def replace_def Let_def split: option.split)

lemma apply_event_shape: "status_shape (fst (apply_event st ev now)) = status_shape st"
proof (cases ev)
  case (ConnectionUp c)
  have "conn_shape (fst (conn_came_up x)) = conn_shape x" for x :: "'a ConnectionStatus"
    by (simp add: conn_came_up_def conn_shape_def)
  from with_connection_shape [OF this] show ?thesis by (simp add: ConnectionUp apply_event_def)
next
  case (ConnectionDown c)
  have "conn_shape (fst (let (up, r) = replace (cs_up x) False in (x\<lparr>cs_up := up\<rparr>, r))) = conn_shape x"
    for x :: "'a ConnectionStatus" by (simp add: replace_def conn_shape_def)
  from with_connection_shape [OF this] show ?thesis by (simp add: ConnectionDown apply_event_def)
qed (auto simp: apply_event_def set_health_def with_connection_shape [OF set_health_conn_shape] replace_def)

text \<open>The state as a function of connection and device ids.\<close>

definition conn_of :: "'t StatusState \<Rightarrow> string \<Rightarrow> 't ConnectionStatus option" where
  "conn_of st cid = find (\<lambda>c. cs_id c = cid) (ss_connections st)"

definition up_of :: "'t StatusState \<Rightarrow> string \<Rightarrow> bool option" where
  "up_of st cid = map_option cs_up (conn_of st cid)"

definition health_in :: "'t ConnectionStatus \<Rightarrow> string \<Rightarrow> 't Health option" where
  "health_in conn did = map_option ds_health (find (\<lambda>d. ds_id d = did) (cs_devices conn))"

definition health_of :: "'t StatusState \<Rightarrow> string \<Rightarrow> string \<Rightarrow> 't Health option" where
  "health_of st cid did = Option.bind (conn_of st cid) (\<lambda>conn. health_in conn did)"

lemma conn_of_with_connection:
  assumes "\<And>c. cs_id (fst (f c)) = cs_id c"
  shows "conn_of (fst (with_connection st cid f)) k =
    (if k = cid then map_option (fst \<circ> f) (conn_of st cid) else conn_of st k)"
proof -
  have "ss_connections (fst (with_connection st cid f)) =
      (case find_mut (\<lambda>c. cs_id c = cid) f (ss_connections st) of
         None \<Rightarrow> ss_connections st | Some (ys, r) \<Rightarrow> ys)"
    by (simp add: with_connection_def split: option.split)
  then show ?thesis
    using find_mut_find [of cs_id f k "ss_connections st" cid, OF assms] by (simp add: conn_of_def)
qed

lemma set_health_conn_id: "cs_id (fst (set_health_conn d h c)) = cs_id c"
  by (simp add: set_health_conn_def replace_def split: option.split prod.split)

lemma conn_came_up_id: "cs_id (fst (conn_came_up c)) = cs_id c"
  by (simp add: conn_came_up_def)

lemma find_map_id: "(\<And>x. key (g x) = key x) \<Longrightarrow>
    find (\<lambda>x. key x = k) (map g xs) = map_option g (find (\<lambda>x. key x = k) xs)"
  by (induction xs) auto

lemma health_in_came_up:
  "health_in (fst (conn_came_up c)) did =
     (if cs_up c then health_in c did else map_option (\<lambda>_. HealthUnknown) (health_in c did))"
  by (simp add: health_in_def conn_came_up_def find_map_id [of ds_id] option.map_comp comp_def)

lemma set_health_conn_devices:
  "cs_devices (fst (set_health_conn d h c)) =
     (case find_mut (\<lambda>x. ds_id x = d)
        (\<lambda>x. let new = h (ds_health x) in (x\<lparr>ds_health := new\<rparr>, ds_health x \<noteq> new)) (cs_devices c) of
        None \<Rightarrow> cs_devices c | Some (ys, r) \<Rightarrow> ys)"
  by (simp add: set_health_conn_def replace_def split: option.split)

lemma health_in_set_health:
  "health_in (fst (set_health_conn d h c)) did =
     (if did = d then map_option h (health_in c did) else health_in c did)"
  using find_mut_find [of ds_id
      "\<lambda>x. let new = h (ds_health x) in (x\<lparr>ds_health := new\<rparr>, ds_health x \<noteq> new)" did "cs_devices c" d]
  by (simp add: health_in_def set_health_conn_devices Let_def option.map_comp comp_def)

lemma cs_up_set_health:
  "cs_up (fst (set_health_conn d h c)) \<longleftrightarrow> cs_up c \<or> health_in c d \<noteq> None"
  using find_mut_None_iff [of "\<lambda>x. ds_id x = d"
      "\<lambda>x. let new = h (ds_health x) in (x\<lparr>ds_health := new\<rparr>, ds_health x \<noteq> new)" "cs_devices c"]
  by (auto simp: set_health_conn_def replace_def health_in_def split: option.splits)

text \<open>The effect of every event on the health of every device and the state of every connection.\<close>

lemma health_of_with_connection:
  assumes "\<And>c. cs_id (fst (f c)) = cs_id c"
  shows "health_of (fst (with_connection st cid f)) c d =
    (if c = cid then Option.bind (conn_of st c) (\<lambda>conn. health_in (fst (f conn)) d) else health_of st c d)"
  by (cases "conn_of st cid") (simp_all add: health_of_def conn_of_with_connection [OF assms])

lemma conn_of_mqtt [simp]: "conn_of (st\<lparr>ss_mqtt_connected := b\<rparr>) c = conn_of st c"
  by (simp add: conn_of_def)

lemma health_of_apply:
  "health_of (fst (apply_event st ev now)) c d =
     (case ev of
        ConnectionUp c' \<Rightarrow>
          if c' = c \<and> up_of st c = Some False then map_option (\<lambda>_. HealthUnknown) (health_of st c d)
          else health_of st c d
      | DeviceOk c' d' \<Rightarrow>
          if c' = c \<and> d' = d then map_option (\<lambda>_. HealthOk) (health_of st c d) else health_of st c d
      | DeviceProblem c' d' reason \<Rightarrow>
          if c' = c \<and> d' = d then map_option (problem_since reason now) (health_of st c d)
          else health_of st c d
      | _ \<Rightarrow> health_of st c d)"
proof (cases ev)
  case (ConnectionUp c')
  then show ?thesis
    by (cases "conn_of st c")
      (auto simp: apply_event_def conn_of_with_connection [OF conn_came_up_id] health_in_came_up
        up_of_def health_of_def)
next
  case (ConnectionDown c')
  have keep: "health_of (fst (with_connection st c' f)) c d = health_of st c d"
    if "\<And>conn. cs_id (fst (f conn)) = cs_id conn \<and> cs_devices (fst (f conn)) = cs_devices conn" for f
    using that
    by (cases "c = c'"; cases "conn_of st c") (simp_all add: health_of_def conn_of_with_connection health_in_def)
  show ?thesis
    unfolding ConnectionDown apply_event_def StatusEvent.case by (rule keep) (simp add: replace_def)
qed (cases "conn_of st c"; auto simp: apply_event_def set_health_def replace_def health_of_def
      conn_of_with_connection [OF set_health_conn_id] health_in_set_health)+

lemma up_of_with_connection:
  assumes "\<And>c. cs_id (fst (f c)) = cs_id c"
  shows "up_of (fst (with_connection st cid f)) c =
    (if c = cid then map_option (\<lambda>conn. cs_up (fst (f conn))) (conn_of st c) else up_of st c)"
  by (simp add: up_of_def conn_of_with_connection [OF assms] option.map_comp comp_def)

lemma up_of_apply:
  "up_of (fst (apply_event st ev now)) c =
     (case ev of
        ConnectionUp c' \<Rightarrow> if c' = c then map_option (\<lambda>_. True) (up_of st c) else up_of st c
      | ConnectionDown c' \<Rightarrow> if c' = c then map_option (\<lambda>_. False) (up_of st c) else up_of st c
      | DeviceOk c' d' \<Rightarrow>
          if c' = c \<and> health_of st c d' \<noteq> None then Some True else up_of st c
      | DeviceProblem c' d' reason \<Rightarrow>
          if c' = c \<and> health_of st c d' \<noteq> None then Some True else up_of st c
      | _ \<Rightarrow> up_of st c)"
proof (cases ev)
  case (ConnectionDown c')
  have "cs_id (fst (let (up, r) = replace (cs_up conn) False in (conn\<lparr>cs_up := up\<rparr>, r))) = cs_id conn"
    for conn :: "'a ConnectionStatus" by (simp add: replace_def)
  from up_of_with_connection [OF this] show ?thesis
    by (cases "conn_of st c") (simp_all add: ConnectionDown apply_event_def replace_def up_of_def)
qed (cases "conn_of st c"; auto simp: apply_event_def set_health_def replace_def up_of_def health_of_def
      up_of_with_connection [OF set_health_conn_id, unfolded up_of_def]
      up_of_with_connection [OF conn_came_up_id, unfolded up_of_def] cs_up_set_health conn_came_up_def)+

text \<open>A sequence of events, each with its time of arrival.\<close>

definition apply_all :: "'t StatusState \<Rightarrow> (StatusEvent \<times> 't) list \<Rightarrow> 't StatusState" where
  "apply_all st hist = foldl (\<lambda>st (ev, t). fst (apply_event st ev t)) st hist"

lemma apply_all_simps [simp]:
  "apply_all st [] = st"
  "apply_all st (hist @ [(ev, t)]) = fst (apply_event (apply_all st hist) ev t)"
  "apply_all st ((ev, t) # hist) = apply_all (fst (apply_event st ev t)) hist"
  by (simp_all add: apply_all_def)

definition problem_of :: "string \<Rightarrow> string \<Rightarrow> StatusEvent \<Rightarrow> bool" where
  "problem_of c d ev = (case ev of DeviceProblem c' d' _ \<Rightarrow> c' = c \<and> d' = d | _ \<Rightarrow> False)"

text \<open>
  The history of a device since its result was last cleared: by a success, or by the connection coming up
  again after it was down. \<open>outage\<close>: of the problems reported since then the first was at \<open>since\<close>, and the
  latest has the reason \<open>reason\<close>.
\<close>

definition clears :: "'t StatusState \<Rightarrow> (StatusEvent \<times> 't) list \<Rightarrow> string \<Rightarrow> string \<Rightarrow> StatusEvent \<Rightarrow> bool" where
  "clears st hist c d ev \<longleftrightarrow>
     ev = DeviceOk c d \<or> ev = ConnectionUp c \<and> up_of (apply_all st hist) c = Some False"

definition since_clear :: "'t StatusState \<Rightarrow> string \<Rightarrow> string \<Rightarrow> (StatusEvent \<times> 't) list \<Rightarrow> (StatusEvent \<times> 't) list \<Rightarrow> bool" where
  "since_clear st c d hist recent \<longleftrightarrow>
     (\<exists>before. hist = before @ recent \<and>
        (before = [] \<or> (\<exists>h ev t. before = h @ [(ev, t)] \<and> clears st h c d ev)) \<and>
        (\<forall>h ev t rest. recent = h @ (ev, t) # rest \<longrightarrow> \<not> clears st (before @ h) c d ev))"

definition outage :: "'t StatusState \<Rightarrow> string \<Rightarrow> string \<Rightarrow> (StatusEvent \<times> 't) list \<Rightarrow> string \<Rightarrow> 't \<Rightarrow> bool" where
  "outage st c d hist reason since \<longleftrightarrow>
     (\<exists>recent problems first. since_clear st c d hist recent \<and>
        problems = filter (\<lambda>(ev, _). problem_of c d ev) recent \<and> problems \<noteq> [] \<and>
        hd problems = (DeviceProblem c d first, since) \<and> fst (last problems) = DeviceProblem c d reason)"

lemma since_clear_Nil: "since_clear st c d [] []"
  by (simp add: since_clear_def)

lemma since_clear_clears: "clears st hist c d ev \<Longrightarrow> since_clear st c d (hist @ [(ev, t)]) []"
  unfolding since_clear_def by auto

lemma since_clear_keeps:
  assumes "since_clear st c d hist recent" and "\<not> clears st hist c d ev"
  shows "since_clear st c d (hist @ [(ev, t)]) (recent @ [(ev, t)])"
proof -
  from assms(1) obtain before where before: "hist = before @ recent"
    "before = [] \<or> (\<exists>h ev t. before = h @ [(ev, t)] \<and> clears st h c d ev)"
    "\<And>h ev t rest. recent = h @ (ev, t) # rest \<Longrightarrow> \<not> clears st (before @ h) c d ev"
    unfolding since_clear_def by blast
  have "\<not> clears st (before @ h) c d e" if "recent @ [(ev, t)] = h @ (e, u) # rest" for h e u rest
    using that before(1,3) assms(2) by (cases rest rule: rev_cases) auto
  with before(1,2) show ?thesis unfolding since_clear_def by (intro exI [of _ before]) auto
qed

lemma since_clear_unique:
  assumes "since_clear st c d hist r1" and "since_clear st c d hist r2"
  shows "r1 = r2"
proof -
  have shorter: "length r2 \<le> length r1" if "since_clear st c d hist r1" "since_clear st c d hist r2" for r1 r2
  proof (rule ccontr)
    assume longer: "\<not> length r2 \<le> length r1"
    from that(1) obtain b1 where b1: "hist = b1 @ r1" "b1 = [] \<or> (\<exists>h ev t. b1 = h @ [(ev, t)] \<and> clears st h c d ev)"
      unfolding since_clear_def by blast
    from that(2) obtain b2 where b2: "hist = b2 @ r2"
      "\<And>h ev t rest. r2 = h @ (ev, t) # rest \<Longrightarrow> \<not> clears st (b2 @ h) c d ev" unfolding since_clear_def by blast
    from b1(1) b2(1) longer obtain m where m: "b1 = b2 @ m" "r2 = m @ r1" "m \<noteq> []"
      by (auto simp: append_eq_append_conv2)
    with b1(2) obtain h ev t where h: "b2 @ m = h @ [(ev, t)]" "clears st h c d ev" by auto
    with m(3) obtain m' where "m = m' @ [(ev, t)]" "h = b2 @ m'" by (cases m rule: rev_cases) auto
    with b2(2) [of m' ev t r1] m(2) h(2) show False by simp
  qed
  from assms(1) obtain b1 where "hist = b1 @ r1" unfolding since_clear_def by blast
  moreover from assms(2) obtain b2 where "hist = b2 @ r2" unfolding since_clear_def by blast
  moreover have "length r1 = length r2" using shorter assms by (intro antisym) blast+
  ultimately show ?thesis by (simp add: append_eq_append_conv)
qed

lemma problem_of_same [simp]: "problem_of c d (DeviceProblem c d r)"
  by (simp add: problem_of_def)

lemma problem_of_iff: "problem_of c d ev \<longleftrightarrow> (\<exists>r. ev = DeviceProblem c d r)"
  by (auto simp: problem_of_def split: StatusEvent.splits)

text \<open>The problem reports since the last clearing determine what is shown.\<close>

definition shown :: "string \<Rightarrow> string \<Rightarrow> (StatusEvent \<times> 't) list \<Rightarrow> string \<Rightarrow> 't \<Rightarrow> bool" where
  "shown c d problems reason since \<longleftrightarrow>
     problems \<noteq> [] \<and> (\<exists>first. hd problems = (DeviceProblem c d first, since)) \<and>
     fst (last problems) = DeviceProblem c d reason"

lemma shown_snoc:
  "shown c d (problems @ [(DeviceProblem c d r, t)]) reason since \<longleftrightarrow>
     reason = r \<and> (if problems = [] then since = t else \<exists>first. hd problems = (DeviceProblem c d first, since))"
  by (auto simp: shown_def)

lemma problem_iff_shown:
  assumes "\<And>r s. health_of st c d \<noteq> Some (HealthProblem r s)" and "health_of st c d \<noteq> None"
  shows "\<exists>recent. since_clear st c d hist recent \<and> health_of (apply_all st hist) c d \<noteq> None \<and>
    (\<forall>reason since. health_of (apply_all st hist) c d = Some (HealthProblem reason since) \<longleftrightarrow>
       shown c d (filter (\<lambda>(ev, _). problem_of c d ev) recent) reason since)"
proof (induction hist rule: rev_induct)
  case Nil
  then show ?case using assms since_clear_Nil by (intro exI [of _ "[]"]) (simp add: shown_def)
next
  case (snoc x hist)
  obtain ev t where x: "x = (ev, t)" by (cases x)
  let ?st = "apply_all st hist" and ?ps = "filter (\<lambda>(ev, _). problem_of c d ev)"
  from snoc obtain recent where recent: "since_clear st c d hist recent"
    and known: "health_of ?st c d \<noteq> None"
    and shows_it: "\<And>reason since. health_of ?st c d = Some (HealthProblem reason since) \<longleftrightarrow>
      shown c d (?ps recent) reason since" by blast
  consider "clears st hist c d ev" | r where "\<not> clears st hist c d ev" "ev = DeviceProblem c d r"
    | "\<not> clears st hist c d ev" "\<not> problem_of c d ev" by (auto simp: problem_of_iff)
  then show ?case
  proof cases
    case 1
    then have "health_of (fst (apply_event ?st ev t)) c d \<in> {Some HealthOk, Some HealthUnknown}"
      using known by (auto simp: clears_def health_of_apply)
    with since_clear_clears [OF 1, of t] show ?thesis by (intro exI [of _ "[]"]) (auto simp: x shown_def)
  next
    case 2
    have none: "?ps recent = []" if "\<And>r s. health_of ?st c d \<noteq> Some (HealthProblem r s)"
    proof (rule ccontr)
      assume ne: "?ps recent \<noteq> []"
      from hd_in_set [OF ne] last_in_set [OF ne] obtain f s r where "hd (?ps recent) = (DeviceProblem c d f, s)" "fst (last (?ps recent)) = DeviceProblem c d r"
        unfolding set_filter mem_Collect_eq by (auto simp: problem_of_iff split: prod.splits)
      with ne have "shown c d (?ps recent) r s" by (auto simp: shown_def)
      with shows_it that show False by blast
    qed
    have new: "health_of (fst (apply_event ?st ev t)) c d = map_option (problem_since r t) (health_of ?st c d)"
      by (simp add: 2(2) health_of_apply)
    have ps: "?ps (recent @ [(ev, t)]) = ?ps recent @ [(DeviceProblem c d r, t)]" by (simp add: 2(2) problem_of_iff)
    have "health_of (fst (apply_event ?st ev t)) c d = Some (HealthProblem reason since) \<longleftrightarrow>
        shown c d (?ps (recent @ [(ev, t)])) reason since" for reason since
    proof (cases "\<exists>r s. health_of ?st c d = Some (HealthProblem r s)")
      case True
      then obtain r0 s0 where h: "health_of ?st c d = Some (HealthProblem r0 s0)" by blast
      then have "shown c d (?ps recent) r0 s0" using shows_it by blast
      then show ?thesis unfolding new ps shown_snoc h by (auto simp: shown_def problem_since_def)
    next
      case False
      then have "?ps recent = []" by (intro none) blast
      moreover have "map_option (problem_since r t) (health_of ?st c d) = Some (HealthProblem r t)"
      proof -
        from known obtain y where y: "health_of ?st c d = Some y" by blast
        show ?thesis
        proof (cases y)
          case (HealthProblem r' s')
          with False y show ?thesis by blast
        qed (simp_all add: y problem_since_def)
      qed
      ultimately show ?thesis unfolding new ps shown_snoc by auto
    qed
    moreover have "health_of (fst (apply_event ?st ev t)) c d \<noteq> None" using new known by simp
    ultimately show ?thesis
      using since_clear_keeps [OF recent 2(1), of t] by (intro exI [of _ "recent @ [(ev, t)]"]) (simp add: x)
  next
    case 3
    then have "health_of (fst (apply_event ?st ev t)) c d = health_of ?st c d"
      by (auto simp: clears_def problem_of_iff health_of_apply split: StatusEvent.split)
    with since_clear_keeps [OF recent 3(1), of t] 3(2) known shows_it show ?thesis
      by (intro exI [of _ "recent @ [(ev, t)]"]) (simp add: x)
  qed
qed

section \<open>The size cap\<close>

lemma newline_ascii: "is_ascii newline"
  by (simp add: is_ascii_def newline_def)

lemma status_truncate_total:
  assumes s: "utf8_shape s"
  obtains r where "status_truncate s = Some r" "length r \<le> MAX_STATUS_BYTES" "prefix r s"
    "is_char_boundary s (length r)" "length s \<le> MAX_STATUS_BYTES \<Longrightarrow> r = s"
    "\<And>p. \<lbrakk>MAX_STATUS_BYTES < length s; prefix p s; length p \<le> MAX_STATUS_BYTES; p \<noteq> []; last p = newline\<rbrakk>
      \<Longrightarrow> r \<noteq> [] \<and> last r = newline \<and> length p \<le> length r"
proof (cases "length s \<le> MAX_STATUS_BYTES")
  case True
  then show thesis by (intro that [of s]) (simp_all add: status_truncate_def is_char_boundary_def)
next
  case False
  define e where "e = boundary_down s MAX_STATUS_BYTES"
  have e: "e \<le> MAX_STATUS_BYTES" "is_char_boundary s e" "e < length s"
    using boundary_down_le [of s MAX_STATUS_BYTES] boundary_down_boundary False by (auto simp: e_def)
  have fits: "\<exists>k. k < e \<and> s ! k = newline \<and> length p = Suc k"
    if p: "prefix p s" "length p \<le> MAX_STATUS_BYTES" "p \<noteq> []" "last p = newline" for p
  proof -
    obtain q where q: "p = q @ [newline]" using p(3,4) by (metis append_butlast_last_id)
    obtain zs where "s = p @ zs" using p(1) by (auto simp: prefix_def)
    then have k: "length p - 1 < length s" "s ! (length p - 1) = newline" "length p = Suc (length p - 1)"
      by (simp_all add: q nth_append)
    have "is_char_boundary s (length p)"
      using boundary_after_ascii [OF s k(1)] k newline_ascii by metis
    then have "length p \<le> e" unfolding e_def using p(2) by (rule boundary_down_max)
    with k show ?thesis by (metis Suc_le_lessD)
  qed
  show thesis
  proof (cases "rfind newline (take e s)")
    case None
    then have none: "newline \<notin> set (take e s)" by (simp add: rfind_None_iff)
    then have "s ! k \<noteq> newline" if "k < e" for k
      using that e(3) by (metis in_set_conv_nth length_take min.absorb4 nth_take)
    then show thesis
      using fits e False None
      by (intro that [of "take e s"])
        (auto simp: status_truncate_def str_take_def str_truncate_def e_def [symmetric] Let_def take_is_prefix)
  next
    case (Some n)
    then have n: "n < e" "s ! n = newline" "\<forall>j. n < j \<and> j < e \<longrightarrow> s ! j \<noteq> newline"
      using rfind_Some [OF Some] e(3) by auto
    then have b: "is_char_boundary s (Suc n)"
      using boundary_after_ascii [OF s, of n] newline_ascii e(3) by simp
    have len: "k \<le> n" if "k < e" "s ! k = newline" for k using n(3) that by (meson not_le)
    have short: "length p \<le> Suc n"
      if "prefix p s" "length p \<le> MAX_STATUS_BYTES" "p \<noteq> []" "last p = newline" for p
      using fits [OF that] len by auto
    have l: "take (Suc n) s \<noteq> []" "last (take (Suc n) s) = newline" "length (take (Suc n) s) = Suc n"
      using n e(3) by (auto simp: take_Suc_conv_app_nth)
    show thesis
      using short e n b False Some l
      by (intro that [of "take (Suc n) s"])
        (auto simp: status_truncate_def str_take_def str_truncate_def e_def [symmetric] Let_def take_is_prefix)
  qed
qed

text \<open>The strings of the state and of the time formats are well-formed \<open>String\<close>s.\<close>

definition health_strings :: "'t Health \<Rightarrow> string list" where
  "health_strings h = (case h of HealthProblem reason _ \<Rightarrow> [reason] | _ \<Rightarrow> [])"

definition conn_strings :: "'t ConnectionStatus \<Rightarrow> string list" where
  "conn_strings c = cs_id c # concat (map (\<lambda>d. ds_id d # health_strings (ds_health d)) (cs_devices c))"

definition status_strings :: "'t StatusState \<Rightarrow> string list" where
  "status_strings st = ss_gateway_id st # ss_broker st # concat (map conn_strings (ss_connections st))"

definition status_utf8 :: "'t StatusState \<Rightarrow> bool" where
  "status_utf8 st \<longleftrightarrow> list_all utf8_shape (status_strings st)"

definition fmt_utf8 :: "'t utc_fmt \<Rightarrow> bool" where
  "fmt_utf8 fmt \<longleftrightarrow> (\<forall>t s. uf_timestamp fmt t = Some s \<or> uf_time_of_day fmt t = Some s \<longrightarrow> utf8_shape s)"

lemma utf8_ascii_text [simp]:
  "utf8_shape [newline]" "utf8_shape ''?''" "utf8_shape ''gateway: ''" "utf8_shape ''updated: ''"
  "utf8_shape ''mqtt: ''" "utf8_shape ''connected''" "utf8_shape ''disconnected''" "utf8_shape '' (''"
  "utf8_shape '')''" "utf8_shape ''connection ''" "utf8_shape '': down''" "utf8_shape '': up, ''"
  "utf8_shape ''/''" "utf8_shape '' devices ok''" "utf8_shape '', ''" "utf8_shape '': ''" "utf8_shape '' since ''"
  by (simp_all add: utf8_shape_ascii is_ascii_def newline_def)

lemma format_utc_utf8: "fmt_utf8 fmt \<Longrightarrow>
    utf8_shape (format_utc (uf_timestamp fmt) t) \<and> utf8_shape (format_utc (uf_time_of_day fmt) t)"
  by (auto simp: format_utc_def fmt_utf8_def split: option.split)

lemma render_device_utf8:
  assumes "fmt_utf8 fmt" and "utf8_shape (ds_id d)" and "\<forall>s \<in> set (health_strings (ds_health d)). utf8_shape s"
    and "s \<in> set (render_device fmt d)"
  shows "utf8_shape s"
proof (cases "ds_health d")
  case (HealthProblem reason since)
  have "s = ds_id d @ '': '' @ reason @ '' since '' @ format_utc (uf_time_of_day fmt) since"
    using assms(4) unfolding render_device_def HealthProblem Health.case list.set by (elim insertE emptyE)
  moreover have "utf8_shape reason" using assms(3) by (simp add: HealthProblem health_strings_def)
  ultimately show ?thesis
    using assms(2) format_utc_utf8 [OF assms(1), of since] by (auto intro!: utf8_shape_append simp del: append.simps)
qed (use assms(4) in \<open>simp_all add: render_device_def\<close>)

lemma render_connection_utf8:
  assumes f: "fmt_utf8 fmt" and c: "\<forall>s \<in> set (conn_strings c). utf8_shape s"
  shows "utf8_shape (render_connection fmt c)"
proof -
  have "utf8_shape s" if "d \<in> set (cs_devices c)" "s \<in> set (render_device fmt d)" for d s
  proof (rule render_device_utf8 [OF f _ _ that(2)])
    have "ds_id d \<in> set (conn_strings c)" "set (health_strings (ds_health d)) \<subseteq> set (conn_strings c)"
      using that(1) by (force simp: conn_strings_def)+
    then show "utf8_shape (ds_id d)" "\<forall>s \<in> set (health_strings (ds_health d)). utf8_shape s"
      using c by blast+
  qed
  then have "utf8_shape (join '', '' (concat (map (render_device fmt) (cs_devices c))))"
    by (intro utf8_shape_join) auto
  then have problems: "utf8_shape (if concat (map (render_device fmt) (cs_devices c)) \<noteq> [] then
      '' ('' @ join '', '' (concat (map (render_device fmt) (cs_devices c))) @ '')'' else [])" (is "utf8_shape ?t")
    by (cases "concat (map (render_device fmt) (cs_devices c)) = []")
      (simp_all only: simp_thms not_True_eq_False not_False_eq_True if_True if_False utf8_shape_Nil
        utf8_shape_append utf8_ascii_text)
  have cid: "utf8_shape (cs_id c)" using c by (simp add: conn_strings_def)
  show ?thesis
  proof (cases "cs_up c")
    case True
    then show ?thesis
      unfolding render_connection_def Let_def using problems cid
      by (simp only: not_True_eq_False if_False utf8_shape_append utf8_ascii_text utf8_shape_show_nat)
  next
    case False
    then show ?thesis
      unfolding render_connection_def using cid
      by (simp only: not_False_eq_True if_True utf8_shape_append utf8_ascii_text)
  qed
qed

lemma render_full_utf8:
  assumes f: "fmt_utf8 fmt" and st: "status_utf8 st"
  shows "utf8_shape (render_full fmt st now)"
proof -
  have "utf8_shape (concat (map (render_connection fmt) (ss_connections st)))"
    using st render_connection_utf8 [OF f]
    by (intro utf8_shape_concat) (auto simp: status_utf8_def status_strings_def list_all_iff)
  moreover have "utf8_shape (ss_gateway_id st)" "utf8_shape (ss_broker st)"
    using st by (simp_all add: status_utf8_def status_strings_def)
  ultimately show ?thesis
    unfolding render_full_def using format_utc_utf8 [OF f]
    by (simp only: utf8_shape_append utf8_ascii_text simp_thms split: if_split)
qed

text \<open>An event with well-formed strings keeps the state's strings well-formed.\<close>

definition event_utf8 :: "StatusEvent \<Rightarrow> bool" where
  "event_utf8 ev = (case ev of DeviceProblem _ _ reason \<Rightarrow> utf8_shape reason | _ \<Rightarrow> True)"

lemma find_mut_all:
  assumes "find_mut P f xs = Some (ys, r)" and "\<forall>x \<in> set xs. Q x" and "\<And>x. Q x \<Longrightarrow> Q (fst (f x))"
  shows "\<forall>y \<in> set ys. Q y"
  using assms(1,2)
proof (induction xs arbitrary: ys)
  case (Cons x xs)
  with assms(3) [of x] show ?case by (fastforce split: if_splits prod.splits)
qed simp

definition conn_utf8 :: "'t ConnectionStatus \<Rightarrow> bool" where
  "conn_utf8 c \<longleftrightarrow> list_all utf8_shape (conn_strings c)"

lemma status_utf8_iff:
  "status_utf8 st \<longleftrightarrow> utf8_shape (ss_gateway_id st) \<and> utf8_shape (ss_broker st) \<and>
     (\<forall>c \<in> set (ss_connections st). conn_utf8 c)"
  by (auto simp: status_utf8_def status_strings_def conn_utf8_def list_all_iff)

lemma with_connection_utf8:
  assumes "status_utf8 st" and "\<And>c. conn_utf8 c \<Longrightarrow> conn_utf8 (fst (f c))"
  shows "status_utf8 (fst (with_connection st cid f))"
  using assms find_mut_all [of _ f "ss_connections st" _ _ conn_utf8]
  by (auto simp: with_connection_def status_utf8_iff split: option.split)

lemma conn_utf8_iff:
  "conn_utf8 c \<longleftrightarrow> utf8_shape (cs_id c) \<and>
     (\<forall>d \<in> set (cs_devices c). utf8_shape (ds_id d) \<and> (\<forall>s \<in> set (health_strings (ds_health d)). utf8_shape s))"
  by (auto simp: conn_utf8_def conn_strings_def list_all_iff)

lemma set_health_conn_utf8:
  assumes h: "\<And>x. \<forall>s \<in> set (health_strings x). utf8_shape s \<Longrightarrow> \<forall>s \<in> set (health_strings (h x)). utf8_shape s"
    and c: "conn_utf8 c"
  shows "conn_utf8 (fst (set_health_conn d h c))"
proof -
  let ?f = "\<lambda>d. let new = h (ds_health d) in (d\<lparr>ds_health := new\<rparr>, ds_health d \<noteq> new)"
  let ?Q = "\<lambda>d. utf8_shape (ds_id d) \<and> (\<forall>s \<in> set (health_strings (ds_health d)). utf8_shape s)"
  have "\<forall>x \<in> set ys. ?Q x"
    if "find_mut (\<lambda>x. ds_id x = d) ?f (cs_devices c) = Some (ys, r)" for ys r
    using that
  proof (rule find_mut_all [where Q = ?Q])
    show "\<forall>x \<in> set (cs_devices c). ?Q x" using c by (simp add: conn_utf8_iff)
    show "?Q (fst (?f x))" if "?Q x" for x using that h [of "ds_health x"] by (simp add: Let_def)
  qed
  with c show ?thesis by (auto simp: set_health_conn_def replace_def conn_utf8_iff split: option.split)
qed

lemma apply_event_utf8:
  assumes "status_utf8 st" and "event_utf8 ev"
  shows "status_utf8 (fst (apply_event st ev now))"
proof (cases ev)
  case (ConnectionUp c)
  have "conn_utf8 c' \<Longrightarrow> conn_utf8 (fst (conn_came_up c'))" for c' :: "'a ConnectionStatus"
    by (auto simp: conn_utf8_iff conn_came_up_def health_strings_def)
  with assms(1) show ?thesis by (simp add: apply_event_def ConnectionUp with_connection_utf8)
next
  case (ConnectionDown c)
  then show ?thesis
    unfolding apply_event_def ConnectionDown StatusEvent.case
    by (intro with_connection_utf8 assms(1)) (auto simp: conn_utf8_iff replace_def)
next
  case (DeviceOk c d)
  show ?thesis
    unfolding DeviceOk apply_event_def StatusEvent.case set_health_def
    by (intro with_connection_utf8 set_health_conn_utf8 assms(1)) (simp_all add: health_strings_def)
next
  case (DeviceProblem c d r)
  show ?thesis
    unfolding DeviceProblem apply_event_def StatusEvent.case set_health_def
    using assms(2)
    by (intro with_connection_utf8 set_health_conn_utf8 assms(1))
      (auto simp: health_strings_def problem_since_def event_utf8_def DeviceProblem split: Health.splits)
qed (use assms in \<open>simp_all add: apply_event_def replace_def status_utf8_iff\<close>)

lemma render_status_total:
  assumes "fmt_utf8 fmt" and "status_utf8 st"
  shows "\<exists>r. render_status fmt st now = Some r \<and> length r \<le> MAX_STATUS_BYTES \<and> prefix r (render_full fmt st now)"
  using status_truncate_total [OF render_full_utf8 [OF assms]] unfolding render_status_def by metis

section \<open>The file is replaced atomically\<close>

lemma tmp_path_neq: "tmp_path path \<noteq> path"
  by (simp add: tmp_path_def)

text \<open>No system call of the write fails.\<close>

definition write_ok :: "write_io \<Rightarrow> bool" where
  "write_ok wio \<longleftrightarrow> wio_create wio = None \<and> wio_write wio = None \<and> wio_sync wio = None \<and> wio_rename wio = None"

lemma write_atomic_cases:
  obtains e where "write_atomic wio fs path contents = (Inl e, [fs])" "\<not> write_ok wio"
  | e part where "write_atomic wio fs path contents =
      (Inl e, [fs, fs(tmp_path path \<mapsto> []), fs(tmp_path path \<mapsto> part)])" "\<not> write_ok wio"
  | "write_atomic wio fs path contents =
      (Inr (), [fs, fs(tmp_path path \<mapsto> []), fs(tmp_path path \<mapsto> contents),
        fs(tmp_path path := None, path \<mapsto> contents)])" "write_ok wio"
  by (cases "wio_create wio"; cases "wio_write wio"; cases "wio_sync wio"; cases "wio_rename wio")
    (auto simp: write_atomic_def Let_def write_ok_def)

text \<open>The content of the last write that succeeded.\<close>

definition last_written :: "(string \<times> write_io) list \<Rightarrow> string option \<Rightarrow> string option" where
  "last_written cws old = (case filter (\<lambda>cw. write_ok (snd cw)) cws of [] \<Rightarrow> old | ok \<Rightarrow> Some (fst (last ok)))"

lemma last_written_simps [simp]:
  "last_written [] old = old"
  "last_written (cw # cws) old = last_written cws (if write_ok (snd cw) then Some (fst cw) else old)"
  by (auto simp: last_written_def split: list.split)

lemma last_written_last:
  assumes "cws \<noteq> []" and "write_ok (snd (last cws))"
  shows "last_written cws old = Some (fst (last cws))"
proof -
  obtain cws' cw where cws: "cws = cws' @ [cw]" using assms(1) by (cases cws rule: rev_cases) auto
  then have "filter (\<lambda>cw. write_ok (snd cw)) cws = filter (\<lambda>cw. write_ok (snd cw)) cws' @ [cw]" using assms(2) by simp
  then show ?thesis
    unfolding last_written_def by (cases "filter (\<lambda>cw. write_ok (snd cw)) cws'") (simp_all add: cws)
qed

lemma run_status_writer_ne: "run_status_writer path fs cws \<noteq> []"
  by (induction cws arbitrary: fs) (simp_all add: case_prod_unfold Let_def)

text \<open>One write, as a reader sees it.\<close>

lemma write_atomic_sees:
  assumes "write_atomic wio fs path contents = (r, seen)"
  shows "\<forall>fs' \<in> set seen. fs' path \<in> {fs path, Some contents} \<and> (\<forall>q. q \<notin> {path, tmp_path path} \<longrightarrow> fs' q = fs q)"
    and "seen \<noteq> []" and "last seen path = (if write_ok wio then Some contents else fs path)"
    and "\<forall>q. q \<notin> {path, tmp_path path} \<longrightarrow> last seen q = fs q"
  by (rule write_atomic_cases [of wio fs path contents];
      use assms in \<open>auto simp: tmp_path_neq tmp_path_neq [symmetric]\<close>)+

lemma run_status_writer_sees:
  "fs' \<in> set (run_status_writer path fs cws) \<Longrightarrow>
     (fs' path = fs path \<or> (\<exists>content \<in> fst ` set cws. fs' path = Some content)) \<and>
     (\<forall>q. q \<notin> {path, tmp_path path} \<longrightarrow> fs' q = fs q)"
proof (induction cws arbitrary: fs)
  case (Cons cw cws)
  obtain r seen where w: "write_atomic (snd cw) fs path (fst cw) = (r, seen)" by fastforce
  note one = write_atomic_sees [OF w]
  from Cons.prems consider "fs' \<in> set seen" | "fs' \<in> set (run_status_writer path (last seen) cws)"
    by (auto simp: w)
  then show ?case
  proof cases
    case 2
    from Cons.IH [OF this] one(3,4) show ?thesis by (auto split: if_splits)
  qed (use one(1) in auto)
qed simp

lemma run_status_writer_last:
  "last (run_status_writer path fs cws) path = last_written cws (fs path)"
proof (induction cws arbitrary: fs)
  case (Cons cw cws)
  obtain r seen where w: "write_atomic (snd cw) fs path (fst cw) = (r, seen)" by fastforce
  with Cons.IH [of "last seen"] write_atomic_sees(3) [OF w] run_status_writer_ne [of path "last seen" cws]
  show ?case by simp
qed simp

section \<open>The write policy\<close>

definition received :: "'t writer_event list \<Rightarrow> (StatusEvent \<times> 't) list" where
  "received evs = concat (map (\<lambda>ev. case ev of WriterRecv e utc _ \<Rightarrow> [(e, utc)] | _ \<Rightarrow> []) evs)"

definition rendered :: "'t utc_fmt \<Rightarrow> 't StatusState \<Rightarrow> string list \<Rightarrow> bool" where
  "rendered fmt st out \<longleftrightarrow> out \<noteq> [] \<and> (\<exists>utc. render_status fmt st utc = Some (last out))"

text \<open>
  \<open>unwritten st evs pre now\<close>: the event after the events \<open>pre\<close> of the task, at \<open>now\<close>, changed the state, and
  nothing was written since. \<open>owes\<close>: a write is due \<open>debounce\<close> after the first of these changes.
\<close>

definition is_receive :: "'t writer_event \<Rightarrow> bool" where
  "is_receive ev = (case ev of WriterRecv _ _ _ \<Rightarrow> True | _ \<Rightarrow> False)"

definition unwritten ::
  "'t StatusState \<Rightarrow> 't writer_event list \<Rightarrow> 't writer_event list \<Rightarrow> instant \<Rightarrow> bool" where
  "unwritten st evs pre now \<longleftrightarrow>
     (\<exists>ev utc post. evs = pre @ WriterRecv ev utc now # post \<and>
        snd (apply_event (apply_all st (received pre)) ev utc) \<and> list_all is_receive post)"

definition owes :: "'t StatusState \<Rightarrow> duration \<Rightarrow> 't writer_event list \<Rightarrow> instant \<Rightarrow> bool" where
  "owes st debounce evs p \<longleftrightarrow>
     (\<exists>pre now. unwritten st evs pre now \<and> p = now + debounce \<and>
        (\<forall>pre' now'. unwritten st evs pre' now' \<longrightarrow> length pre \<le> length pre'))"

lemma unwritten_Nil [simp]: "\<not> unwritten st [] pre now"
  by (simp add: unwritten_def)

lemma unwritten_snoc:
  "unwritten st (evs @ [x]) pre now \<longleftrightarrow>
     is_receive x \<and> unwritten st evs pre now \<or>
     pre = evs \<and> (\<exists>ev utc. x = WriterRecv ev utc now \<and> snd (apply_event (apply_all st (received evs)) ev utc))"
proof
  assume "unwritten st (evs @ [x]) pre now"
  then obtain ev utc post where "evs @ [x] = pre @ WriterRecv ev utc now # post"
    "snd (apply_event (apply_all st (received pre)) ev utc)" "list_all is_receive post" unfolding unwritten_def by blast
  then show "is_receive x \<and> unwritten st evs pre now \<or>
     pre = evs \<and> (\<exists>ev utc. x = WriterRecv ev utc now \<and> snd (apply_event (apply_all st (received evs)) ev utc))"
    by (cases post rule: rev_cases) (auto simp: unwritten_def)
qed (auto simp: unwritten_def)

lemma unwritten_length: "unwritten st evs pre now \<Longrightarrow> length pre < length evs"
  by (auto simp: unwritten_def)

text \<open>What holds after the events \<open>evs\<close>: nothing unwritten and the current state written last, or the write is due.\<close>

definition writer_inv ::
  "'t utc_fmt \<Rightarrow> duration \<Rightarrow> 't StatusState \<Rightarrow> 't writer_event list \<Rightarrow> string list \<Rightarrow> 't writer \<Rightarrow> bool" where
  "writer_inv fmt debounce st evs out w \<longleftrightarrow> wr_state w = apply_all st (received evs) \<and>
     (case wr_pending w of
        None \<Rightarrow> rendered fmt (wr_state w) out \<and> (\<forall>pre now. \<not> unwritten st evs pre now)
      | Some p \<Rightarrow> owes st debounce evs p)"

lemma received_append [simp]: "received (xs @ ys) = received xs @ received ys"
  by (simp add: received_def)

lemma received_one [simp]:
  "received [] = []" "received [WriterRecv e utc now] = [(e, utc)]" "received [WriterTimer utc now] = []"
  "received [WriterClosed utc] = []"
  by (simp_all add: received_def)

lemma apply_all_append [simp]: "apply_all st (xs @ ys) = apply_all (apply_all st xs) ys"
  by (simp add: apply_all_def)

lemma writer_step_inv:
  assumes inv: "writer_inv fmt debounce st evs out w"
    and step: "writer_step fmt debounce heartbeat w ev = (WriterRunning w', out')"
  shows "writer_inv fmt debounce st (evs @ [ev]) (out @ out') w'"
proof (cases ev)
  case (WriterRecv e utc now)
  obtain st' changed where a: "apply_event (wr_state w) e utc = (st', changed)" by (cases "apply_event (wr_state w) e utc")
  have w': "out' = []" "w' = (if changed \<and> wr_pending w = None
      then w\<lparr>wr_state := st', wr_pending := Some (now + debounce)\<rparr> else w\<lparr>wr_state := st'\<rparr>)"
    using step by (auto simp: WriterRecv writer_step_def a inst_add_def split: if_splits)
  have st: "wr_state w = apply_all st (received evs)" using inv by (simp add: writer_inv_def)
  with a have st': "wr_state w' = apply_all st (received (evs @ [ev]))" by (simp add: w'(2) WriterRecv)
  have un: "unwritten st (evs @ [ev]) pre t \<longleftrightarrow> unwritten st evs pre t \<or> pre = evs \<and> t = now \<and> changed" for pre t
    using a by (auto simp: unwritten_snoc WriterRecv is_receive_def st)
  show ?thesis
  proof (cases "wr_pending w")
    case (Some p)
    then have "owes st debounce evs p" using inv by (simp add: writer_inv_def)
    then obtain pre t where first: "unwritten st evs pre t" "p = t + debounce"
      "\<And>pre' t'. unwritten st evs pre' t' \<Longrightarrow> length pre \<le> length pre'" unfolding owes_def by blast
    have "length pre \<le> length pre'" if "unwritten st (evs @ [ev]) pre' t'" for pre' t'
      using that first(3) unwritten_length [OF first(1)] unfolding un by auto
    with first(1,2) have "owes st debounce (evs @ [ev]) p" unfolding owes_def un by blast
    with Some w' st' show ?thesis by (auto simp: writer_inv_def)
  next
    case None
    then have none_left: "\<And>pre t. \<not> unwritten st evs pre t" using inv by (simp add: writer_inv_def)
    show ?thesis
    proof (cases changed)
      case True
      have "length evs \<le> length pre'" if "unwritten st (evs @ [ev]) pre' t" for pre' t
      proof -
        from that have "unwritten st evs pre' t \<or> pre' = evs" unfolding un by blast
        with none_left show ?thesis by blast
      qed
      moreover have "unwritten st (evs @ [ev]) evs now" using True unfolding un by simp
      ultimately have "owes st debounce (evs @ [ev]) (now + debounce)" unfolding owes_def by blast
      with None True w' st' show ?thesis by (simp add: writer_inv_def)
    next
      case False
      then have "st' = wr_state w" using apply_event_changed [of "wr_state w" e utc] a by simp
      then have same: "w' = w" using w'(2) None False by simp
      have "rendered fmt (wr_state w) out" using inv unfolding writer_inv_def None option.case by blast
      moreover have "\<not> unwritten st (evs @ [ev]) pre t" for pre t using none_left False unfolding un by blast
      ultimately show ?thesis unfolding writer_inv_def same using None w'(1) st' [unfolded same] by simp
    qed
  qed
next
  case (WriterTimer utc now)
  have "\<not> unwritten st (evs @ [ev]) pre t" for pre t by (simp add: unwritten_snoc WriterTimer is_receive_def)
  with WriterTimer inv step show ?thesis
    by (auto simp: writer_step_def writer_write_def writer_inv_def rendered_def inst_add_def
        split: option.splits if_splits)
next
  case (WriterClosed utc)
  with step show ?thesis by (auto simp: writer_step_def writer_write_def split: if_splits option.splits)
qed

lemma writer_run_inv:
  "writer_inv fmt debounce st evs0 out0 w \<Longrightarrow> writer_run fmt debounce heartbeat w evs = (WriterRunning w', out) \<Longrightarrow>
     writer_inv fmt debounce st (evs0 @ evs) (out0 @ out) w'"
proof (induction evs arbitrary: evs0 out0 w out)
  case (Cons ev evs)
  from Cons.prems(2) obtain w1 out1 out2 where step: "writer_step fmt debounce heartbeat w ev = (WriterRunning w1, out1)"
    and run: "writer_run fmt debounce heartbeat w1 evs = (WriterRunning w', out2)" "out = out1 @ out2"
    by (auto split: prod.splits writer_result.splits)
  from Cons.IH [OF writer_step_inv [OF Cons.prems(1) step] run(1)] show ?case by (simp add: run(2))
qed simp

lemma writer_start_inv:
  "writer_start fmt heartbeat st utc now = (WriterRunning w, out) \<Longrightarrow>
     writer_inv fmt debounce st [] out w \<and> wr_state w = st"
  by (auto simp: writer_start_def writer_write_def writer_inv_def rendered_def inst_add_def split: option.splits if_splits)

text \<open>With well-formed strings, and while the clock has room for the intervals, the task neither panics nor
stops while its channel is open.\<close>

definition events_ok :: "duration \<Rightarrow> duration \<Rightarrow> 't writer_event list \<Rightarrow> bool" where
  "events_ok debounce heartbeat evs \<longleftrightarrow> list_all (\<lambda>ev. case ev of
       WriterRecv e _ now \<Rightarrow> event_utf8 e \<and> now + debounce \<le> inst_max
     | WriterTimer _ now \<Rightarrow> now + heartbeat \<le> inst_max
     | WriterClosed _ \<Rightarrow> False) evs"

lemma writer_step_runs:
  assumes "fmt_utf8 fmt" and "status_utf8 (wr_state w)" and "events_ok debounce heartbeat [ev]"
  shows "\<exists>w' out. writer_step fmt debounce heartbeat w ev = (WriterRunning w', out) \<and> status_utf8 (wr_state w')"
proof (cases ev)
  case (WriterRecv e utc now)
  then show ?thesis
    using apply_event_utf8 [OF assms(2), of e utc] assms(3)
    by (auto simp: writer_step_def events_ok_def inst_add_def split: prod.split)
next
  case (WriterTimer utc now)
  then show ?thesis
    using render_status_total [OF assms(1,2), of utc] assms(2,3)
    by (auto simp: writer_step_def writer_write_def events_ok_def inst_add_def)
qed (use assms(3) in \<open>simp add: events_ok_def\<close>)

lemma writer_run_runs:
  "fmt_utf8 fmt \<Longrightarrow> status_utf8 (wr_state w) \<Longrightarrow> events_ok debounce heartbeat evs \<Longrightarrow>
     \<exists>w' out. writer_run fmt debounce heartbeat w evs = (WriterRunning w', out) \<and> status_utf8 (wr_state w')"
proof (induction evs arbitrary: w)
  case (Cons ev evs)
  then have "events_ok debounce heartbeat [ev]" "events_ok debounce heartbeat evs" by (simp_all add: events_ok_def)
  from writer_step_runs [OF Cons.prems(1,2) this(1)] obtain w1 out1 where
    "writer_step fmt debounce heartbeat w ev = (WriterRunning w1, out1)" "status_utf8 (wr_state w1)" by blast
  with Cons.IH [OF Cons.prems(1) this(2) \<open>events_ok debounce heartbeat evs\<close>] show ?case by fastforce
qed simp

text \<open>A closed channel: the pending change is written, then the task returns.\<close>

lemma writer_run_snoc:
  "writer_run fmt debounce heartbeat w evs = (WriterRunning w', out) \<Longrightarrow>
     writer_run fmt debounce heartbeat w (evs @ [ev]) =
       (case writer_step fmt debounce heartbeat w' ev of (r, out') \<Rightarrow> (r, out @ out'))"
proof (induction evs arbitrary: w out)
  case (Cons e evs)
  from Cons.prems obtain w1 out1 out2 where "writer_step fmt debounce heartbeat w e = (WriterRunning w1, out1)"
    "writer_run fmt debounce heartbeat w1 evs = (WriterRunning w', out2)" "out = out1 @ out2"
    by (auto split: prod.splits writer_result.splits)
  with Cons.IH [OF this(2)] show ?case by (simp split: prod.splits writer_result.splits)
qed (simp split: prod.split writer_result.split)

lemma writer_close:
  assumes "fmt_utf8 fmt" and "status_utf8 (wr_state w)" and "writer_inv fmt debounce st evs out w"
  shows "\<exists>out'. writer_step fmt debounce heartbeat w (WriterClosed utc) = (WriterReturned, out') \<and>
    rendered fmt (wr_state w) (out @ out')"
  using assms(3) render_status_total [OF assms(1,2), of utc]
  by (auto simp: writer_step_def writer_write_def writer_inv_def rendered_def split: option.splits)

section \<open>Properties\<close>

definition ex_fmt :: "nat utc_fmt" where
  "ex_fmt = \<lparr>uf_timestamp = (\<lambda>t. Some (show_nat t)), uf_time_of_day = (\<lambda>t. if t = 0 then None else Some (show_nat t))\<rparr>"

definition ex_status :: "nat StatusState" where
  "ex_status = StatusState_from_config ex_config"

lemma ex_fmt_utf8: "fmt_utf8 ex_fmt"
  by (simp add: fmt_utf8_def ex_fmt_def)

lemma ex_status_utf8: "status_utf8 ex_status"
proof -
  have "list_all is_ascii ''gw1''" "list_all is_ascii ''broker:''" "list_all is_ascii ''tcp''"
    "list_all is_ascii ''rtu''" "list_all is_ascii ''meter''" "list_all is_ascii ''inverter''"
    by (simp_all add: is_ascii_def)
  moreover have "utf8_shape (''broker:'' @ show_nat 1883)"
    using calculation(2) by (intro utf8_shape_append utf8_shape_ascii) (simp_all add: show_nat_def digits_ascii)
  ultimately show ?thesis
    by (simp add: ex_status_def StatusState_from_config_def StatusState_new_def status_utf8_iff conn_utf8_iff
        ex_defs health_strings_def utf8_shape_ascii)
qed

text \<open>C15: The status file follows the state. While the channel is open, and the clock has room for the
intervals of the configuration, the reporter keeps running, its
state is the result of all events received, and whenever no write is pending nothing has changed since the
last write and what was written renders exactly that state; a pending write is due one debounce interval
after the first of the changes received since the last write, however many came after it, and the task's
deadline is no later. When the channel closes, what it writes
last renders the final state, and that is what the file then holds if this last write succeeded,
whatever was there before and however many earlier writes failed.\<close>

theorem status_file_follows_state:
  assumes fmt: "fmt_utf8 fmt" and st: "status_utf8 st" and evs: "events_ok debounce heartbeat evs"
    and now0: "now0 + heartbeat \<le> inst_max"
  shows "\<exists>w0 out0 w out.
    writer_start fmt heartbeat st utc0 now0 = (WriterRunning w0, out0) \<and>
    writer_run fmt debounce heartbeat w0 evs = (WriterRunning w, out) \<and>
    wr_state w = apply_all st (received evs) \<and>
    (wr_pending w = None \<longrightarrow> rendered fmt (wr_state w) (out0 @ out) \<and> (\<forall>pre now. \<not> unwritten st evs pre now)) \<and>
    (\<forall>p. wr_pending w = Some p \<longrightarrow> writer_deadline w \<le> p \<and> owes st debounce evs p) \<and>
    (\<exists>out'. writer_run fmt debounce heartbeat w0 (evs @ [WriterClosed utc]) = (WriterReturned, out @ out') \<and>
       rendered fmt (wr_state w) (out0 @ out @ out') \<and>
       (\<forall>path fs cws. map fst cws = out0 @ out @ out' \<and> write_ok (snd (last cws)) \<longrightarrow>
          (\<exists>utc'. render_status fmt (apply_all st (received evs)) utc' = last (run_status_writer path fs cws) path)))"
proof -
  obtain w0 out0 where start: "writer_start fmt heartbeat st utc0 now0 = (WriterRunning w0, out0)"
    using render_status_total [OF fmt st, of utc0] now0 by (auto simp: writer_start_def writer_write_def inst_add_def)
  note s = writer_start_inv [OF start, of debounce]
  obtain w out where run: "writer_run fmt debounce heartbeat w0 evs = (WriterRunning w, out)" "status_utf8 (wr_state w)"
    using writer_run_runs [OF fmt _ evs, of w0] s st by auto
  have inv: "writer_inv fmt debounce st evs (out0 @ out) w" using writer_run_inv [OF _ run(1)] s by fastforce
  then have state: "wr_state w = apply_all st (received evs)" by (simp add: writer_inv_def)
  from writer_close [OF fmt run(2) inv] obtain out' where
    close: "writer_step fmt debounce heartbeat w (WriterClosed utc) = (WriterReturned, out')"
    and r: "rendered fmt (wr_state w) ((out0 @ out) @ out')" by blast
  have disk: "\<exists>utc'. render_status fmt (wr_state w) utc' = last (run_status_writer path fs cws) path"
    if "map fst cws = out0 @ out @ out'" "write_ok (snd (last cws))" for path fs and cws :: "(string \<times> write_io) list"
  proof -
    have "cws \<noteq> []" using r that(1) by (auto simp: rendered_def)
    then have "last (run_status_writer path fs cws) path = Some (last (map fst cws))"
      using last_written_last [OF _ that(2)] by (simp add: run_status_writer_last last_map)
    with r that(1) show ?thesis by (auto simp: rendered_def)
  qed
  have "writer_run fmt debounce heartbeat w0 (evs @ [WriterClosed utc]) = (WriterReturned, out @ out')"
    using writer_run_snoc [OF run(1), of "WriterClosed utc"] close by simp
  moreover have "rendered fmt (wr_state w) (out0 @ out @ out')" using r by simp
  moreover have "\<forall>path fs cws. map fst cws = out0 @ out @ out' \<and> write_ok (snd (last cws)) \<longrightarrow>
      (\<exists>utc'. render_status fmt (apply_all st (received evs)) utc' = last (run_status_writer path fs cws) path)"
    using disk state by simp
  ultimately have closed: "\<exists>out'. writer_run fmt debounce heartbeat w0 (evs @ [WriterClosed utc]) = (WriterReturned, out @ out') \<and>
      rendered fmt (wr_state w) (out0 @ out @ out') \<and>
      (\<forall>path fs cws. map fst cws = out0 @ out @ out' \<and> write_ok (snd (last cws)) \<longrightarrow>
        (\<exists>utc'. render_status fmt (apply_all st (received evs)) utc' = last (run_status_writer path fs cws) path))"
    by (intro exI [of _ out'] conjI)
  have pending: "wr_pending w = None \<longrightarrow> rendered fmt (wr_state w) (out0 @ out) \<and> (\<forall>pre now. \<not> unwritten st evs pre now)"
    "\<forall>p. wr_pending w = Some p \<longrightarrow> writer_deadline w \<le> p \<and> owes st debounce evs p"
    using inv by (auto simp: writer_inv_def writer_deadline_def)
  show ?thesis
    by (rule exI [of _ w0], rule exI [of _ out0], rule exI [of _ w], rule exI [of _ out])
      (intro conjI start run(1) state pending closed)
qed

theorem status_file_follows_state_witness:
  "\<exists>w0 out0 w out p.
    writer_start ex_fmt 30 ex_status 1000 0 = (WriterRunning w0, out0) \<and>
    writer_run ex_fmt 2 30 w0 [WriterRecv MqttConnected 1001 5, WriterRecv MqttDisconnected 1002 6] = (WriterRunning w, out) \<and>
    wr_pending w = Some p \<and> owes ex_status 2 [WriterRecv MqttConnected 1001 5, WriterRecv MqttDisconnected 1002 6] p"
proof -
  let ?evs = "[WriterRecv MqttConnected 1001 5, WriterRecv MqttDisconnected 1002 6] :: nat writer_event list"
  have evs: "events_ok 2 30 ?evs" by (simp add: events_ok_def event_utf8_def inst_max_def nanos_per_sec_def)
  have now: "(0 :: instant) + 30 \<le> inst_max" by (simp add: inst_max_def nanos_per_sec_def)
  obtain w0 out0 w out where run: "writer_start ex_fmt 30 ex_status 1000 0 = (WriterRunning w0, out0)"
    "writer_run ex_fmt 2 30 w0 ?evs = (WriterRunning w, out)"
    and owed: "wr_pending w = None \<longrightarrow> rendered ex_fmt (wr_state w) (out0 @ out) \<and> (\<forall>pre now. \<not> unwritten ex_status ?evs pre now)"
      "\<forall>p. wr_pending w = Some p \<longrightarrow> writer_deadline w \<le> p \<and> owes ex_status 2 ?evs p"
    using status_file_follows_state [OF ex_fmt_utf8 ex_status_utf8 evs now, of 1000 0]
    by (elim exE conjE) (rule that; assumption)
  have "unwritten ex_status ?evs [] 5"
    by (simp add: unwritten_def is_receive_def apply_event_def replace_def ex_status_def StatusState_from_config_def
        StatusState_new_def)
  with owed obtain p where "wr_pending w = Some p" "owes ex_status 2 ?evs p" by blast
  with run show ?thesis by blast
qed

text \<open>C24: After any events the state still shows exactly the gateway, the broker, the connections and the
devices of the configuration, in their order, also after events for unknown or ambiguous ids, and the
next event is reported as a change exactly when it changes something.\<close>

theorem status_keeps_config_shape:
  "status_shape (apply_all (StatusState_from_config config) hist) = config_shape config \<and>
   (snd (apply_event (apply_all (StatusState_from_config config) hist) event now) \<longleftrightarrow>
     fst (apply_event (apply_all (StatusState_from_config config) hist) event now)
       \<noteq> apply_all (StatusState_from_config config) hist)"
proof -
  have "status_shape (apply_all st hist) = status_shape st" for st :: "'a StatusState"
    by (induction hist arbitrary: st) (auto simp: apply_event_shape)
  then show ?thesis by (simp add: from_config_shape apply_event_changed)
qed

text \<open>C28: The status shows a device with a problem exactly if one was reported since its result was last
cleared, by a success or by its connection coming up after it was down; the time shown is that of the first
of the problems reported since then, the reason that of the latest.\<close>

theorem problem_since_first_report:
  assumes "health_of st c d = Some h" and "\<forall>reason since. h \<noteq> HealthProblem reason since"
  shows "health_of (apply_all st hist) c d = Some (HealthProblem reason since) \<longleftrightarrow> outage st c d hist reason since"
proof -
  have "health_of st c d \<noteq> None" "health_of st c d \<noteq> Some (HealthProblem r s)" for r s using assms by simp_all
  from problem_iff_shown [OF this(2,1), of hist] obtain recent where recent: "since_clear st c d hist recent"
    "health_of (apply_all st hist) c d = Some (HealthProblem reason since) \<longleftrightarrow>
      shown c d (filter (\<lambda>(ev, _). problem_of c d ev) recent) reason since" by blast
  then have "since_clear st c d hist r \<longleftrightarrow> r = recent" for r using since_clear_unique by blast
  then show ?thesis unfolding recent(2) outage_def shown_def by simp
qed

theorem problem_since_first_report_witness:
  "outage ex_status ''tcp'' ''meter'' [(DeviceProblem ''tcp'' ''meter'' ''timeout'', 1 :: nat), (DeviceOk ''tcp'' ''meter'', 2),
     (DeviceProblem ''tcp'' ''meter'' ''timeout'', 3), (DeviceProblem ''tcp'' ''meter'' ''exception'', 4)] ''exception'' 3"
proof -
  have "health_of ex_status ''tcp'' ''meter'' = Some HealthUnknown"
    by (simp add: health_of_def conn_of_def health_in_def ex_status_def StatusState_from_config_def StatusState_new_def ex_defs)
  from problem_since_first_report [OF this, of
      "[(DeviceProblem ''tcp'' ''meter'' ''timeout'', 1), (DeviceOk ''tcp'' ''meter'', 2),
        (DeviceProblem ''tcp'' ''meter'' ''timeout'', 3), (DeviceProblem ''tcp'' ''meter'' ''exception'', 4)]" "''exception''" 3]
  show ?thesis
    by (simp add: apply_all_def apply_event_def with_connection_def set_health_def set_health_conn_def
        replace_def problem_since_def health_of_def conn_of_def health_in_def
        ex_status_def StatusState_from_config_def StatusState_new_def ex_defs)
qed

text \<open>C26: The rendered status never panics and never exceeds the cap; a longer one is cut on a character
boundary, and after the last complete line that fits whenever one fits.\<close>

theorem status_size_cap:
  assumes "utf8_shape s"
  shows "\<exists>r. status_truncate s = Some r \<and> length r \<le> MAX_STATUS_BYTES \<and> prefix r s \<and>
    is_char_boundary s (length r) \<and> (length s \<le> MAX_STATUS_BYTES \<longrightarrow> r = s) \<and>
    (\<forall>p. MAX_STATUS_BYTES < length s \<and> prefix p s \<and> length p \<le> MAX_STATUS_BYTES \<and> p \<noteq> [] \<and> last p = newline \<longrightarrow>
       r \<noteq> [] \<and> last r = newline \<and> length p \<le> length r)"
  by (rule status_truncate_total [OF assms]) blast

theorem status_size_cap_witness:
  "\<exists>r. status_truncate (replicate 2000 CHR ''a'' @ newline # replicate 100 CHR ''b'') = Some r \<and>
     last r = newline \<and> 2001 \<le> length r \<and> length r \<le> MAX_STATUS_BYTES"
proof -
  let ?p = "replicate 2000 CHR ''a'' @ [newline]" and ?b = "replicate 100 CHR ''b''"
  have "utf8_shape (?p @ ?b)"
    by (rule utf8_shape_ascii) (simp add: list_all_iff is_ascii_def newline_def)
  from status_size_cap [OF this] obtain r where r: "status_truncate (?p @ ?b) = Some r"
    "length r \<le> MAX_STATUS_BYTES"
    "\<And>p. MAX_STATUS_BYTES < length (?p @ ?b) \<and> prefix p (?p @ ?b) \<and> length p \<le> MAX_STATUS_BYTES \<and> p \<noteq> [] \<and>
       last p = newline \<longrightarrow> r \<noteq> [] \<and> last r = newline \<and> length p \<le> length r" by blast
  have "last r = newline \<and> 2001 \<le> length r"
    using r(3) [of ?p] by (simp add: MAX_STATUS_BYTES_def)
  moreover have "?p @ ?b = replicate 2000 CHR ''a'' @ newline # ?b" unfolding append_assoc by (simp only: append.simps)
  ultimately show ?thesis using r(1,2) by metis
qed

text \<open>C27: Replacing the file is atomic. Over any sequence of writes, whichever system calls fail and
however much of a content was written, a reader sees after every system call what was there before
the task started or one of the contents it wrote, complete; no other file but the temporary one is
touched; and in the end the file holds the content of the last write that succeeded.\<close>

theorem status_file_atomic:
  assumes "fs' \<in> set (run_status_writer path fs cws)"
  shows "(fs' path = fs path \<or> (\<exists>content \<in> fst ` set cws. fs' path = Some content)) \<and>
    (\<forall>q. q \<notin> {path, tmp_path path} \<longrightarrow> fs' q = fs q) \<and>
    last (run_status_writer path fs cws) path = last_written cws (fs path)"
  using run_status_writer_sees [OF assms] run_status_writer_last by blast

theorem status_file_atomic_witness:
  defines "good \<equiv> \<lparr>wio_create = None, wio_write = None, wio_sync = None, wio_rename = None\<rparr>"
    and "full \<equiv> \<lparr>wio_create = None, wio_write = Some (''full'', 3), wio_sync = None, wio_rename = None\<rparr>"
  shows "last (run_status_writer ''/s'' [''/etc/x'' \<mapsto> ''keep''] [(''one'', good), (''two'', full)]) ''/s'' = Some ''one''"
proof -
  let ?run = "run_status_writer ''/s'' [''/etc/x'' \<mapsto> ''keep''] [(''one'', good), (''two'', full)]"
  have "last ?run \<in> set ?run" using run_status_writer_ne by (rule last_in_set)
  from status_file_atomic [OF this] show ?thesis
    by (simp add: good_def full_def write_ok_def)
qed

end
