(* ===== verification/Backoff.thy ===== *)
theory Backoff
  imports Clock
begin

text \<open>
  Exponential backoff: the interface as a locale, with what its users rely on proved once, and the
  \<open>Backoff\<close> of \<open>src/modbus/poller.rs\<close>, which the poller and the supervisor share. The reconnect
  delay of \<open>src/syslog.rs\<close> is a second provider (theory \<open>Syslog\<close>).
\<close>

section \<open>The sequence of delays\<close>

text \<open>A \<open>Backoff\<close> is used in two ways: a wait (after a failure), and a reset (after a success).\<close>

datatype backoff_use = Waited | WasReset

text \<open>The waits since the last reset, or since the start if there was none.\<close>

definition waits_since :: "backoff_use list \<Rightarrow> nat" where
  "waits_since us = length (takeWhile (\<lambda>u. u = Waited) (rev us))"

lemma waits_since_simps [simp]:
  "waits_since [] = 0" "waits_since (us @ [Waited]) = Suc (waits_since us)" "waits_since (us @ [WasReset]) = 0"
  by (simp_all add: waits_since_def)

text \<open>
  The delay after \<open>k\<close> waits in a row: it starts at the minimum, and each wait doubles it up to the
  maximum. (The first delay is the minimum even where the configured maximum is smaller.)
\<close>

definition backoff_delay :: "duration \<Rightarrow> duration \<Rightarrow> nat \<Rightarrow> duration" where
  "backoff_delay lo hi k = (if k = 0 then lo else min (2 ^ k * lo) hi)"

lemma backoff_delay_simps [simp]:
  "backoff_delay lo hi 0 = lo" "backoff_delay lo hi (Suc k) = min (2 * backoff_delay lo hi k) hi"
  by (auto simp: backoff_delay_def min_def)

lemma backoff_delay_le: "backoff_delay lo hi k \<le> max lo hi"
  by (simp add: backoff_delay_def min.coboundedI2 le_max_iff_disj)

section \<open>The interface\<close>

text \<open>
  \<open>delay\<close> is the delay the next failure waits for, \<open>fail\<close> the change that a failure makes to the
  state (\<open>None\<close> is the panic of \<open>Duration * 2\<close>), \<open>reset\<close> the change that a success makes.
\<close>

locale backoff =
  fixes delay :: "'s \<Rightarrow> duration"
    and fail :: "'s \<Rightarrow> 's option"
    and reset :: "'s \<Rightarrow> 's"
    and lo :: "'s \<Rightarrow> duration"
    and hi :: "'s \<Rightarrow> duration"
  assumes delay_reset: "delay (reset s) = lo s"
    and lo_reset: "lo (reset s) = lo s" and hi_reset: "hi (reset s) = hi s"
    and fail_delay: "fail s = Some s' \<Longrightarrow> delay s' = min (2 * delay s) (hi s)"
    and fail_lo: "fail s = Some s' \<Longrightarrow> lo s' = lo s" and fail_hi: "fail s = Some s' \<Longrightarrow> hi s' = hi s"
    and fail_panics: "fail s = None \<longleftrightarrow> dur_max < 2 * delay s"
begin

definition bounded :: "'s \<Rightarrow> bool" where
  "bounded s \<longleftrightarrow> lo s \<le> delay s \<and> delay s \<le> hi s"

definition use :: "'s \<Rightarrow> backoff_use \<Rightarrow> 's option" where
  "use s u = (case u of Waited \<Rightarrow> fail s | WasReset \<Rightarrow> Some (reset s))"

primrec uses :: "backoff_use list \<Rightarrow> 's \<Rightarrow> 's option" where
  "uses [] s = Some s"
| "uses (u # us) s = Option.bind (use s u) (uses us)"

lemma uses_snoc: "uses (us @ [u]) s = Option.bind (uses us s) (\<lambda>s'. use s' u)"
proof (induction us arbitrary: s)
  case Nil
  then show ?case by (cases "use s u") simp_all
next
  case (Cons a us)
  then show ?case by (cases "use s a") simp_all
qed

lemma bounded_reset: "lo s \<le> hi s \<Longrightarrow> bounded (reset s)"
  by (simp add: bounded_def delay_reset lo_reset hi_reset)

lemma bounded_fail:
  assumes "bounded s" and "fail s = Some s'"
  shows "bounded s'"
  using assms by (simp add: bounded_def fail_delay fail_lo fail_hi)

lemma fail_total: "bounded s \<Longrightarrow> 2 * hi s \<le> dur_max \<Longrightarrow> fail s \<noteq> None"
  by (simp add: fail_panics bounded_def)

lemma use_keeps: "use s u = Some s' \<Longrightarrow> lo s' = lo s \<and> hi s' = hi s"
  by (auto simp: use_def fail_lo fail_hi lo_reset hi_reset split: backoff_use.splits)

text \<open>The delay after any uses is determined by the waits since the last of its resets.\<close>

lemma uses_delay:
  assumes "delay s = lo s" and "uses us s = Some s'"
  shows "delay s' = backoff_delay (lo s) (hi s) (waits_since us) \<and> lo s' = lo s \<and> hi s' = hi s"
  using assms(2)
proof (induction us arbitrary: s' rule: rev_induct)
  case Nil
  with assms(1) show ?case by simp
next
  case (snoc u us)
  then obtain s1 where s1: "uses us s = Some s1" "use s1 u = Some s'"
    by (auto simp: uses_snoc bind_eq_Some_conv)
  note ih = snoc.IH [OF s1(1)] and keeps = use_keeps [OF s1(2)]
  show ?case
  proof (cases u)
    case Waited
    with s1(2) have "delay s' = min (2 * delay s1) (hi s1)" by (simp add: use_def fail_delay)
    with ih keeps Waited show ?thesis by simp
  next
    case WasReset
    with s1(2) have "delay s' = lo s1" by (auto simp: use_def delay_reset)
    with ih keeps WasReset show ?thesis by simp
  qed
qed

text \<open>It panics in the first wait that doubles a delay of more than half the range of durations.\<close>

lemma uses_None:
  assumes "delay s = lo s"
  shows "uses us s = None \<longleftrightarrow>
    (\<exists>pre post. us = pre @ Waited # post \<and> dur_max < 2 * backoff_delay (lo s) (hi s) (waits_since pre))"
proof (induction us rule: rev_induct)
  case (snoc u us)
  have ex: "(\<exists>pre post. us @ [u] = pre @ Waited # post \<and> P pre) \<longleftrightarrow>
      u = Waited \<and> P us \<or> (\<exists>pre post. us = pre @ Waited # post \<and> P pre)" for P
  proof
    assume "\<exists>pre post. us @ [u] = pre @ Waited # post \<and> P pre"
    then obtain pre post where "us @ [u] = pre @ Waited # post" "P pre" by blast
    then show "u = Waited \<and> P us \<or> (\<exists>pre post. us = pre @ Waited # post \<and> P pre)"
      by (cases post rule: rev_cases) auto
  next
    assume "u = Waited \<and> P us \<or> (\<exists>pre post. us = pre @ Waited # post \<and> P pre)"
    then show "\<exists>pre post. us @ [u] = pre @ Waited # post \<and> P pre" by fastforce
  qed
  have "uses (us @ [u]) s = None \<longleftrightarrow> uses us s = None \<or>
      u = Waited \<and> dur_max < 2 * backoff_delay (lo s) (hi s) (waits_since us)"
  proof (cases "uses us s")
    case (Some s1)
    with uses_delay [OF assms Some] show ?thesis
      by (cases u) (simp_all add: uses_snoc use_def fail_panics)
  qed (simp add: uses_snoc)
  with snoc.IH show ?case unfolding ex by argo
qed simp

end

section \<open>Backoff of the poller\<close>

record Backoff =
  bo_min :: duration
  bo_max :: duration
  bo_current :: duration

definition Backoff_new :: "duration \<Rightarrow> duration \<Rightarrow> Backoff" where
  "Backoff_new lo hi = \<lparr>bo_min = lo, bo_max = hi, bo_current = lo\<rparr>"

text \<open>\<open>wait\<close>: the delay it sleeps for, and the state after it (\<open>None\<close>: the doubling overflows).\<close>

definition Backoff_wait :: "Backoff \<Rightarrow> duration \<times> Backoff option" where
  "Backoff_wait b =
     (bo_current b,
      map_option (\<lambda>doubled. b\<lparr>bo_current := min doubled (bo_max b)\<rparr>) (dur_mul (bo_current b) 2))"

definition Backoff_reset :: "Backoff \<Rightarrow> Backoff" where
  "Backoff_reset b = b\<lparr>bo_current := bo_min b\<rparr>"

interpretation pb: backoff bo_current "\<lambda>b. snd (Backoff_wait b)" Backoff_reset bo_min bo_max
  by unfold_locales (auto simp: Backoff_reset_def Backoff_wait_def dur_mul_def mult.commute split: if_splits)

lemma Backoff_new_simps [simp]:
  "bo_current (Backoff_new lo hi) = lo" "bo_min (Backoff_new lo hi) = lo" "bo_max (Backoff_new lo hi) = hi"
  "fst (Backoff_wait b) = bo_current b"
  by (simp_all add: Backoff_new_def Backoff_wait_def)

section \<open>Properties\<close>

text \<open>C32: The waits of the backoff double from the configured minimum until they stay at the configured
maximum, and start again after every reset: after any sequence of waits and resets the next wait is
the minimum if the last use was a reset, and \<open>min (2 ^ k * minimum) maximum\<close> after \<open>k > 0\<close> waits since the
last reset. The sequence panics exactly if one of its waits doubles a delay of more than half
the range of durations.\<close>

theorem backoff_sequence:
  "(\<forall>b. pb.uses us (Backoff_new lo hi) = Some b \<longrightarrow> fst (Backoff_wait b) = backoff_delay lo hi (waits_since us)) \<and>
   (pb.uses us (Backoff_new lo hi) = None \<longleftrightarrow>
     (\<exists>pre post. us = pre @ Waited # post \<and> dur_max < 2 * backoff_delay lo hi (waits_since pre)))"
proof (intro conjI allI impI)
  fix b
  assume "pb.uses us (Backoff_new lo hi) = Some b"
  from pb.uses_delay [OF _ this] show "fst (Backoff_wait b) = backoff_delay lo hi (waits_since us)" by simp
next
  show "pb.uses us (Backoff_new lo hi) = None \<longleftrightarrow>
      (\<exists>pre post. us = pre @ Waited # post \<and> dur_max < 2 * backoff_delay lo hi (waits_since pre))"
    using pb.uses_None [of "Backoff_new lo hi" us] by simp
qed

theorem backoff_sequence_witness:
  "\<exists>b. pb.uses [Waited, Waited, Waited, WasReset, Waited] (Backoff_new 1 5) = Some b \<and> fst (Backoff_wait b) = 2"
proof -
  let ?us = "[Waited, Waited, Waited, WasReset, Waited]"
  have "pb.uses ?us (Backoff_new 1 5) = Some \<lparr>bo_min = 1, bo_max = 5, bo_current = 2\<rparr>"
    unfolding pb.uses.simps pb.use_def
    by (simp add: Backoff_new_def Backoff_wait_def Backoff_reset_def dur_mul_def dur_max_def nanos_per_sec_def)
  moreover from this have "fst (Backoff_wait \<lparr>bo_min = 1, bo_max = 5, bo_current = 2\<rparr>) =
      backoff_delay 1 5 (waits_since ?us)"
    using backoff_sequence [of ?us 1 5] by blast
  ultimately show ?thesis by (simp add: waits_since_def)
qed

end
