(* ===== verification/Poller.thy ===== *)
theory Poller
  imports Decode Status Backoff Channel
begin

text \<open>
  \<open>src/modbus/poller.rs\<close>: one task for each connection, which connects, polls its devices on every
  tick and reconnects with backoff. The task is a step function; a step is one connect attempt or
  one tick over all devices. The network, the timers and the aggregator's channel are the
  environment \<open>poll_env\<close>: what the \<open>n\<close>-th call returns. What the task does is recorded in order in
  a trace of actions, over which the properties are stated. Its log lines are not part of the trace: each
  repeats an action (a failed connect, a dropped reading, the result of a request).
\<close>

section \<open>The world outside\<close>

datatype io_error_kind = NotFound | TimedOut | InvalidInput | OtherKind

datatype IoError = IoError io_error_kind string

text \<open>\<open>tokio_modbus::Error\<close>; a Modbus exception is its own result, with the exception's code.\<close>

datatype ModbusError = ErrProtocol string | ErrTransport string

datatype SerialDataBits = DataFive | DataSix | DataSeven | DataEight
datatype SerialStopBits = StopOne | StopTwo
datatype SerialParity = SerialNone | SerialEven | SerialOdd

record SerialBuilder =
  sb_path :: string
  sb_baud_rate :: u32
  sb_data_bits :: SerialDataBits
  sb_parity :: SerialParity
  sb_stop_bits :: SerialStopBits

text \<open>
  The result of the \<open>n\<close>-th call. \<open>pe_elapsed n t\<close>: the timeout \<open>t\<close> around call \<open>n\<close> passes first. A
  connected \<open>Context\<close> is the unit id its requests are addressed to.
\<close>

record poll_env =
  pe_elapsed :: "nat \<Rightarrow> duration \<Rightarrow> bool"
  pe_lookup_host :: "nat \<Rightarrow> string \<Rightarrow> u16 \<Rightarrow> IoError + string list"
  pe_tcp_connect :: "nat \<Rightarrow> string \<Rightarrow> IoError + u8"
  pe_serial_open :: "nat \<Rightarrow> SerialBuilder \<Rightarrow> IoError + u8"
  pe_read_registers :: "nat \<Rightarrow> u8 \<Rightarrow> Function \<Rightarrow> u16 \<Rightarrow> u16 \<Rightarrow> ModbusError + (u8 + u16 list)"
  pe_show_exception :: "u8 \<Rightarrow> string"
  pe_try_send :: "nat \<Rightarrow> Reading \<Rightarrow> send_result"

abbreviation io_timeout :: "ConnectionConfig \<Rightarrow> duration" where
  "io_timeout cfg \<equiv> dur_from_millis (cn_io_timeout_ms cfg)"

section \<open>Connecting\<close>

definition serial_data_bits :: "u8 \<Rightarrow> IoError + SerialDataBits" where
  "serial_data_bits bits =
     (if bits = 5 then Inr DataFive
      else if bits = 6 then Inr DataSix
      else if bits = 7 then Inr DataSeven
      else if bits = 8 then Inr DataEight
      else Inl (IoError InvalidInput (''unsupported data_bits '' @ show_nat (unat bits))))"

definition serial_stop_bits :: "u8 \<Rightarrow> IoError + SerialStopBits" where
  "serial_stop_bits bits =
     (if bits = 1 then Inr StopOne
      else if bits = 2 then Inr StopTwo
      else Inl (IoError InvalidInput (''unsupported stop_bits '' @ show_nat (unat bits))))"

primrec serial_parity :: "Parity \<Rightarrow> SerialParity" where
  "serial_parity ParityNone = SerialNone"
| "serial_parity ParityEven = SerialEven"
| "serial_parity ParityOdd = SerialOdd"

definition connect :: "poll_env \<Rightarrow> nat \<Rightarrow> Transport \<Rightarrow> duration \<Rightarrow> IoError + u8" where
  "connect env n transport timeout =
     (case transport of
        Tcp host port \<Rightarrow>
          if pe_elapsed env n timeout then Inl (IoError TimedOut ''connect timed out'')
          else try_then (pe_lookup_host env n host port) (\<lambda>addrs.
                 case addrs of
                   [] \<Rightarrow> Inl (IoError NotFound (''no address for '' @ host))
                 | addr # _ \<Rightarrow> pe_tcp_connect env n addr)
      | Rtu serial_port baud_rate data_bits parity stop_bits _ \<Rightarrow>
          try_then (serial_data_bits data_bits) (\<lambda>db.
          try_then (serial_stop_bits stop_bits) (\<lambda>sb.
            pe_serial_open env n \<lparr>sb_path = serial_port, sb_baud_rate = baud_rate, sb_data_bits = db,
              sb_parity = serial_parity parity, sb_stop_bits = sb\<rparr>)))"

datatype BlockResult =
    Words "u16 list"
  | Exception u8
  | Protocol ModbusError
  | Timeout
  | TransportFatal ModbusError

section \<open>The state of the task\<close>

text \<open>\<open>ActSleep\<close> is the delay between frames, \<open>ActBackoff\<close> the wait before a reconnect; \<open>ActDrop\<close> is a
reading dropped because the aggregator's channel is full.\<close>

datatype poll_action =
    ActConnect Transport
  | ActReport StatusEvent
  | ActBackoff duration
  | ActTick
  | ActSetSlave u8
  | ActRead u8 Function u16 u16 BlockResult
  | ActSleep duration
  | ActSend Reading
  | ActDrop Reading

record poll_world =
  pw_calls :: nat
  pw_slave :: u8
  pw_backoff :: Backoff
  pw_trace :: "poll_action list"

definition emit :: "poll_action list \<Rightarrow> poll_world \<Rightarrow> poll_world" where
  "emit as w = w\<lparr>pw_trace := pw_trace w @ as\<rparr>"

definition called :: "poll_world \<Rightarrow> poll_world" where
  "called w = w\<lparr>pw_calls := Suc (pw_calls w)\<rparr>"

section \<open>Reading one block\<close>

definition is_transport_fatal :: "ModbusError \<Rightarrow> bool" where
  "is_transport_fatal e = (case e of ErrTransport _ \<Rightarrow> True | ErrProtocol _ \<Rightarrow> False)"

text \<open>The request goes to the unit of the context; it is recorded with the values it was made with.\<close>

definition read_block :: "poll_env \<Rightarrow> BlockConfig \<Rightarrow> duration \<Rightarrow> poll_world \<Rightarrow> BlockResult \<times> poll_world" where
  "read_block env block timeout w =
     (let slave = pw_slave w; fc = bk_function block; start = bk_start block; cnt = bk_count block;
          result =
            (if pe_elapsed env (pw_calls w) timeout then Timeout
             else case pe_read_registers env (pw_calls w) slave fc start cnt of
                    Inr (Inr words) \<Rightarrow> Words words
                  | Inr (Inl code) \<Rightarrow> Exception code
                  | Inl e \<Rightarrow> if is_transport_fatal e then TransportFatal e else Protocol e)
      in (result, emit [ActRead slave fc start cnt result] (called w)))"

definition inter_frame_delay :: "Transport \<Rightarrow> duration option" where
  "inter_frame_delay transport =
     (case transport of
        Rtu _ _ _ _ _ inter_frame_delay_ms \<Rightarrow>
          if 0 < inter_frame_delay_ms then Some (dur_from_millis inter_frame_delay_ms) else None
      | Tcp _ _ \<Rightarrow> None)"

text \<open>How a part of the poll loop ends: \<open>Skip\<close> is the \<open>break\<close> out of a device's blocks with its
\<open>problem\<close>, \<open>Reconnect\<close> the \<open>break 'poll\<close>, \<open>Return\<close> the \<open>return\<close>.\<close>

datatype poll_flow = Continue | Skip string | Reconnect | Return | Panic

section \<open>Polling\<close>

definition reading_of :: "DeviceConfig \<Rightarrow> string \<times> f64 \<Rightarrow> Reading" where
  "reading_of device = (\<lambda>(point, value).
     \<lparr>rd_point_id = \<lparr>pid_device = dv_id device, pid_point = point\<rparr>, rd_value = value\<rparr>)"

primrec send_values :: "poll_env \<Rightarrow> DeviceConfig \<Rightarrow> (string \<times> f64) list \<Rightarrow> poll_world \<Rightarrow> poll_flow \<times> poll_world" where
  "send_values env device [] w = (Continue, w)"
| "send_values env device (pv # pvs) w =
     (let reading = reading_of device pv in
      case pe_try_send env (pw_calls w) reading of
        SendOk \<Rightarrow> send_values env device pvs (emit [ActSend reading] (called w))
      | SendFull \<Rightarrow> send_values env device pvs (emit [ActDrop reading] (called w))
      | SendClosed \<Rightarrow> (Return, w))"

definition poll_block ::
  "poll_env \<Rightarrow> ConnectionConfig \<Rightarrow> DeviceConfig \<Rightarrow> BlockConfig \<Rightarrow> poll_world \<Rightarrow> poll_flow \<times> poll_world" where
  "poll_block env cfg device block w =
     (case read_block env block (io_timeout cfg) w of (result, w1) \<Rightarrow>
        let w2 = (case inter_frame_delay (cn_transport cfg) of None \<Rightarrow> w1 | Some d \<Rightarrow> emit [ActSleep d] w1)
        in case result of
             Words words \<Rightarrow>
               (let w3 = w2\<lparr>pw_backoff := Backoff_reset (pw_backoff w2)\<rparr> in
                case decode block words of
                  None \<Rightarrow> (Panic, w3)
                | Some vals \<Rightarrow> send_values env device vals w3)
           | Exception code \<Rightarrow> (Skip (''exception: '' @ pe_show_exception env code), w2)
           | Protocol e \<Rightarrow> (Skip ''protocol error'', w2)
           | Timeout \<Rightarrow> (Skip ''timeout'', w2)
           | TransportFatal e \<Rightarrow> (Reconnect, emit [ActReport (ConnectionDown (cn_id cfg))] w2))"

primrec poll_blocks ::
  "poll_env \<Rightarrow> ConnectionConfig \<Rightarrow> DeviceConfig \<Rightarrow> BlockConfig list \<Rightarrow> poll_world \<Rightarrow> poll_flow \<times> poll_world" where
  "poll_blocks env cfg device [] w = (Continue, w)"
| "poll_blocks env cfg device (block # blocks) w =
     (case poll_block env cfg device block w of
        (Continue, w') \<Rightarrow> poll_blocks env cfg device blocks w'
      | (flow, w') \<Rightarrow> (flow, w'))"

definition poll_device ::
  "poll_env \<Rightarrow> ConnectionConfig \<Rightarrow> DeviceConfig \<Rightarrow> poll_world \<Rightarrow> poll_flow \<times> poll_world" where
  "poll_device env cfg device w =
     (let w1 = emit [ActSetSlave (dv_unit_id device)] (w\<lparr>pw_slave := dv_unit_id device\<rparr>) in
      case poll_blocks env cfg device (dv_blocks device) w1 of
        (Continue, w2) \<Rightarrow> (Continue, emit [ActReport (DeviceOk (cn_id cfg) (dv_id device))] w2)
      | (Skip reason, w2) \<Rightarrow> (Continue, emit [ActReport (DeviceProblem (cn_id cfg) (dv_id device) reason)] w2)
      | (flow, w2) \<Rightarrow> (flow, w2))"

primrec poll_devices ::
  "poll_env \<Rightarrow> ConnectionConfig \<Rightarrow> DeviceConfig list \<Rightarrow> poll_world \<Rightarrow> poll_flow \<times> poll_world" where
  "poll_devices env cfg [] w = (Continue, w)"
| "poll_devices env cfg (device # devices) w =
     (case poll_device env cfg device w of
        (Continue, w') \<Rightarrow> poll_devices env cfg devices w'
      | (flow, w') \<Rightarrow> (flow, w'))"

definition poll_tick :: "poll_env \<Rightarrow> ConnectionConfig \<Rightarrow> poll_world \<Rightarrow> poll_flow \<times> poll_world" where
  "poll_tick env cfg w = poll_devices env cfg (cn_devices cfg) (emit [ActTick] w)"

section \<open>The task\<close>

datatype poll_phase = Connecting | Polling | Stopped | Crashed

definition backoff_wait :: "poll_world \<Rightarrow> poll_phase \<times> poll_world" where
  "backoff_wait w =
     (case Backoff_wait (pw_backoff w) of
        (d, None) \<Rightarrow> (Crashed, emit [ActBackoff d] w)
      | (d, Some b) \<Rightarrow> (Connecting, emit [ActBackoff d] (w\<lparr>pw_backoff := b\<rparr>)))"

text \<open>\<open>time::interval\<close> panics for a zero period.\<close>

definition conn_step :: "poll_env \<Rightarrow> ConnectionConfig \<Rightarrow> poll_phase \<times> poll_world \<Rightarrow> poll_phase \<times> poll_world" where
  "conn_step env cfg = (\<lambda>(phase, w).
     case phase of
       Connecting \<Rightarrow>
         (let result = connect env (pw_calls w) (cn_transport cfg) (io_timeout cfg);
              w1 = emit [ActConnect (cn_transport cfg)] (called w)
          in case result of
               Inr ctx \<Rightarrow>
                 (if dur_from_secs (cn_poll_interval_secs cfg) = 0 then Crashed else Polling,
                  emit [ActReport (ConnectionUp (cn_id cfg))] (w1\<lparr>pw_slave := ctx\<rparr>))
             | Inl e \<Rightarrow> backoff_wait (emit [ActReport (ConnectionDown (cn_id cfg))] w1))
     | Polling \<Rightarrow>
         (case poll_tick env cfg w of
            (Continue, w') \<Rightarrow> (Polling, w')
          | (Skip _, w') \<Rightarrow> (Polling, w')
          | (Reconnect, w') \<Rightarrow> backoff_wait w'
          | (Return, w') \<Rightarrow> (Stopped, w')
          | (Panic, w') \<Rightarrow> (Crashed, w'))
     | Stopped \<Rightarrow> (Stopped, w)
     | Crashed \<Rightarrow> (Crashed, w))"

definition conn_init :: "ConnectionConfig \<Rightarrow> poll_phase \<times> poll_world" where
  "conn_init cfg =
     (Connecting, \<lparr>pw_calls = 0, pw_slave = 0,
        pw_backoff = Backoff_new (dur_from_secs (cn_reconnect_backoff_min_secs cfg))
          (dur_from_secs (cn_reconnect_backoff_max_secs cfg)),
        pw_trace = []\<rparr>)"

text \<open>The task after \<open>n\<close> connect attempts and ticks.\<close>

definition run_connection :: "poll_env \<Rightarrow> ConnectionConfig \<Rightarrow> nat \<Rightarrow> poll_phase \<times> poll_world" where
  "run_connection env cfg n = (conn_step env cfg ^^ n) (conn_init cfg)"

lemma run_connection_0 [simp]: "run_connection env cfg 0 = conn_init cfg"
  by (simp add: run_connection_def)

lemma run_connection_Suc: "run_connection env cfg (Suc n) = conn_step env cfg (run_connection env cfg n)"
  by (simp add: run_connection_def)

section \<open>What one tick does\<close>

lemma world_simps [simp]:
  "pw_trace (emit as w) = pw_trace w @ as" "pw_calls (emit as w) = pw_calls w"
  "pw_slave (emit as w) = pw_slave w" "pw_backoff (emit as w) = pw_backoff w"
  "pw_trace (called w) = pw_trace w" "pw_calls (called w) = Suc (pw_calls w)"
  "pw_slave (called w) = pw_slave w" "pw_backoff (called w) = pw_backoff w"
  by (simp_all add: emit_def called_def)

lemma emit_emit [simp]: "emit bs (emit as w) = emit (as @ bs) w"
  by (simp add: emit_def)

text \<open>
  The part of a trace that polls one block: the request with its result, the delay between frames,
  and, for a result with registers, one reading for each point of the block, in order, with the
  value decoded from those registers, sent or dropped.
\<close>

definition forwarded :: "Reading \<Rightarrow> poll_action \<Rightarrow> bool" where
  "forwarded r a \<longleftrightarrow> a = ActSend r \<or> a = ActDrop r"

definition frame_gap :: "ConnectionConfig \<Rightarrow> poll_action list" where
  "frame_gap cfg = (case inter_frame_delay (cn_transport cfg) of None \<Rightarrow> [] | Some d \<Rightarrow> [ActSleep d])"

definition request_part :: "ConnectionConfig \<Rightarrow> DeviceConfig \<Rightarrow> BlockConfig \<Rightarrow> BlockResult \<Rightarrow> poll_action list" where
  "request_part cfg d b res =
     ActRead (dv_unit_id d) (bk_function b) (bk_start b) (bk_count b) res # frame_gap cfg"

definition block_problem :: "poll_env \<Rightarrow> BlockResult \<Rightarrow> string option" where
  "block_problem env res =
     (case res of
        Exception code \<Rightarrow> Some (''exception: '' @ pe_show_exception env code)
      | Protocol e \<Rightarrow> Some ''protocol error''
      | Timeout \<Rightarrow> Some ''timeout''
      | _ \<Rightarrow> None)"

definition words_part :: "ConnectionConfig \<Rightarrow> DeviceConfig \<Rightarrow> BlockConfig \<Rightarrow> poll_action list \<Rightarrow> bool" where
  "words_part cfg d b seg \<longleftrightarrow>
     (\<exists>words vals sends. seg = request_part cfg d b (Words words) @ sends \<and>
        decode b words = Some vals \<and> list_all2 forwarded (map (reading_of d) vals) sends)"

definition problem_part ::
  "poll_env \<Rightarrow> ConnectionConfig \<Rightarrow> DeviceConfig \<Rightarrow> BlockConfig \<Rightarrow> string \<Rightarrow> poll_action list \<Rightarrow> bool" where
  "problem_part env cfg d b reason seg \<longleftrightarrow>
     (\<exists>res. seg = request_part cfg d b res \<and> block_problem env res = Some reason)"

text \<open>
  The part that polls one device: the unit is selected, its blocks are requested in order up to the
  first problem, and the outcome is reported.
\<close>

definition device_ok_part :: "ConnectionConfig \<Rightarrow> DeviceConfig \<Rightarrow> poll_action list \<Rightarrow> bool" where
  "device_ok_part cfg d seg \<longleftrightarrow>
     (\<exists>parts. list_all2 (words_part cfg d) (dv_blocks d) parts \<and>
        seg = ActSetSlave (dv_unit_id d) # concat parts @ [ActReport (DeviceOk (cn_id cfg) (dv_id d))])"

definition device_problem_part :: "poll_env \<Rightarrow> ConnectionConfig \<Rightarrow> DeviceConfig \<Rightarrow> poll_action list \<Rightarrow> bool" where
  "device_problem_part env cfg d seg \<longleftrightarrow>
     (\<exists>before b after parts bad reason.
        dv_blocks d = before @ b # after \<and> list_all2 (words_part cfg d) before parts \<and>
        problem_part env cfg d b reason bad \<and>
        seg = ActSetSlave (dv_unit_id d) # concat parts @ bad @
          [ActReport (DeviceProblem (cn_id cfg) (dv_id d) reason)])"

lemma send_values_continue:
  "send_values env d pvs w = (Continue, w') \<Longrightarrow>
     \<exists>sends. pw_trace w' = pw_trace w @ sends \<and> list_all2 forwarded (map (reading_of d) pvs) sends \<and>
       pw_slave w' = pw_slave w"
proof (induction pvs arbitrary: w)
  case (Cons pv pvs)
  let ?r = "reading_of d pv"
  obtain a where a: "forwarded ?r a" "send_values env d pvs (emit [a] (called w)) = (Continue, w')"
    using Cons.prems by (auto simp: Let_def forwarded_def split: send_result.splits)
  from Cons.IH [OF a(2)] a(1) show ?case by auto
qed simp

definition block_result :: "poll_env \<Rightarrow> ConnectionConfig \<Rightarrow> BlockConfig \<Rightarrow> poll_world \<Rightarrow> BlockResult" where
  "block_result env cfg b w = fst (read_block env b (io_timeout cfg) w)"

lemma read_block_eq:
  "read_block env b (io_timeout cfg) w =
     (block_result env cfg b w,
      emit [ActRead (pw_slave w) (bk_function b) (bk_start b) (bk_count b) (block_result env cfg b w)] (called w))"
  by (simp add: block_result_def read_block_def Let_def)

lemma poll_block_eq:
  assumes "pw_slave w = dv_unit_id d"
  shows "poll_block env cfg d b w =
    (let res = block_result env cfg b w; w2 = emit (request_part cfg d b res) (called w)
     in case res of
          Words words \<Rightarrow>
            (case decode b words of
               None \<Rightarrow> (Panic, w2\<lparr>pw_backoff := Backoff_reset (pw_backoff w)\<rparr>)
             | Some vals \<Rightarrow> send_values env d vals (w2\<lparr>pw_backoff := Backoff_reset (pw_backoff w)\<rparr>))
        | TransportFatal e \<Rightarrow> (Reconnect, emit [ActReport (ConnectionDown (cn_id cfg))] w2)
        | _ \<Rightarrow> (Skip (the (block_problem env res)), w2))"
  by (simp add: poll_block_def read_block_eq assms request_part_def frame_gap_def Let_def block_problem_def
      split: option.split BlockResult.split)

lemma send_values_flow: "fst (send_values env d vals w) = Continue \<or> fst (send_values env d vals w) = Return"
  by (induction vals arbitrary: w) (auto simp: Let_def split: send_result.split)

lemma poll_block_continue:
  assumes pb: "poll_block env cfg d b w = (Continue, w')" and sl: "pw_slave w = dv_unit_id d"
  shows "\<exists>seg. pw_trace w' = pw_trace w @ seg \<and> words_part cfg d b seg \<and> pw_slave w' = pw_slave w"
proof -
  define res where "res = block_result env cfg b w"
  note eq = poll_block_eq [OF sl, of env cfg b, folded res_def, unfolded Let_def pb]
  show ?thesis
  proof (cases res)
    case (Words words)
    with eq obtain vals where vals: "decode b words = Some vals" by (cases "decode b words") auto
    with eq Words have "send_values env d vals ((emit (request_part cfg d b res) (called w))
        \<lparr>pw_backoff := Backoff_reset (pw_backoff w)\<rparr>) = (Continue, w')" by simp
    from send_values_continue [OF this] obtain sends where
      "pw_trace w' = pw_trace w @ request_part cfg d b (Words words) @ sends"
      "list_all2 forwarded (map (reading_of d) vals) sends" "pw_slave w' = pw_slave w"
      using Words by auto
    then show ?thesis unfolding words_part_def using vals by blast
  qed (use eq in simp_all)
qed

lemma poll_block_skip:
  assumes pb: "poll_block env cfg d b w = (Skip reason, w')" and sl: "pw_slave w = dv_unit_id d"
  shows "\<exists>seg. pw_trace w' = pw_trace w @ seg \<and> problem_part env cfg d b reason seg"
proof -
  define res where "res = block_result env cfg b w"
  note eq = poll_block_eq [OF sl, of env cfg b, folded res_def, unfolded Let_def pb]
  have "w' = emit (request_part cfg d b res) (called w) \<and> block_problem env res = Some reason"
  proof (cases res)
    case (Words words)
    let ?w = "(emit (request_part cfg d b res) (called w))\<lparr>pw_backoff := Backoff_reset (pw_backoff w)\<rparr>"
    from eq Words obtain vals where "send_values env d vals ?w = (Skip reason, w')"
      by (cases "decode b words") auto
    with send_values_flow [of env d vals ?w] show ?thesis by simp
  qed (use eq in \<open>simp_all add: block_problem_def\<close>)
  then show ?thesis unfolding problem_part_def by auto
qed

lemma poll_blocks_continue:
  "poll_blocks env cfg d bs w = (Continue, w') \<Longrightarrow> pw_slave w = dv_unit_id d \<Longrightarrow>
     \<exists>parts. pw_trace w' = pw_trace w @ concat parts \<and> list_all2 (words_part cfg d) bs parts"
proof (induction bs arbitrary: w)
  case (Cons b bs)
  then obtain w1 where w1: "poll_block env cfg d b w = (Continue, w1)" "poll_blocks env cfg d bs w1 = (Continue, w')"
    by (auto split: prod.splits poll_flow.splits)
  from poll_block_continue [OF w1(1) Cons.prems(2)] obtain seg where
    seg: "pw_trace w1 = pw_trace w @ seg" "words_part cfg d b seg" "pw_slave w1 = dv_unit_id d"
    using Cons.prems(2) by auto
  from Cons.IH [OF w1(2) seg(3)] obtain parts where
    "pw_trace w' = pw_trace w1 @ concat parts" "list_all2 (words_part cfg d) bs parts" by blast
  with seg show ?case by (intro exI [of _ "seg # parts"]) simp
qed simp

lemma poll_blocks_skip:
  "poll_blocks env cfg d bs w = (Skip reason, w') \<Longrightarrow> pw_slave w = dv_unit_id d \<Longrightarrow>
     \<exists>before b after parts bad. bs = before @ b # after \<and> list_all2 (words_part cfg d) before parts \<and>
       problem_part env cfg d b reason bad \<and> pw_trace w' = pw_trace w @ concat parts @ bad"
proof (induction bs arbitrary: w)
  case (Cons b bs)
  obtain flow w1 where pb: "poll_block env cfg d b w = (flow, w1)" by fastforce
  show ?case
  proof (cases flow)
    case Continue
    with pb poll_block_continue [of env cfg d b w w1] Cons.prems(2) obtain seg where
      seg: "pw_trace w1 = pw_trace w @ seg" "words_part cfg d b seg" "pw_slave w1 = dv_unit_id d" by auto
    have "poll_blocks env cfg d bs w1 = (Skip reason, w')" using Cons.prems(1) pb Continue by simp
    from Cons.IH [OF this seg(3)] obtain before b' after parts bad where
      "bs = before @ b' # after" "list_all2 (words_part cfg d) before parts"
      "problem_part env cfg d b' reason bad" "pw_trace w' = pw_trace w1 @ concat parts @ bad" by blast
    with seg show ?thesis
      by (intro exI [of _ "b # before"] exI [of _ b'] exI [of _ after] exI [of _ "seg # parts"] exI [of _ bad]) simp
  next
    case (Skip r)
    then have "poll_block env cfg d b w = (Skip reason, w')" using Cons.prems(1) pb by simp
    from poll_block_skip [OF this Cons.prems(2)] obtain seg where
      "pw_trace w' = pw_trace w @ seg" "problem_part env cfg d b reason seg" by blast
    then show ?thesis by (intro exI [of _ "[]"] exI [of _ b] exI [of _ bs] exI [of _ seg]) simp
  qed (use Cons.prems(1) pb in simp_all)
qed simp

lemma poll_device_continue:
  assumes "poll_device env cfg d w = (Continue, w')"
  shows "\<exists>seg. pw_trace w' = pw_trace w @ seg \<and> (device_ok_part cfg d seg \<or> device_problem_part env cfg d seg)"
proof -
  let ?w1 = "emit [ActSetSlave (dv_unit_id d)] (w\<lparr>pw_slave := dv_unit_id d\<rparr>)"
  obtain flow w2 where pb: "poll_blocks env cfg d (dv_blocks d) ?w1 = (flow, w2)" by fastforce
  have slave: "pw_slave ?w1 = dv_unit_id d" by simp
  show ?thesis
  proof (cases flow)
    case Continue
    with poll_blocks_continue [of env cfg d "dv_blocks d" ?w1 w2] pb obtain parts where
      "pw_trace w2 = pw_trace ?w1 @ concat parts" "list_all2 (words_part cfg d) (dv_blocks d) parts" by auto
    moreover have "w' = emit [ActReport (DeviceOk (cn_id cfg) (dv_id d))] w2"
      using assms pb Continue by (simp add: poll_device_def Let_def)
    ultimately show ?thesis unfolding device_ok_part_def by auto
  next
    case (Skip reason)
    with poll_blocks_skip [of env cfg d "dv_blocks d" ?w1 reason w2] pb obtain before b after parts bad where
      "dv_blocks d = before @ b # after" "list_all2 (words_part cfg d) before parts"
      "problem_part env cfg d b reason bad" "pw_trace w2 = pw_trace ?w1 @ concat parts @ bad" by auto
    moreover have "w' = emit [ActReport (DeviceProblem (cn_id cfg) (dv_id d) reason)] w2"
      using assms pb Skip by (simp add: poll_device_def Let_def)
    ultimately have "device_problem_part env cfg d (ActSetSlave (dv_unit_id d) # concat parts @ bad @
          [ActReport (DeviceProblem (cn_id cfg) (dv_id d) reason)])"
      "pw_trace w' = pw_trace w @ (ActSetSlave (dv_unit_id d) # concat parts @ bad @
          [ActReport (DeviceProblem (cn_id cfg) (dv_id d) reason)])"
      unfolding device_problem_part_def by (blast, simp)
    then show ?thesis by blast
  qed (use assms pb in \<open>simp_all add: poll_device_def Let_def\<close>)
qed

lemma poll_devices_continue:
  "poll_devices env cfg ds w = (Continue, w') \<Longrightarrow>
     \<exists>segs. pw_trace w' = pw_trace w @ concat segs \<and>
       list_all2 (\<lambda>d seg. device_ok_part cfg d seg \<or> device_problem_part env cfg d seg) ds segs"
proof (induction ds arbitrary: w)
  case (Cons d ds)
  then obtain w1 where w1: "poll_device env cfg d w = (Continue, w1)" "poll_devices env cfg ds w1 = (Continue, w')"
    by (auto split: prod.splits poll_flow.splits)
  from poll_device_continue [OF w1(1)] obtain seg where
    "pw_trace w1 = pw_trace w @ seg" "device_ok_part cfg d seg \<or> device_problem_part env cfg d seg" by blast
  moreover from Cons.IH [OF w1(2)] obtain segs where "pw_trace w' = pw_trace w1 @ concat segs"
    "list_all2 (\<lambda>d seg. device_ok_part cfg d seg \<or> device_problem_part env cfg d seg) ds segs" by blast
  ultimately show ?case by (intro exI [of _ "seg # segs"]) simp
qed simp

section \<open>The environment's answers\<close>

text \<open>
  What is recorded is what happened outside: the result of a read is the answer of the environment
  to exactly that request, a reading is sent only if the channel took it and dropped only if the channel
  was full. \<open>n\<close> counts the calls made before.
\<close>

definition is_call :: "poll_action \<Rightarrow> bool" where
  "is_call a =
     (case a of ActConnect _ \<Rightarrow> True | ActRead _ _ _ _ _ \<Rightarrow> True | ActSend _ \<Rightarrow> True | ActDrop _ \<Rightarrow> True | _ \<Rightarrow> False)"

definition calls_in :: "poll_action list \<Rightarrow> nat" where
  "calls_in tr = length (filter is_call tr)"

definition replies :: "poll_env \<Rightarrow> nat \<Rightarrow> duration \<Rightarrow> u8 \<Rightarrow> Function \<Rightarrow> u16 \<Rightarrow> u16 \<Rightarrow> BlockResult \<Rightarrow> bool" where
  "replies env n t u f s c res =
     (case res of
        Timeout \<Rightarrow> pe_elapsed env n t
      | Words ws \<Rightarrow> \<not> pe_elapsed env n t \<and> pe_read_registers env n u f s c = Inr (Inr ws)
      | Exception code \<Rightarrow> \<not> pe_elapsed env n t \<and> pe_read_registers env n u f s c = Inr (Inl code)
      | Protocol e \<Rightarrow> \<not> pe_elapsed env n t \<and> pe_read_registers env n u f s c = Inl e \<and> (\<exists>msg. e = ErrProtocol msg)
      | TransportFatal e \<Rightarrow>
          \<not> pe_elapsed env n t \<and> pe_read_registers env n u f s c = Inl e \<and> (\<exists>msg. e = ErrTransport msg))"

definition answers :: "poll_env \<Rightarrow> duration \<Rightarrow> nat \<Rightarrow> poll_action \<Rightarrow> bool" where
  "answers env t n a =
     (case a of
        ActRead u f s c res \<Rightarrow> replies env n t u f s c res
      | ActSend r \<Rightarrow> pe_try_send env n r = SendOk
      | ActDrop r \<Rightarrow> pe_try_send env n r = SendFull
      | _ \<Rightarrow> True)"

primrec answered :: "poll_env \<Rightarrow> duration \<Rightarrow> nat \<Rightarrow> poll_action list \<Rightarrow> bool" where
  "answered env t n [] = True"
| "answered env t n (a # as) \<longleftrightarrow> answers env t n a \<and> answered env t (if is_call a then Suc n else n) as"

lemma calls_in_simps [simp]:
  "calls_in [] = 0" "calls_in (a # as) = (if is_call a then Suc (calls_in as) else calls_in as)"
  "calls_in (xs @ ys) = calls_in xs + calls_in ys"
  by (simp_all add: calls_in_def)

lemma answered_append [simp]:
  "answered env t n (xs @ ys) \<longleftrightarrow> answered env t n xs \<and> answered env t (n + calls_in xs) ys"
  by (induction xs arbitrary: n) simp_all

text \<open>From \<open>w\<close> to \<open>w'\<close> the task did actions whose results are the environment's answers.\<close>

definition extends :: "poll_env \<Rightarrow> duration \<Rightarrow> poll_world \<Rightarrow> poll_world \<Rightarrow> bool" where
  "extends env t w w' \<longleftrightarrow>
     (\<exists>as. pw_trace w' = pw_trace w @ as \<and> pw_calls w' = pw_calls w + calls_in as \<and> answered env t (pw_calls w) as)"

lemma extends_refl [simp]: "extends env t w w"
  by (simp add: extends_def)

lemma extends_trans: "extends env t w w1 \<Longrightarrow> extends env t w1 w2 \<Longrightarrow> extends env t w w2"
  by (fastforce simp: extends_def)

lemma extends_emit: "list_all (\<lambda>a. \<not> is_call a) as \<Longrightarrow> extends env t w (emit as w)"
proof -
  have "answered env t n as \<and> calls_in as = 0" if "list_all (\<lambda>a. \<not> is_call a) as" for n
    using that by (induction as arbitrary: n) (auto simp: answers_def is_call_def split: poll_action.splits)
  then show "list_all (\<lambda>a. \<not> is_call a) as \<Longrightarrow> extends env t w (emit as w)" by (simp add: extends_def)
qed

lemma extends_call: "is_call a \<Longrightarrow> answers env t (pw_calls w) a \<Longrightarrow> extends env t w (emit [a] (called w))"
  by (simp add: extends_def)

lemma extends_fields [simp]:
  "extends env t w (w'\<lparr>pw_slave := u\<rparr>) \<longleftrightarrow> extends env t w w'"
  "extends env t w (w'\<lparr>pw_backoff := b\<rparr>) \<longleftrightarrow> extends env t w w'"
  "extends env t (w\<lparr>pw_slave := u\<rparr>) w' \<longleftrightarrow> extends env t w w'"
  "extends env t (w\<lparr>pw_backoff := b\<rparr>) w' \<longleftrightarrow> extends env t w w'"
  by (simp_all add: extends_def)

lemma is_call_simps [simp]:
  "is_call (ActConnect tr)" "is_call (ActRead u f s c res)" "is_call (ActSend r)" "is_call (ActDrop r)"
  "\<not> is_call (ActReport ev)" "\<not> is_call (ActBackoff d)" "\<not> is_call ActTick" "\<not> is_call (ActSetSlave u)"
  "\<not> is_call (ActSleep d)"
  by (simp_all add: is_call_def)

lemma send_values_extends: "extends env t w (snd (send_values env d pvs w))"
proof (induction pvs arbitrary: w)
  case (Cons pv pvs)
  let ?r = "reading_of d pv"
  have "extends env t w (emit [ActSend ?r] (called w))" if "pe_try_send env (pw_calls w) ?r = SendOk"
    using that by (intro extends_call) (simp_all add: answers_def)
  moreover have "extends env t w (emit [ActDrop ?r] (called w))" if "pe_try_send env (pw_calls w) ?r = SendFull"
    using that by (intro extends_call) (simp_all add: answers_def)
  ultimately show ?case
    using extends_trans Cons.IH by (simp add: Let_def split: send_result.split) blast
qed simp

lemma read_block_replies:
  "replies env (pw_calls w) (io_timeout cfg) (pw_slave w) (bk_function b) (bk_start b) (bk_count b) (block_result env cfg b w)"
  by (simp add: replies_def block_result_def read_block_def Let_def is_transport_fatal_def
      split: BlockResult.split sum.split ModbusError.split)

lemma frame_gap_no_call: "list_all (\<lambda>a. \<not> is_call a) (frame_gap cfg)"
  by (simp add: frame_gap_def split: option.split)

lemma request_extends:
  assumes "pw_slave w = dv_unit_id d"
  shows "extends env (io_timeout cfg) w (emit (request_part cfg d b (block_result env cfg b w)) (called w))"
proof -
  let ?read = "ActRead (dv_unit_id d) (bk_function b) (bk_start b) (bk_count b) (block_result env cfg b w)"
  have "extends env (io_timeout cfg) w (emit [?read] (called w))"
    using read_block_replies [of env w cfg b] by (intro extends_call) (simp_all add: answers_def assms)
  from extends_trans [OF this extends_emit [OF frame_gap_no_call [of cfg]]] show ?thesis
    by (simp add: request_part_def)
qed

lemma poll_block_extends:
  assumes "pw_slave w = dv_unit_id d"
  shows "extends env (io_timeout cfg) w (snd (poll_block env cfg d b w))"
proof -
  let ?t = "io_timeout cfg" and ?res = "block_result env cfg b w"
  let ?w1 = "emit (request_part cfg d b ?res) (called w)"
  have w1: "extends env ?t w ?w1" using assms by (rule request_extends)
  have "extends env ?t w (snd (send_values env d vals (?w1\<lparr>pw_backoff := bo\<rparr>)))" for vals bo
    using w1 by (intro extends_trans [OF _ send_values_extends]) simp
  moreover have "extends env ?t w (emit (request_part cfg d b ?res @ [ActReport ev]) (called w))" for ev
    using extends_trans [OF w1 extends_emit [of "[ActReport ev]"]] by simp
  ultimately show ?thesis
    using w1 unfolding poll_block_eq [OF assms] Let_def by (auto split: BlockResult.split option.split)
qed

text \<open>The unit that a part of the loop addresses does not change inside it.\<close>

lemma send_values_slave: "pw_slave (snd (send_values env d pvs w)) = pw_slave w"
  by (induction pvs arbitrary: w) (simp_all add: Let_def split: send_result.split)

lemma poll_block_slave: "pw_slave (snd (poll_block env cfg d b w)) = pw_slave w"
  by (simp add: poll_block_def read_block_eq Let_def send_values_slave split: BlockResult.split option.split)

lemma poll_blocks_extends:
  "pw_slave w = dv_unit_id d \<Longrightarrow> extends env (io_timeout cfg) w (snd (poll_blocks env cfg d bs w))"
proof (induction bs arbitrary: w)
  case (Cons b bs)
  obtain flow w1 where pb: "poll_block env cfg d b w = (flow, w1)" by fastforce
  have "extends env (io_timeout cfg) w w1" using poll_block_extends [OF Cons.prems, of env cfg b] pb by simp
  moreover have "pw_slave w1 = dv_unit_id d" using poll_block_slave [of env cfg d b w] Cons.prems pb by simp
  ultimately show ?case using extends_trans Cons.IH pb by (simp split: poll_flow.split)
qed simp

lemma poll_device_extends: "extends env (io_timeout cfg) w (snd (poll_device env cfg d w))"
proof -
  let ?w1 = "emit [ActSetSlave (dv_unit_id d)] (w\<lparr>pw_slave := dv_unit_id d\<rparr>)"
  obtain flow w2 where pb: "poll_blocks env cfg d (dv_blocks d) ?w1 = (flow, w2)" by fastforce
  have "extends env (io_timeout cfg) w ?w1" using extends_emit [of "[ActSetSlave (dv_unit_id d)]" env _ "w\<lparr>pw_slave := dv_unit_id d\<rparr>"] by simp
  moreover have "extends env (io_timeout cfg) ?w1 w2"
    using poll_blocks_extends [of ?w1 d env cfg "dv_blocks d"] pb by simp
  ultimately have w2: "extends env (io_timeout cfg) w w2" by (rule extends_trans)
  from extends_trans [OF w2 extends_emit [of "[ActReport ev]" for ev]] w2 pb show ?thesis
    by (simp add: poll_device_def Let_def split: poll_flow.split)
qed

lemma poll_devices_extends: "extends env (io_timeout cfg) w (snd (poll_devices env cfg ds w))"
proof (induction ds arbitrary: w)
  case (Cons d ds)
  obtain flow w1 where pd: "poll_device env cfg d w = (flow, w1)" by fastforce
  have "extends env (io_timeout cfg) w w1" using poll_device_extends [of env cfg w d] pd by simp
  then show ?case using extends_trans Cons.IH pd by (simp split: poll_flow.split)
qed simp

lemma poll_tick_extends: "extends env (io_timeout cfg) w (snd (poll_tick env cfg w))"
  unfolding poll_tick_def by (rule extends_trans [OF extends_emit poll_devices_extends]) simp

section \<open>Every action of the task is justified by the ones before it\<close>

text \<open>The waits since the last successful read, which is what the next wait depends on.\<close>

definition fails_since :: "poll_action list \<Rightarrow> nat" where
  "fails_since tr =
     foldl (\<lambda>k a. case a of ActBackoff _ \<Rightarrow> Suc k | ActRead _ _ _ _ (Words _) \<Rightarrow> 0 | _ \<Rightarrow> k) 0 tr"

definition backoff_lo :: "ConnectionConfig \<Rightarrow> duration" where
  "backoff_lo cfg = dur_from_secs (cn_reconnect_backoff_min_secs cfg)"

definition backoff_hi :: "ConnectionConfig \<Rightarrow> duration" where
  "backoff_hi cfg = dur_from_secs (cn_reconnect_backoff_max_secs cfg)"

abbreviation device_parts :: "poll_env \<Rightarrow> ConnectionConfig \<Rightarrow> DeviceConfig list \<Rightarrow> poll_action list list \<Rightarrow> bool" where
  "device_parts env cfg \<equiv> list_all2 (\<lambda>d seg. device_ok_part cfg d seg \<or> device_problem_part env cfg d seg)"

definition configured_read :: "ConnectionConfig \<Rightarrow> DeviceConfig \<Rightarrow> BlockConfig \<Rightarrow> BlockResult \<Rightarrow> poll_action \<Rightarrow> bool" where
  "configured_read cfg d b res a \<longleftrightarrow>
     d \<in> set (cn_devices cfg) \<and> b \<in> set (dv_blocks d) \<and>
     a = ActRead (dv_unit_id d) (bk_function b) (bk_start b) (bk_count b) res"

text \<open>A tick comes right after the connection came up or after a tick over all devices.\<close>

definition tick_due :: "poll_env \<Rightarrow> ConnectionConfig \<Rightarrow> poll_action list \<Rightarrow> bool" where
  "tick_due env cfg pre \<longleftrightarrow>
     (\<exists>p. pre = p @ [ActReport (ConnectionUp (cn_id cfg))]) \<or>
     (\<exists>p segs. pre = p @ ActTick # concat segs \<and> device_parts env cfg (cn_devices cfg) segs)"

text \<open>Unit \<open>u\<close> is selected for the next device of a tick, when those before it are done.\<close>

definition device_due :: "poll_env \<Rightarrow> ConnectionConfig \<Rightarrow> poll_action list \<Rightarrow> u8 \<Rightarrow> bool" where
  "device_due env cfg pre u \<longleftrightarrow>
     (\<exists>p before d after segs. cn_devices cfg = before @ d # after \<and> u = dv_unit_id d \<and>
        pre = p @ ActTick # concat segs \<and> device_parts env cfg before segs)"

text \<open>The request \<open>a\<close> is the one for the next block of the device that is selected.\<close>

definition block_due :: "ConnectionConfig \<Rightarrow> poll_action list \<Rightarrow> BlockResult \<Rightarrow> poll_action \<Rightarrow> bool" where
  "block_due cfg pre res a \<longleftrightarrow>
     (\<exists>p d before b after parts. dv_blocks d = before @ b # after \<and> configured_read cfg d b res a \<and>
        pre = p @ ActSetSlave (dv_unit_id d) # concat parts \<and> list_all2 (words_part cfg d) before parts)"

text \<open>Reading \<open>r\<close> is the next value of the block whose registers came last.\<close>

definition value_due :: "ConnectionConfig \<Rightarrow> poll_action list \<Rightarrow> Reading \<Rightarrow> bool" where
  "value_due cfg pre r \<longleftrightarrow>
     (\<exists>p d b words before pv after sends. d \<in> set (cn_devices cfg) \<and> b \<in> set (dv_blocks d) \<and>
        decode b words = Some (before @ pv # after) \<and> r = reading_of d pv \<and>
        pre = p @ request_part cfg d b (Words words) @ sends \<and>
        list_all2 forwarded (map (reading_of d) before) sends)"

text \<open>Status event \<open>ev\<close> reports what just happened.\<close>

definition report_due :: "poll_env \<Rightarrow> ConnectionConfig \<Rightarrow> poll_action list \<Rightarrow> StatusEvent \<Rightarrow> bool" where
  "report_due env cfg pre ev =
     (case ev of
        ConnectionUp c \<Rightarrow> c = cn_id cfg \<and>
          (\<exists>p ctx. pre = p @ [ActConnect (cn_transport cfg)] \<and>
             connect env (calls_in p) (cn_transport cfg) (io_timeout cfg) = Inr ctx)
      | ConnectionDown c \<Rightarrow> c = cn_id cfg \<and>
          ((\<exists>p e. pre = p @ [ActConnect (cn_transport cfg)] \<and>
              connect env (calls_in p) (cn_transport cfg) (io_timeout cfg) = Inl e) \<or>
           (\<exists>p d b e. d \<in> set (cn_devices cfg) \<and> b \<in> set (dv_blocks d) \<and>
              pre = p @ request_part cfg d b (TransportFatal e)))
      | DeviceOk _ _ \<Rightarrow>
          \<exists>p d seg. d \<in> set (cn_devices cfg) \<and> pre = p @ seg \<and> device_ok_part cfg d (seg @ [ActReport ev])
      | DeviceProblem _ _ _ \<Rightarrow>
          \<exists>p d seg. d \<in> set (cn_devices cfg) \<and> pre = p @ seg \<and> device_problem_part env cfg d (seg @ [ActReport ev])
      | _ \<Rightarrow> False)"

definition justified :: "poll_env \<Rightarrow> ConnectionConfig \<Rightarrow> poll_action list \<Rightarrow> poll_action \<Rightarrow> bool" where
  "justified env cfg pre a =
     (case a of
        ActConnect t \<Rightarrow>
          t = cn_transport cfg \<and>
          (pre = [] \<or> (\<exists>p d. pre = p @ [ActReport (ConnectionDown (cn_id cfg)), ActBackoff d]))
      | ActReport ev \<Rightarrow> report_due env cfg pre ev
      | ActBackoff d \<Rightarrow>
          d = backoff_delay (backoff_lo cfg) (backoff_hi cfg) (fails_since pre) \<and>
          (\<exists>p. pre = p @ [ActReport (ConnectionDown (cn_id cfg))])
      | ActTick \<Rightarrow> tick_due env cfg pre
      | ActSetSlave u \<Rightarrow> device_due env cfg pre u
      | ActRead u f s c res \<Rightarrow> block_due cfg pre res a
      | ActSleep d \<Rightarrow>
          inter_frame_delay (cn_transport cfg) = Some d \<and> (\<exists>p u f s c res. pre = p @ [ActRead u f s c res])
      | ActSend r \<Rightarrow> value_due cfg pre r
      | ActDrop r \<Rightarrow> value_due cfg pre r)"

definition justified_trace :: "poll_env \<Rightarrow> ConnectionConfig \<Rightarrow> poll_action list \<Rightarrow> bool" where
  "justified_trace env cfg tr \<longleftrightarrow> (\<forall>pre a post. tr = pre @ a # post \<longrightarrow> justified env cfg pre a)"

lemma justified_Nil [simp]: "justified_trace env cfg []"
  by (simp add: justified_trace_def)

lemma justified_snoc [simp]:
  "justified_trace env cfg (tr @ [a]) \<longleftrightarrow> justified_trace env cfg tr \<and> justified env cfg tr a"
proof
  assume *: "justified_trace env cfg (tr @ [a])"
  have "justified env cfg pre x" if "tr = pre @ x # post" for pre x post
    using * that unfolding justified_trace_def by (metis append_Cons append_assoc)
  with * show "justified_trace env cfg tr \<and> justified env cfg tr a" unfolding justified_trace_def by blast
next
  assume *: "justified_trace env cfg tr \<and> justified env cfg tr a"
  have "justified env cfg pre x" if "tr @ [a] = pre @ x # post" for pre x post
  proof (cases post rule: rev_cases)
    case Nil
    with * that show ?thesis by simp
  next
    case (snoc post' y)
    with that have "tr = pre @ x # post'" by simp
    with * show ?thesis unfolding justified_trace_def by blast
  qed
  then show "justified_trace env cfg (tr @ [a])" unfolding justified_trace_def by blast
qed

lemma fails_since_snoc:
  "fails_since (tr @ [a]) =
     (case a of ActBackoff _ \<Rightarrow> Suc (fails_since tr) | ActRead _ _ _ _ (Words _) \<Rightarrow> 0 | _ \<Rightarrow> fails_since tr)"
  by (cases a) (simp_all add: fails_since_def split: BlockResult.split)

definition backoff_eq :: "ConnectionConfig \<Rightarrow> poll_world \<Rightarrow> bool" where
  "backoff_eq cfg w \<longleftrightarrow>
     bo_min (pw_backoff w) = backoff_lo cfg \<and> bo_max (pw_backoff w) = backoff_hi cfg \<and>
     bo_current (pw_backoff w) = backoff_delay (backoff_lo cfg) (backoff_hi cfg) (fails_since (pw_trace w))"

definition good :: "poll_env \<Rightarrow> ConnectionConfig \<Rightarrow> poll_world \<Rightarrow> bool" where
  "good env cfg w \<longleftrightarrow> justified_trace env cfg (pw_trace w) \<and> backoff_eq cfg w"

text \<open>Actions that do not count for the backoff: all but the waits and the successful reads.\<close>

definition steady :: "poll_action \<Rightarrow> bool" where
  "steady a = (case a of ActBackoff _ \<Rightarrow> False | ActRead _ _ _ _ (Words _) \<Rightarrow> False | _ \<Rightarrow> True)"

lemma good_snoc:
  assumes "good env cfg w" and "justified env cfg (pw_trace w) a" and "steady a"
  shows "good env cfg (emit [a] w)"
proof -
  have "fails_since (pw_trace w @ [a]) = fails_since (pw_trace w)"
    using assms(3) by (simp add: fails_since_snoc steady_def split: poll_action.splits BlockResult.splits)
  with assms(1,2) show ?thesis by (simp add: good_def backoff_eq_def)
qed

lemma steady_simps [simp]:
  "steady (ActReport ev)" "steady ActTick" "steady (ActSetSlave u)" "steady (ActSleep d)" "steady (ActSend r)"
  "steady (ActDrop r)" "steady (ActConnect t)"
  by (simp_all add: steady_def)

lemma good_called [simp]: "good env cfg (called w) \<longleftrightarrow> good env cfg w"
  by (simp add: good_def backoff_eq_def)

lemma good_slave [simp]: "good env cfg (w\<lparr>pw_slave := u\<rparr>) \<longleftrightarrow> good env cfg w"
  by (simp add: good_def backoff_eq_def)

lemma gap_good:
  assumes "good env cfg w" and "pw_trace w = p @ [ActRead u f s c res]"
  shows "good env cfg (emit (frame_gap cfg) w)"
proof (cases "inter_frame_delay (cn_transport cfg)")
  case None
  with assms(1) show ?thesis by (simp add: frame_gap_def emit_def)
next
  case (Some d)
  with assms have "good env cfg (emit [ActSleep d] w)" by (intro good_snoc) (auto simp: justified_def)
  with Some show ?thesis by (simp add: frame_gap_def)
qed

lemma send_values_good:
  assumes "decode b words = Some vals" and "d \<in> set (cn_devices cfg)" "b \<in> set (dv_blocks d)"
  shows "good env cfg w \<Longrightarrow> vals = before @ pvs \<Longrightarrow>
    pw_trace w = p @ request_part cfg d b (Words words) @ sends \<Longrightarrow>
    list_all2 forwarded (map (reading_of d) before) sends \<Longrightarrow> good env cfg (snd (send_values env d pvs w))"
proof (induction pvs arbitrary: w before sends)
  case (Cons pv pvs)
  let ?r = "reading_of d pv"
  have due: "value_due cfg (pw_trace w) ?r"
    unfolding value_due_def using assms Cons.prems(2-4) by blast
  have "good env cfg (snd (send_values env d pvs (emit [a] (called w))))" if "a = ActSend ?r \<or> a = ActDrop ?r" for a
  proof (rule Cons.IH [where before = "before @ [pv]" and sends = "sends @ [a]"])
    have j: "justified env cfg (pw_trace (called w)) a" using due that by (auto simp: justified_def)
    show "good env cfg (emit [a] (called w))"
      using Cons.prems(1) that by (intro good_snoc [OF _ j]) auto
    show "list_all2 forwarded (map (reading_of d) (before @ [pv])) (sends @ [a])"
    proof -
      have "forwarded ?r a" using that by (auto simp: forwarded_def)
      with Cons.prems(4) show ?thesis by (simp add: list_all2_appendI)
    qed
  qed (use Cons.prems(2,3) in simp_all)
  with Cons.prems(1) show ?case by (simp add: Let_def split: send_result.split)
qed simp

text \<open>The request part of a block, with the reset of the backoff when registers came back.\<close>

lemma request_good:
  assumes "good env cfg w"
    and "block_due cfg (pw_trace w) res (ActRead (dv_unit_id d) (bk_function b) (bk_start b) (bk_count b) res)"
  shows "(\<And>words. res \<noteq> Words words) \<Longrightarrow> good env cfg (emit (request_part cfg d b res) w)"
    and "res = Words words \<Longrightarrow>
      good env cfg ((emit (request_part cfg d b res) w)\<lparr>pw_backoff := Backoff_reset (pw_backoff w)\<rparr>)"
proof -
  let ?read = "ActRead (dv_unit_id d) (bk_function b) (bk_start b) (bk_count b) res"
  have j: "justified env cfg (pw_trace w) ?read" using assms(2) by (simp add: justified_def)
  show "good env cfg (emit (request_part cfg d b res) w)" if "\<And>words. res \<noteq> Words words"
  proof -
    have "steady ?read" using that by (simp add: steady_def split: BlockResult.split)
    from gap_good [OF good_snoc [OF assms(1) j this]] show ?thesis by (simp add: request_part_def)
  qed
  show "good env cfg ((emit (request_part cfg d b res) w)\<lparr>pw_backoff := Backoff_reset (pw_backoff w)\<rparr>)"
    if "res = Words words"
  proof -
    let ?w = "(emit [?read] w)\<lparr>pw_backoff := Backoff_reset (pw_backoff w)\<rparr>"
    have "good env cfg ?w"
      using assms(1) j that by (simp add: good_def backoff_eq_def fails_since_snoc Backoff_reset_def)
    from gap_good [OF this] have "good env cfg (emit (frame_gap cfg) ?w)" by simp
    moreover have "emit (frame_gap cfg) ?w =
        (emit (request_part cfg d b res) w)\<lparr>pw_backoff := Backoff_reset (pw_backoff w)\<rparr>"
      by (simp add: request_part_def emit_def)
    ultimately show ?thesis by simp
  qed
qed

lemma poll_block_good:
  assumes g: "good env cfg w" and d: "d \<in> set (cn_devices cfg)" and sl: "pw_slave w = dv_unit_id d"
    and blocks: "dv_blocks d = before @ b # after"
    and tr: "pw_trace w = p @ ActSetSlave (dv_unit_id d) # concat parts" "list_all2 (words_part cfg d) before parts"
  shows "good env cfg (snd (poll_block env cfg d b w))"
proof -
  define res where "res = block_result env cfg b w"
  note eq = poll_block_eq [OF sl, of env cfg b, folded res_def, unfolded Let_def]
  have b: "b \<in> set (dv_blocks d)" using blocks by simp
  have due: "block_due cfg (pw_trace (called w)) res (ActRead (dv_unit_id d) (bk_function b) (bk_start b) (bk_count b) res)"
  proof -
    have "configured_read cfg d b res (ActRead (dv_unit_id d) (bk_function b) (bk_start b) (bk_count b) res)"
      using d b by (simp add: configured_read_def)
    then show ?thesis unfolding block_due_def world_simps using blocks tr by blast
  qed
  have g': "good env cfg (called w)" using g by simp
  show ?thesis
  proof (cases res)
    case (Words words)
    let ?w = "(emit (request_part cfg d b (Words words)) (called w))\<lparr>pw_backoff := Backoff_reset (pw_backoff w)\<rparr>"
    have gw: "good env cfg ?w" using request_good(2) [OF g' due] Words by simp
    show ?thesis
    proof (cases "decode b words")
      case (Some vals)
      have "good env cfg (snd (send_values env d vals ?w))"
        by (rule send_values_good [OF Some d b gw, where before = "[]" and sends = "[]" and p = "pw_trace w"]) simp_all
      with Words Some show ?thesis by (simp add: eq)
    qed (use Words gw in \<open>simp add: eq\<close>)
  next
    case (TransportFatal e)
    have g1: "good env cfg (emit (request_part cfg d b res) (called w))"
      using TransportFatal by (intro request_good(1) [OF g' due]) simp
    have "report_due env cfg (pw_trace (emit (request_part cfg d b res) (called w))) (ConnectionDown (cn_id cfg))"
      unfolding report_due_def StatusEvent.case world_simps TransportFatal using d b by blast
    then have "justified env cfg (pw_trace (emit (request_part cfg d b res) (called w))) (ActReport (ConnectionDown (cn_id cfg)))"
      by (simp add: justified_def)
    from good_snoc [OF g1 this] TransportFatal show ?thesis by (simp add: eq)
  qed (use request_good(1) [OF g' due] in \<open>simp_all add: eq\<close>)
qed

lemma poll_blocks_good:
  "good env cfg w \<Longrightarrow> d \<in> set (cn_devices cfg) \<Longrightarrow> pw_slave w = dv_unit_id d \<Longrightarrow> dv_blocks d = before @ bs \<Longrightarrow>
     pw_trace w = p @ ActSetSlave (dv_unit_id d) # concat parts \<Longrightarrow> list_all2 (words_part cfg d) before parts \<Longrightarrow>
     good env cfg (snd (poll_blocks env cfg d bs w))"
proof (induction bs arbitrary: w before parts)
  case (Cons b bs)
  obtain flow w1 where pb: "poll_block env cfg d b w = (flow, w1)" by fastforce
  have g1: "good env cfg w1" using poll_block_good [OF Cons.prems] pb by simp
  show ?case
  proof (cases flow)
    case Continue
    with pb poll_block_continue [of env cfg d b w w1] Cons.prems(3) obtain seg where
      seg: "pw_trace w1 = pw_trace w @ seg" "words_part cfg d b seg" "pw_slave w1 = dv_unit_id d" by auto
    have "good env cfg (snd (poll_blocks env cfg d bs w1))"
      by (rule Cons.IH [where before = "before @ [b]" and parts = "parts @ [seg]", OF g1 Cons.prems(2) seg(3)])
        (use Cons.prems(4-6) seg in \<open>auto intro!: list_all2_appendI\<close>)
    with pb Continue show ?thesis by simp
  qed (use pb g1 in simp_all)
qed simp

lemma poll_device_good:
  assumes g: "good env cfg w" and ds: "cn_devices cfg = before @ d # after"
    and tr: "pw_trace w = p @ ActTick # concat segs" "device_parts env cfg before segs"
  shows "good env cfg (snd (poll_device env cfg d w))"
proof -
  let ?w1 = "emit [ActSetSlave (dv_unit_id d)] (w\<lparr>pw_slave := dv_unit_id d\<rparr>)"
  obtain flow w2 where pb: "poll_blocks env cfg d (dv_blocks d) ?w1 = (flow, w2)" by fastforce
  have d: "d \<in> set (cn_devices cfg)" using ds by simp
  have "device_due env cfg (pw_trace w) (dv_unit_id d)" unfolding device_due_def using ds tr by blast
  then have "good env cfg ?w1" using g by (intro good_snoc) (simp_all add: justified_def)
  from poll_blocks_good [OF this d, of "[]" "dv_blocks d" "pw_trace w" "[]"] pb have g2: "good env cfg w2" by simp
  have due: "good env cfg (emit [ActReport ev] w2)" if "report_due env cfg (pw_trace w2) ev" for ev
    using that by (intro good_snoc [OF g2]) (simp_all add: justified_def)
  show ?thesis
  proof (cases flow)
    case Continue
    with poll_blocks_continue [of env cfg d "dv_blocks d" ?w1 w2] pb obtain parts where parts:
      "pw_trace w2 = pw_trace w @ ActSetSlave (dv_unit_id d) # concat parts"
      "list_all2 (words_part cfg d) (dv_blocks d) parts" by auto
    let ?ev = "DeviceOk (cn_id cfg) (dv_id d)" and ?seg = "ActSetSlave (dv_unit_id d) # concat parts"
    have "device_ok_part cfg d (?seg @ [ActReport ?ev])" unfolding device_ok_part_def using parts(2) by auto
    then have "report_due env cfg (pw_trace w2) ?ev"
      using d parts(1) unfolding report_due_def StatusEvent.case by blast
    from due [OF this] pb Continue show ?thesis by (simp add: poll_device_def Let_def)
  next
    case (Skip reason)
    with poll_blocks_skip [of env cfg d "dv_blocks d" ?w1 reason w2] pb obtain before b after parts bad where
      parts: "dv_blocks d = before @ b # after" "list_all2 (words_part cfg d) before parts"
      "problem_part env cfg d b reason bad"
      "pw_trace w2 = pw_trace w @ ActSetSlave (dv_unit_id d) # concat parts @ bad" by auto
    let ?ev = "DeviceProblem (cn_id cfg) (dv_id d) reason" and ?seg = "ActSetSlave (dv_unit_id d) # concat parts @ bad"
    have "device_problem_part env cfg d (?seg @ [ActReport ?ev])"
      unfolding device_problem_part_def append_Cons append_assoc using parts(1-3) by blast
    then have "report_due env cfg (pw_trace w2) ?ev"
      using d parts(4) unfolding report_due_def StatusEvent.case by blast
    from due [OF this] pb Skip show ?thesis by (simp add: poll_device_def Let_def)
  qed (use pb g2 in \<open>simp_all add: poll_device_def Let_def\<close>)
qed

lemma poll_devices_good:
  "good env cfg w \<Longrightarrow> cn_devices cfg = before @ ds \<Longrightarrow> pw_trace w = p @ ActTick # concat segs \<Longrightarrow>
     device_parts env cfg before segs \<Longrightarrow> good env cfg (snd (poll_devices env cfg ds w))"
proof (induction ds arbitrary: w before segs)
  case (Cons d ds)
  obtain flow w1 where pd: "poll_device env cfg d w = (flow, w1)" by fastforce
  have g1: "good env cfg w1" using poll_device_good [OF Cons.prems] pd by simp
  show ?case
  proof (cases flow)
    case Continue
    with pd poll_device_continue [of env cfg d w w1] obtain seg where
      seg: "pw_trace w1 = pw_trace w @ seg" "device_ok_part cfg d seg \<or> device_problem_part env cfg d seg" by auto
    have "good env cfg (snd (poll_devices env cfg ds w1))"
      by (rule Cons.IH [where before = "before @ [d]" and segs = "segs @ [seg]", OF g1])
        (use Cons.prems(2-4) seg in \<open>auto intro!: list_all2_appendI\<close>)
    with pd Continue show ?thesis by simp
  qed (use pd g1 in simp_all)
qed simp

lemma poll_tick_good:
  assumes "good env cfg w" and "tick_due env cfg (pw_trace w)"
  shows "good env cfg (snd (poll_tick env cfg w))"
proof -
  have "good env cfg (emit [ActTick] w)" using assms by (intro good_snoc) (simp_all add: justified_def)
  then show ?thesis
    unfolding poll_tick_def by (rule poll_devices_good [where before = "[]" and segs = "[]" and p = "pw_trace w"]) simp_all
qed

section \<open>How a tick can end\<close>

lemma poll_blocks_flow:
  "poll_blocks env cfg d bs w = (flow, w') \<Longrightarrow> flow \<noteq> Continue \<Longrightarrow> pw_slave w = dv_unit_id d \<Longrightarrow>
     \<exists>b \<in> set bs. \<exists>w1. poll_block env cfg d b w1 = (flow, w') \<and> pw_slave w1 = dv_unit_id d"
proof (induction bs arbitrary: w)
  case (Cons b bs)
  obtain fl w1 where pb: "poll_block env cfg d b w = (fl, w1)" by fastforce
  show ?case
  proof (cases "fl = Continue")
    case True
    have "pw_slave w1 = dv_unit_id d" using poll_block_slave [of env cfg d b w] Cons.prems(3) pb by simp
    with Cons.IH [of w1] Cons.prems pb True show ?thesis by auto
  next
    case False
    then have "poll_block env cfg d b w = (flow, w')" using Cons.prems(1) pb by (cases fl) simp_all
    with Cons.prems(3) show ?thesis by auto
  qed
qed simp

lemma poll_device_flow:
  assumes "poll_device env cfg d w = (flow, w')" and "flow \<noteq> Continue"
  shows "(\<forall>reason. flow \<noteq> Skip reason) \<and>
    (\<exists>b \<in> set (dv_blocks d). \<exists>w1. poll_block env cfg d b w1 = (flow, w') \<and> pw_slave w1 = dv_unit_id d)"
proof -
  let ?w1 = "emit [ActSetSlave (dv_unit_id d)] (w\<lparr>pw_slave := dv_unit_id d\<rparr>)"
  obtain fl w2 where pb: "poll_blocks env cfg d (dv_blocks d) ?w1 = (fl, w2)" by fastforce
  then have "fl = flow" "w2 = w'" "\<forall>reason. flow \<noteq> Skip reason"
    using assms by (auto simp: poll_device_def Let_def split: poll_flow.splits)
  with poll_blocks_flow [OF pb] assms(2) show ?thesis by auto
qed

lemma poll_devices_flow:
  "poll_devices env cfg ds w = (flow, w') \<Longrightarrow> flow \<noteq> Continue \<Longrightarrow>
     (\<forall>reason. flow \<noteq> Skip reason) \<and>
     (\<exists>d \<in> set ds. \<exists>b \<in> set (dv_blocks d). \<exists>w1. poll_block env cfg d b w1 = (flow, w') \<and> pw_slave w1 = dv_unit_id d)"
proof (induction ds arbitrary: w)
  case (Cons d ds)
  obtain fl w1 where pd: "poll_device env cfg d w = (fl, w1)" by fastforce
  show ?case
  proof (cases "fl = Continue")
    case True
    with Cons.IH [of w1] Cons.prems pd show ?thesis by auto
  next
    case False
    then have "poll_device env cfg d w = (flow, w')" using Cons.prems(1) pd by (cases fl) simp_all
    from poll_device_flow [OF this Cons.prems(2)] show ?thesis by auto
  qed
qed simp

text \<open>What lies behind the three ends of a tick that stop it.\<close>

definition saw_closed :: "poll_env \<Rightarrow> bool" where
  "saw_closed env \<longleftrightarrow> (\<exists>n r. pe_try_send env n r = SendClosed)"

definition saw_short :: "poll_env \<Rightarrow> BlockConfig \<Rightarrow> bool" where
  "saw_short env b \<longleftrightarrow> (\<exists>n u words.
     pe_read_registers env n u (bk_function b) (bk_start b) (bk_count b) = Inr (Inr words) \<and> decode b words = None)"

lemma send_values_return: "fst (send_values env d pvs w) = Return \<Longrightarrow> saw_closed env"
  by (induction pvs arbitrary: w) (auto simp: Let_def saw_closed_def split: send_result.splits)

lemma block_result_Words:
  "block_result env cfg b w = Words words \<Longrightarrow>
     \<exists>n u. pe_read_registers env n u (bk_function b) (bk_start b) (bk_count b) = Inr (Inr words)"
  by (auto simp: block_result_def read_block_def Let_def split: if_splits sum.splits)

lemma block_result_Fatal:
  "block_result env cfg b w = TransportFatal e \<Longrightarrow> \<exists>msg. e = ErrTransport msg"
  by (auto simp: block_result_def read_block_def Let_def is_transport_fatal_def split: if_splits sum.splits ModbusError.splits)

lemma poll_block_stops:
  assumes pb: "poll_block env cfg d b w = (flow, w')" and sl: "pw_slave w = dv_unit_id d"
  shows "flow = Return \<Longrightarrow> saw_closed env"
    and "flow = Panic \<Longrightarrow> saw_short env b"
    and "flow = Reconnect \<Longrightarrow> \<exists>p msg. pw_trace w' =
      p @ request_part cfg d b (TransportFatal (ErrTransport msg)) @ [ActReport (ConnectionDown (cn_id cfg))]"
proof -
  define res where "res = block_result env cfg b w"
  note eq = poll_block_eq [OF sl, of env cfg b, folded res_def, unfolded Let_def pb]
  let ?w = "\<lambda>words. (emit (request_part cfg d b (Words words)) (called w))\<lparr>pw_backoff := Backoff_reset (pw_backoff w)\<rparr>"
  have words: "decode b words = None \<and> flow = Panic \<or>
      (\<exists>vals. send_values env d vals (?w words) = (flow, w'))" if "res = Words words" for words
    using eq that by (cases "decode b words") (auto dest: sym)
  show "saw_closed env" if "flow = Return"
  proof (cases res)
    case (Words ws)
    from words [OF Words] that obtain vals where "send_values env d vals (?w ws) = (flow, w')" by auto
    with send_values_return [of env d vals "?w ws"] that show ?thesis by simp
  qed (use eq that in simp_all)
  show "saw_short env b" if "flow = Panic"
  proof (cases res)
    case (Words ws)
    have "decode b ws = None"
    proof (rule ccontr)
      assume "decode b ws \<noteq> None"
      with words [OF Words] obtain vals where "send_values env d vals (?w ws) = (flow, w')" by auto
      with send_values_flow [of env d vals "?w ws"] that show False by simp
    qed
    with block_result_Words Words show ?thesis unfolding saw_short_def res_def by metis
  qed (use eq that in simp_all)
  show "\<exists>p msg. pw_trace w' =
      p @ request_part cfg d b (TransportFatal (ErrTransport msg)) @ [ActReport (ConnectionDown (cn_id cfg))]"
    if "flow = Reconnect"
  proof (cases res)
    case (Words ws)
    from words [OF Words] that obtain vals where "send_values env d vals (?w ws) = (flow, w')" by auto
    with send_values_flow [of env d vals "?w ws"] that show ?thesis by simp
  next
    case (TransportFatal e)
    then obtain msg where "e = ErrTransport msg" using block_result_Fatal res_def by metis
    with eq TransportFatal show ?thesis by (intro exI [of _ "pw_trace w"] exI [of _ msg]) simp
  qed (use eq that in simp_all)
qed

lemma poll_tick_stops:
  assumes "poll_tick env cfg w = (flow, w')"
  shows "flow = Continue \<or>
    flow = Return \<and> saw_closed env \<or>
    flow = Panic \<and> (\<exists>d \<in> set (cn_devices cfg). \<exists>b \<in> set (dv_blocks d). saw_short env b) \<or>
    flow = Reconnect \<and> (\<exists>d \<in> set (cn_devices cfg). \<exists>b \<in> set (dv_blocks d). \<exists>p msg. pw_trace w' =
      p @ request_part cfg d b (TransportFatal (ErrTransport msg)) @ [ActReport (ConnectionDown (cn_id cfg))])"
proof (cases "flow = Continue")
  case False
  from poll_devices_flow [OF assms [unfolded poll_tick_def] False] obtain d b w1 where
    db: "d \<in> set (cn_devices cfg)" "b \<in> set (dv_blocks d)"
    and pb: "poll_block env cfg d b w1 = (flow, w')" "pw_slave w1 = dv_unit_id d"
    and skip: "\<forall>reason. flow \<noteq> Skip reason" by blast
  show ?thesis
  proof (cases flow)
    case Return
    with poll_block_stops(1) [OF pb] show ?thesis by simp
  next
    case Panic
    with poll_block_stops(2) [OF pb] db show ?thesis by auto
  next
    case Reconnect
    with poll_block_stops(3) [OF pb] db show ?thesis by blast
  qed (use False skip in simp_all)
qed simp

section \<open>The task's invariant\<close>

definition conn_inv :: "poll_env \<Rightarrow> ConnectionConfig \<Rightarrow> poll_phase \<times> poll_world \<Rightarrow> bool" where
  "conn_inv env cfg = (\<lambda>(phase, w). justified_trace env cfg (pw_trace w) \<and>
     pw_calls w = calls_in (pw_trace w) \<and> answered env (io_timeout cfg) 0 (pw_trace w) \<and>
     (phase \<in> {Connecting, Polling} \<longrightarrow> backoff_eq cfg w) \<and>
     (phase = Connecting \<longrightarrow> pw_trace w = [] \<or>
       (\<exists>p d. pw_trace w = p @ [ActReport (ConnectionDown (cn_id cfg)), ActBackoff d])) \<and>
     (phase = Polling \<longrightarrow> tick_due env cfg (pw_trace w)))"

lemma conn_inv_init: "conn_inv env cfg (conn_init cfg)"
  by (simp add: conn_inv_def conn_init_def backoff_eq_def Backoff_new_def backoff_lo_def backoff_hi_def fails_since_def)

lemma answered_extends:
  assumes "extends env t w w'" and "pw_calls w = calls_in (pw_trace w)" and "answered env t 0 (pw_trace w)"
  shows "pw_calls w' = calls_in (pw_trace w') \<and> answered env t 0 (pw_trace w')"
  using assms by (auto simp: extends_def)

text \<open>The wait: it sleeps for the current delay and panics only if twice that is out of range.\<close>

lemma backoff_wait_eq:
  "backoff_wait w =
     (if dur_max < 2 * bo_current (pw_backoff w)
      then (Crashed, emit [ActBackoff (bo_current (pw_backoff w))] w)
      else (Connecting, emit [ActBackoff (bo_current (pw_backoff w))] (w\<lparr>pw_backoff := (pw_backoff w)
              \<lparr>bo_current := min (2 * bo_current (pw_backoff w)) (bo_max (pw_backoff w))\<rparr>\<rparr>)))"
  by (simp add: backoff_wait_def Backoff_wait_def dur_mul_def mult.commute)

lemma backoff_wait_extends: "extends env t w (snd (backoff_wait w))"
  using extends_emit [of "[ActBackoff d]" env t w for d] extends_emit [of "[ActBackoff d]" env t "w\<lparr>pw_backoff := b\<rparr>" for b d]
  by (simp add: backoff_wait_eq)

lemma backoff_wait_inv:
  assumes g: "good env cfg w" and down: "pw_trace w = p @ [ActReport (ConnectionDown (cn_id cfg))]"
    and calls: "pw_calls w = calls_in (pw_trace w)" "answered env (io_timeout cfg) 0 (pw_trace w)"
  shows "conn_inv env cfg (backoff_wait w)"
proof -
  let ?d = "bo_current (pw_backoff w)"
  have j: "justified env cfg (pw_trace w) (ActBackoff ?d)"
    using g down by (simp add: good_def backoff_eq_def justified_def)
  have "justified_trace env cfg (pw_trace (snd (backoff_wait w)))" using g j by (simp add: backoff_wait_eq good_def)
  moreover have "backoff_eq cfg (snd (backoff_wait w))" if "fst (backoff_wait w) \<noteq> Crashed"
    using g that by (auto simp: good_def backoff_eq_def backoff_wait_eq fails_since_snoc split: if_splits)
  moreover have "\<exists>p d. pw_trace (snd (backoff_wait w)) = p @ [ActReport (ConnectionDown (cn_id cfg)), ActBackoff d]"
    by (auto simp: backoff_wait_eq down)
  moreover have "fst (backoff_wait w) \<in> {Connecting, Crashed}" by (simp add: backoff_wait_eq)
  ultimately show ?thesis
    using answered_extends [OF backoff_wait_extends calls] unfolding conn_inv_def split_beta by auto
qed

lemma conn_step_inv:
  assumes inv: "conn_inv env cfg pw"
  shows "conn_inv env cfg (conn_step env cfg pw)"
proof -
  obtain phase w where pw: "pw = (phase, w)" by fastforce
  note inv' = inv [unfolded pw conn_inv_def prod.case]
  let ?t = "io_timeout cfg"
  show ?thesis
  proof (cases phase)
    case Connecting
    let ?w1 = "emit [ActConnect (cn_transport cfg)] (called w)"
    let ?down = "ActReport (ConnectionDown (cn_id cfg))" and ?up = "ActReport (ConnectionUp (cn_id cfg))"
    have g: "good env cfg ?w1"
      using inv' Connecting by (intro good_snoc) (simp_all add: good_def justified_def backoff_eq_def)
    have e: "extends env ?t w ?w1" by (rule extends_call) (simp_all add: answers_def)
    show ?thesis
    proof (cases "connect env (pw_calls w) (cn_transport cfg) ?t")
      case (Inl err)
      let ?w2 = "emit [?down] ?w1"
      have "report_due env cfg (pw_trace ?w1) (ConnectionDown (cn_id cfg))"
        unfolding report_due_def StatusEvent.case world_simps using Inl inv' by auto
      then have g2: "good env cfg ?w2" by (intro good_snoc [OF g]) (simp_all add: justified_def)
      have "extends env ?t w ?w2" using extends_trans [OF e extends_emit [of "[?down]"]] by simp
      then have "pw_calls ?w2 = calls_in (pw_trace ?w2)" "answered env ?t 0 (pw_trace ?w2)"
        using answered_extends inv' by blast+
      from backoff_wait_inv [OF g2 _ this, of "pw_trace ?w1"] Inl show ?thesis
        by (simp add: pw Connecting conn_step_def Let_def)
    next
      case (Inr ctx)
      let ?w2 = "emit [?up] (?w1\<lparr>pw_slave := ctx\<rparr>)"
      have "report_due env cfg (pw_trace ?w1) (ConnectionUp (cn_id cfg))"
        unfolding report_due_def StatusEvent.case world_simps using Inr inv' by auto
      then have g2: "good env cfg ?w2" using g by (intro good_snoc) (simp_all add: justified_def)
      have "extends env ?t w (?w1\<lparr>pw_slave := ctx\<rparr>)" using e by simp
      then have "extends env ?t w ?w2" by (rule extends_trans [OF _ extends_emit]) simp
      then have "pw_calls ?w2 = calls_in (pw_trace ?w2)" "answered env ?t 0 (pw_trace ?w2)"
        using answered_extends inv' by blast+
      moreover have "tick_due env cfg (pw_trace ?w2)" by (simp add: tick_due_def)
      ultimately have "conn_inv env cfg (ph, ?w2)" if "ph \<noteq> Connecting" for ph
        using g2 that unfolding conn_inv_def good_def by auto
      with Inr show ?thesis by (simp add: pw Connecting conn_step_def Let_def)
    qed
  next
    case Polling
    obtain flow w' where t: "poll_tick env cfg w = (flow, w')" by fastforce
    have "good env cfg w" "tick_due env cfg (pw_trace w)" using inv' Polling by (simp_all add: good_def)
    from poll_tick_good [OF this] t have g: "good env cfg w'" by simp
    have calls: "pw_calls w' = calls_in (pw_trace w')" "answered env ?t 0 (pw_trace w')"
      using answered_extends [of env ?t w w'] poll_tick_extends [of env cfg w] t inv' by simp_all
    have due: "tick_due env cfg (pw_trace w')" if "flow = Continue"
      using poll_devices_continue [OF t [unfolded poll_tick_def that]] by (auto simp: tick_due_def)
    show ?thesis
    proof (cases flow)
      case Reconnect
      with poll_tick_stops [OF t] obtain p q where
        "pw_trace w' = p @ q @ [ActReport (ConnectionDown (cn_id cfg))]" by auto
      then have "pw_trace w' = (p @ q) @ [ActReport (ConnectionDown (cn_id cfg))]" by simp
      from backoff_wait_inv [OF g this calls] show ?thesis by (simp add: pw Polling conn_step_def t Reconnect)
    next
      case (Skip reason)
      with poll_tick_stops [OF t] show ?thesis by simp
    qed (use g calls due in \<open>simp_all add: pw Polling conn_step_def t conn_inv_def good_def\<close>)
  qed (use inv in \<open>simp_all add: pw conn_step_def\<close>)
qed

lemma run_connection_inv: "conn_inv env cfg (run_connection env cfg n)"
  by (induction n) (simp_all add: run_connection_Suc conn_inv_init conn_step_inv)

section \<open>What a step of the task does\<close>

definition full_responses :: "poll_env \<Rightarrow> bool" where
  "full_responses env \<longleftrightarrow> (\<forall>n u f s c words.
     pe_read_registers env n u f s c = Inr (Inr words) \<longrightarrow> unat c \<le> length words)"

lemma full_responses_not_short:
  assumes "full_responses env" and "valid_block b"
  shows "\<not> saw_short env b"
  using assms valid_block_decodes unfolding saw_short_def full_responses_def by blast

text \<open>
  One connect attempt: it succeeds and polling begins, or it fails and the task waits before the
  next. One tick: all devices are polled and the connection is kept, or a read fails in the transport
  and the task waits before it connects again.
\<close>

definition attempt_step ::
  "poll_env \<Rightarrow> ConnectionConfig \<Rightarrow> poll_world \<Rightarrow> poll_action list \<Rightarrow> bool \<Rightarrow> bool" where
  "attempt_step env cfg w as up \<longleftrightarrow>
     (case connect env (pw_calls w) (cn_transport cfg) (io_timeout cfg) of
        Inr ctx \<Rightarrow> up \<and> as = [ActConnect (cn_transport cfg), ActReport (ConnectionUp (cn_id cfg))]
      | Inl e \<Rightarrow> \<not> up \<and> (\<exists>d. as = [ActConnect (cn_transport cfg), ActReport (ConnectionDown (cn_id cfg)), ActBackoff d]))"

definition tick_step :: "poll_env \<Rightarrow> ConnectionConfig \<Rightarrow> poll_action list \<Rightarrow> bool \<Rightarrow> bool" where
  "tick_step env cfg as up \<longleftrightarrow>
     (if up then \<exists>segs. as = ActTick # concat segs \<and> device_parts env cfg (cn_devices cfg) segs
      else \<exists>p d b e wait. d \<in> set (cn_devices cfg) \<and> b \<in> set (dv_blocks d) \<and>
        as = ActTick # p @ request_part cfg d b (TransportFatal e) @
          [ActReport (ConnectionDown (cn_id cfg)), ActBackoff wait])"

lemma conn_step_attempt:
  assumes "conn_step env cfg (Connecting, w) = (phase', w')"
  shows "\<exists>as up. pw_trace w' = pw_trace w @ as \<and> attempt_step env cfg w as up \<and>
    (phase' = Crashed \<or> phase' = (if up then Polling else Connecting))"
proof (cases "connect env (pw_calls w) (cn_transport cfg) (io_timeout cfg)")
  case (Inl e)
  let ?d = "bo_current (pw_backoff w)"
  have "pw_trace w' = pw_trace w @ [ActConnect (cn_transport cfg), ActReport (ConnectionDown (cn_id cfg)), ActBackoff ?d] \<and>
      (phase' = Crashed \<or> phase' = Connecting)"
    using assms Inl by (auto simp: conn_step_def Let_def backoff_wait_eq split: if_splits)
  with Inl show ?thesis by (auto simp: attempt_step_def)
next
  case (Inr ctx)
  with assms show ?thesis by (auto simp: attempt_step_def conn_step_def Let_def split: if_splits)
qed

lemma append_tail: "xs @ x # as = q @ end_part \<Longrightarrow> x \<notin> set end_part \<Longrightarrow> \<exists>p. as = p @ end_part"
  by (auto simp: append_eq_append_conv2 Cons_eq_append_conv)

lemma conn_step_tick:
  assumes "conn_step env cfg (Polling, w) = (phase', w')" and "phase' \<noteq> Stopped"
  shows "phase' = Crashed \<or>
    (\<exists>as up. pw_trace w' = pw_trace w @ as \<and> tick_step env cfg as up \<and> phase' = (if up then Polling else Connecting))"
proof -
  obtain flow w1 where t: "poll_tick env cfg w = (flow, w1)" by fastforce
  show ?thesis
  proof (cases flow)
    case Continue
    with poll_devices_continue [OF t [unfolded poll_tick_def Continue]] obtain segs where
      "pw_trace w1 = pw_trace w @ ActTick # concat segs" "device_parts env cfg (cn_devices cfg) segs" by auto
    moreover from this have "tick_step env cfg (ActTick # concat segs) True" by (auto simp: tick_step_def)
    ultimately show ?thesis using assms t Continue by (auto simp: conn_step_def)
  next
    case Reconnect
    with poll_tick_stops [OF t] obtain q d b msg where
      db: "d \<in> set (cn_devices cfg)" "b \<in> set (dv_blocks d)" and q: "pw_trace w1 =
        q @ request_part cfg d b (TransportFatal (ErrTransport msg)) @ [ActReport (ConnectionDown (cn_id cfg))]"
      by auto
    let ?e = "ErrTransport msg"
    let ?lost = "request_part cfg d b (TransportFatal ?e) @ [ActReport (ConnectionDown (cn_id cfg))]"
    obtain acts where "pw_trace w1 = pw_trace w @ ActTick # acts"
      using poll_devices_extends [of env cfg "emit [ActTick] w" "cn_devices cfg"] t
      by (auto simp: extends_def poll_tick_def)
    with q have "pw_trace w @ ActTick # acts = q @ ?lost" by simp
    moreover have "ActTick \<notin> set ?lost" by (simp add: request_part_def frame_gap_def split: option.split)
    ultimately obtain p where p: "acts = p @ ?lost"
      using append_tail [of "pw_trace w" ActTick acts q ?lost] by blast
    have lost: "pw_trace w1 = pw_trace w @ ActTick # p @ ?lost"
      using \<open>pw_trace w1 = pw_trace w @ ActTick # acts\<close> p by simp
    let ?as = "ActTick # p @ request_part cfg d b (TransportFatal ?e) @
      [ActReport (ConnectionDown (cn_id cfg)), ActBackoff (bo_current (pw_backoff w1))]"
    have "tick_step env cfg ?as False" unfolding tick_step_def if_False using db by blast
    moreover have "pw_trace w' = pw_trace w @ ?as" "phase' = Crashed \<or> phase' = Connecting"
      using assms(1) t Reconnect lost by (auto simp: conn_step_def backoff_wait_eq split: if_splits)
    ultimately show ?thesis by auto
  next
    case (Skip r)
    with poll_tick_stops [OF t] show ?thesis by simp
  qed (use assms t in \<open>simp_all add: conn_step_def\<close>)
qed

text \<open>What can make the task panic, when the configuration is valid and responses have their length.\<close>

lemma conn_step_crash:
  assumes "conn_step env cfg (phase, w) = (Crashed, w')" and "phase \<noteq> Crashed"
    and cfg: "valid_connection cfg" and env: "full_responses env"
  shows "\<exists>p d. pw_trace w' = p @ [ActBackoff d] \<and> dur_max < 2 * d"
proof -
  have wait: "\<exists>p d. pw_trace w' = p @ [ActBackoff d] \<and> dur_max < 2 * d" if "backoff_wait w1 = (Crashed, w')" for w1
    using that by (auto simp: backoff_wait_eq split: if_splits)
  have poll: "dur_from_secs (cn_poll_interval_secs cfg) \<noteq> 0"
    using cfg by (simp add: valid_connection_def dur_from_secs_def nanos_per_sec_def unat_eq_0)
  show ?thesis
  proof (cases phase)
    case Connecting
    with assms(1) poll wait show ?thesis by (auto simp: conn_step_def Let_def split: sum.splits)
  next
    case Polling
    obtain flow w1 where t: "poll_tick env cfg w = (flow, w1)" by fastforce
    have "\<not> saw_short env b" if "d \<in> set (cn_devices cfg)" "b \<in> set (dv_blocks d)" for d b
      using that cfg by (intro full_responses_not_short env) (simp add: valid_connection_def)
    with poll_tick_stops [OF t] have "flow \<noteq> Panic" by blast
    with assms(1) t wait Polling show ?thesis by (cases flow) (simp_all add: conn_step_def)
  qed (use assms(1,2) in \<open>simp_all add: conn_step_def\<close>)
qed

lemma run_connection_crash:
  assumes "fst (run_connection env cfg n) = Crashed" and "valid_connection cfg" and "full_responses env"
  shows "\<exists>p d. pw_trace (snd (run_connection env cfg n)) = p @ [ActBackoff d] \<and> dur_max < 2 * d \<and>
    d = backoff_delay (backoff_lo cfg) (backoff_hi cfg) (fails_since p)"
proof -
  have "\<exists>p d. pw_trace (snd (run_connection env cfg n)) = p @ [ActBackoff d] \<and> dur_max < 2 * d"
    using assms(1)
  proof (induction n)
    case (Suc n)
    obtain phase w where run: "run_connection env cfg n = (phase, w)" by fastforce
    show ?case
    proof (cases "phase = Crashed")
      case True
      with Suc.IH run show ?thesis by (simp add: run_connection_Suc conn_step_def)
    next
      case False
      obtain w' where w': "conn_step env cfg (phase, w) = (Crashed, w')"
        using Suc.prems run by (cases "conn_step env cfg (phase, w)") (simp add: run_connection_Suc)
      from conn_step_crash [OF w' False assms(2,3)] show ?thesis by (simp add: run_connection_Suc run w')
    qed
  qed (simp add: conn_init_def)
  then obtain p d where pd: "pw_trace (snd (run_connection env cfg n)) = p @ [ActBackoff d]" "dur_max < 2 * d" by blast
  have "justified_trace env cfg (p @ [ActBackoff d])"
    using run_connection_inv [of env cfg n] pd(1) by (simp add: conn_inv_def split_beta)
  then have "d = backoff_delay (backoff_lo cfg) (backoff_hi cfg) (fails_since p)" by (simp add: justified_def)
  with pd show ?thesis by blast
qed

lemma run_connection_no_panic:
  assumes "valid_connection cfg" and "full_responses env" and "2 * max (backoff_lo cfg) (backoff_hi cfg) \<le> dur_max"
  shows "fst (run_connection env cfg n) \<noteq> Crashed"
proof
  assume "fst (run_connection env cfg n) = Crashed"
  from run_connection_crash [OF this assms(1,2)] obtain d where
    "dur_max < 2 * d" "d \<le> max (backoff_lo cfg) (backoff_hi cfg)" using backoff_delay_le by blast
  with assms(3) show False by simp
qed

lemma conn_step_not_stopped:
  assumes "phase \<noteq> Stopped" and "\<not> saw_closed env"
  shows "fst (conn_step env cfg (phase, w)) \<noteq> Stopped"
proof (cases phase)
  case Polling
  obtain flow w1 where t: "poll_tick env cfg w = (flow, w1)" by fastforce
  then have "flow \<noteq> Return" using poll_tick_stops [OF t] assms(2) by blast
  then show ?thesis using t Polling by (cases flow) (simp_all add: conn_step_def backoff_wait_eq)
qed (use assms in \<open>simp_all add: conn_step_def Let_def backoff_wait_eq split: sum.split\<close>)

text \<open>Under the same conditions every step is a connect attempt or a tick, and the next is as it ended.\<close>

lemma run_connection_round:
  assumes cfg: "valid_connection cfg" and lohi: "2 * max (backoff_lo cfg) (backoff_hi cfg) \<le> dur_max"
    and env: "\<not> saw_closed env" "full_responses env"
  shows "\<exists>phase w w' as up. run_connection env cfg n = (phase, w) \<and>
    run_connection env cfg (Suc n) = (if up then Polling else Connecting, w') \<and> pw_trace w' = pw_trace w @ as \<and>
    (phase = Connecting \<and> attempt_step env cfg w as up \<or> phase = Polling \<and> tick_step env cfg as up)"
proof -
  obtain phase w phase' w' where run: "run_connection env cfg n = (phase, w)" "run_connection env cfg (Suc n) = (phase', w')"
    by fastforce
  have live: "fst (run_connection env cfg k) \<notin> {Stopped, Crashed}" for k
  proof (induction k)
    case (Suc k)
    obtain ph wk where k: "run_connection env cfg k = (ph, wk)" by fastforce
    with Suc.IH conn_step_not_stopped [OF _ env(1), of ph cfg wk]
      run_connection_no_panic [OF cfg env(2) lohi, of "Suc k"] show ?case by (simp add: run_connection_Suc)
  qed (simp add: conn_init_def)
  have step: "conn_step env cfg (phase, w) = (phase', w')" using run by (simp add: run_connection_Suc)
  have "phase \<notin> {Stopped, Crashed}" "phase' \<notin> {Stopped, Crashed}"
    using live [of n] live [of "Suc n"] unfolding run by simp_all
  then have p: "phase = Connecting \<or> phase = Polling" "phase' \<noteq> Crashed" "phase' \<noteq> Stopped"
    by (cases phase; simp)+
  show ?thesis
  proof (cases "phase = Connecting")
    case True
    from conn_step_attempt [OF step [unfolded True]] p(2) obtain as up where
      "pw_trace w' = pw_trace w @ as" "attempt_step env cfg w as up" "phase' = (if up then Polling else Connecting)"
      by blast
    with run True show ?thesis by blast
  next
    case False
    with p(1) have pol: "phase = Polling" by simp
    from conn_step_tick [OF step [unfolded pol] p(3)] p(2) obtain as up where
      "pw_trace w' = pw_trace w @ as" "tick_step env cfg as up" "phase' = (if up then Polling else Connecting)"
      by blast
    with run pol show ?thesis by blast
  qed
qed

text \<open>The ticks in a trace; polling the devices adds none.\<close>

definition ticks_in :: "poll_action list \<Rightarrow> nat" where
  "ticks_in tr = length (filter (\<lambda>a. a = ActTick) tr)"

lemma ticks_in_simps [simp]:
  "ticks_in [] = 0" "ticks_in (a # as) = (if a = ActTick then Suc (ticks_in as) else ticks_in as)"
  "ticks_in (xs @ ys) = ticks_in xs + ticks_in ys"
  by (simp_all add: ticks_in_def)

lemma ticks_in_parts: "list_all2 (words_part cfg d) bs parts \<Longrightarrow> ticks_in (concat parts) = 0"
proof (induction rule: list_all2_induct)
  case (Cons b bs seg parts)
  have "ticks_in sends = 0" if "list_all2 forwarded rs sends" for rs sends
    using that by (induction rule: list_all2_induct) (auto simp: forwarded_def)
  moreover have "ticks_in (request_part cfg d b res) = 0" for res
    by (simp add: request_part_def frame_gap_def split: option.split)
  ultimately show ?case using Cons by (auto simp: words_part_def)
qed simp

lemma ticks_in_devices: "device_parts env cfg ds segs \<Longrightarrow> ticks_in (concat segs) = 0"
proof (induction rule: list_all2_induct)
  case (Cons d ds seg segs)
  have "ticks_in (request_part cfg d b res) = 0" for b res
    by (simp add: request_part_def frame_gap_def split: option.split)
  with Cons show ?case
    by (auto simp: device_ok_part_def device_problem_part_def problem_part_def dest: ticks_in_parts)
qed simp

definition never_lost :: "poll_env \<Rightarrow> ConnectionConfig \<Rightarrow> bool" where
  "never_lost env cfg \<longleftrightarrow>
     (\<forall>k. \<exists>ctx. connect env k (cn_transport cfg) (io_timeout cfg) = Inr ctx) \<and>
     (\<forall>k u f s c msg. pe_read_registers env k u f s c \<noteq> Inl (ErrTransport msg))"

lemma tick_not_lost:
  assumes "never_lost env cfg" and "answered env t n (xs @ as)" and "tick_step env cfg as up"
  shows "up \<and> ticks_in as = 1"
proof -
  have up
  proof (rule ccontr)
    assume "\<not> up"
    with assms(3) obtain p d b e rest where "as = ActTick # p @ request_part cfg d b (TransportFatal e) @ rest"
      by (auto simp: tick_step_def)
    with assms(2) have "\<exists>n u f s c. answers env t n (ActRead u f s c (TransportFatal e))"
      by (simp add: request_part_def) blast
    with assms(1) show False by (auto simp: answers_def replies_def never_lost_def)
  qed
  with assms(3) show ?thesis by (auto simp: tick_step_def ticks_in_devices)
qed

lemma never_lost_ticks:
  assumes run: "valid_connection cfg" "2 * max (backoff_lo cfg) (backoff_hi cfg) \<le> dur_max"
      "\<not> saw_closed env" "full_responses env"
    and never: "never_lost env cfg"
  shows "fst (run_connection env cfg (Suc n)) = Polling \<and> ticks_in (pw_trace (snd (run_connection env cfg (Suc n)))) = n"
proof (induction n)
  case 0
  from run_connection_round [OF run, of 0] never show ?case
    by (auto simp: conn_init_def attempt_step_def never_lost_def split: sum.splits)
next
  case (Suc n)
  from run_connection_round [OF run, of "Suc n"] Suc obtain w w' as up where
    step: "run_connection env cfg (Suc n) = (Polling, w)" "pw_trace w' = pw_trace w @ as" "tick_step env cfg as up"
    and nxt: "run_connection env cfg (Suc (Suc n)) = (if up then Polling else Connecting, w')" by auto
  have "answered env (io_timeout cfg) 0 (pw_trace w @ as)"
    using run_connection_inv [of env cfg "Suc (Suc n)"] by (simp add: nxt conn_inv_def step(2))
  from tick_not_lost [OF never this step(3)] step nxt Suc show ?case by simp
qed

section \<open>Properties\<close>

definition ex_poll_env :: poll_env where
  "ex_poll_env = \<lparr>pe_elapsed = (\<lambda>n t. False), pe_lookup_host = (\<lambda>n host port. Inr [''10.0.0.1'']),
     pe_tcp_connect = (\<lambda>n addr. if n < 2 then Inl (IoError OtherKind ''refused'') else Inr 255),
     pe_serial_open = (\<lambda>n builder. Inr 0),
     pe_read_registers = (\<lambda>n u f s c. if n = 3 then Inr (Inl 2) else Inl (ErrTransport ''reset'')),
     pe_show_exception = show_nat \<circ> unat, pe_try_send = (\<lambda>n r. SendOk)\<rparr>"

lemma ex_tcp_backoff: "2 * max (backoff_lo ex_tcp) (backoff_hi ex_tcp) \<le> dur_max"
  by (simp add: backoff_lo_def backoff_hi_def ex_tcp_def dur_from_secs_def dur_max_def nanos_per_sec_def)

text \<open>C7: A tick that does not lose the connection polls every device of the connection, in order, whatever
happened to the others: the unit is selected, its blocks are requested in order up to the first that
fails, each successful one yields one reading for each of its points with the value decoded from its
own registers, and exactly one result of the device is reported, naming the failure if there was one.
The result recorded for each request is what the environment answered to exactly that unit, function,
start and count, and a reading is sent whenever the channel takes it: it is dropped only when the
channel is full.\<close>

theorem tick_polls_every_device:
  assumes "poll_tick env cfg w = (Continue, w')"
  shows "\<exists>segs. pw_trace w' = pw_trace w @ ActTick # concat segs \<and>
    list_all2 (\<lambda>d seg. device_ok_part cfg d seg \<or> device_problem_part env cfg d seg) (cn_devices cfg) segs \<and>
    answered env (io_timeout cfg) (pw_calls w) (ActTick # concat segs)"
proof -
  from poll_devices_continue [OF assms [unfolded poll_tick_def]] obtain segs where
    segs: "pw_trace w' = pw_trace w @ ActTick # concat segs" "device_parts env cfg (cn_devices cfg) segs" by auto
  moreover have "extends env (io_timeout cfg) w w'" using poll_tick_extends [of env cfg w] assms by simp
  then have "answered env (io_timeout cfg) (pw_calls w) (ActTick # concat segs)"
    unfolding extends_def segs(1) same_append_eq by blast
  ultimately show ?thesis by blast
qed

theorem tick_polls_every_device_witness:
  "\<exists>w'. poll_tick (ex_poll_env\<lparr>pe_elapsed := \<lambda>n t. True\<rparr>) ex_tcp (snd (conn_init ex_tcp)) = (Continue, w') \<and>
     (\<exists>segs. pw_trace w' = ActTick # concat segs \<and>
        list_all2 (\<lambda>d seg. device_ok_part ex_tcp d seg \<or>
          device_problem_part (ex_poll_env\<lparr>pe_elapsed := \<lambda>n t. True\<rparr>) ex_tcp d seg) [ex_meter] segs \<and>
        answered (ex_poll_env\<lparr>pe_elapsed := \<lambda>n t. True\<rparr>) (io_timeout ex_tcp) 0 (ActTick # concat segs))"
proof -
  let ?env = "ex_poll_env\<lparr>pe_elapsed := \<lambda>n t. True\<rparr>"
  obtain flow w' where t: "poll_tick ?env ex_tcp (snd (conn_init ex_tcp)) = (flow, w')" by fastforce
  moreover have "flow = Continue"
    using t by (simp add: poll_tick_def poll_device_def poll_block_def read_block_def Let_def
        ex_tcp_def ex_meter_def ex_block_def inter_frame_delay_def)
  moreover have start: "pw_trace (snd (conn_init ex_tcp)) = []" "pw_calls (snd (conn_init ex_tcp)) = 0"
    "cn_devices ex_tcp = [ex_meter]" by (simp_all add: conn_init_def ex_tcp_def)
  ultimately show ?thesis
    using tick_polls_every_device [of ?env ex_tcp "snd (conn_init ex_tcp)" w']
    unfolding start append_Nil by blast
qed

text \<open>C31: A tick ends early for three reasons only: the aggregator's channel is closed (the task returns), a
response was too short for its block (the decoder panics), or a read failed in the transport, in which
case the connection is reported down as the last thing of the tick. Exceptions, protocol errors and
timeouts never cost the connection.\<close>

theorem tick_ends:
  assumes "poll_tick env cfg w = (flow, w')" and "flow \<noteq> Continue"
  shows "flow = Return \<and> saw_closed env \<or>
    flow = Panic \<and> (\<exists>d \<in> set (cn_devices cfg). \<exists>b \<in> set (dv_blocks d). saw_short env b) \<or>
    flow = Reconnect \<and> (\<exists>d \<in> set (cn_devices cfg). \<exists>b \<in> set (dv_blocks d). \<exists>p msg. pw_trace w' =
      p @ request_part cfg d b (TransportFatal (ErrTransport msg)) @ [ActReport (ConnectionDown (cn_id cfg))])"
  using poll_tick_stops [OF assms(1)] assms(2) by blast

theorem tick_ends_witness:
  "\<exists>w'. poll_tick ex_poll_env ex_tcp (snd (conn_init ex_tcp)) = (Reconnect, w') \<and>
     (\<exists>p msg. pw_trace w' =
        p @ request_part ex_tcp ex_meter ex_block (TransportFatal (ErrTransport msg)) @ [ActReport (ConnectionDown ''tcp'')])"
proof -
  obtain flow w' where t: "poll_tick ex_poll_env ex_tcp (snd (conn_init ex_tcp)) = (flow, w')" by fastforce
  moreover have "flow = Reconnect"
    using t by (simp add: poll_tick_def poll_device_def poll_block_def read_block_def Let_def ex_poll_env_def
        is_transport_fatal_def conn_init_def ex_tcp_def ex_meter_def ex_block_def inter_frame_delay_def)
  ultimately show ?thesis
    using tick_ends [OF t] by (simp add: ex_tcp_def ex_meter_def)
qed

text \<open>C8: At any time, whatever the network and the devices do, every action of the task is justified by what
it did before. Every connect attempt but the first follows a report that the connection is down and a
wait; each wait follows such a report and lasts the backoff's delay for the number of waits since the last
successful read (not since the last connect). The connection is reported up or down only right after an
attempt that succeeded or failed, and down also after a read that failed in the transport. A tick comes
after a successful connect or a completed tick; its devices are selected in order, each after the last one's
result; every request is that of the next block of the selected device; every reading is the next value
decoded from the registers just read; a device is reported well only after all its blocks were read,
and with a problem only after the block that has it, naming it; nothing else is reported. The recorded
results of the reads and sends are the environment's answers to those very calls.\<close>

theorem connection_actions_justified:
  "justified_trace env cfg (pw_trace (snd (run_connection env cfg n))) \<and>
   answered env (io_timeout cfg) 0 (pw_trace (snd (run_connection env cfg n)))"
  using run_connection_inv [of env cfg n] by (simp add: conn_inv_def split_beta)

text \<open>C9: A validated connection is polled forever, as long as the aggregator listens, responses have the
requested length and twice the larger backoff bound is a duration (validation does not ensure the
last): the task neither returns nor panics, whatever else fails. Each of its steps is a connect attempt
or a tick; after a successful attempt and after a tick over all devices the next is a tick; after
a failed attempt, and after a tick that a transport error cut short, it waits and connects again. So if
connecting and the transport work, \<open>n + 1\<close> steps make \<open>n\<close> ticks.\<close>

theorem connection_runs_forever:
  assumes "valid_connection cfg" and "2 * max (backoff_lo cfg) (backoff_hi cfg) \<le> dur_max"
    and "\<not> saw_closed env" "full_responses env"
  shows "(\<exists>phase w w' as up. run_connection env cfg n = (phase, w) \<and>
      run_connection env cfg (Suc n) = (if up then Polling else Connecting, w') \<and> pw_trace w' = pw_trace w @ as \<and>
      (phase = Connecting \<and> attempt_step env cfg w as up \<or> phase = Polling \<and> tick_step env cfg as up)) \<and>
    (never_lost env cfg \<longrightarrow> ticks_in (pw_trace (snd (run_connection env cfg (Suc n)))) = n)"
  using run_connection_round [OF assms] never_lost_ticks [OF assms] by blast

lemma ex_tcp_valid: "valid_connection ex_tcp"
  using ex_valid_blocks by (simp add: valid_connection_def ex_tcp_def ex_meter_def valid_serial_def)

theorem connection_runs_forever_witness:
  "ticks_in (pw_trace (snd (run_connection (ex_poll_env\<lparr>pe_tcp_connect := \<lambda>n addr. Inr 255,
     pe_read_registers := \<lambda>n u f s c. Inr (Inl 2)\<rparr>) ex_tcp 7))) = 6 \<and>
   (\<exists>w. run_connection ex_poll_env ex_tcp 3 = (Connecting, w) \<or> run_connection ex_poll_env ex_tcp 3 = (Polling, w))"
proof -
  let ?env = "ex_poll_env\<lparr>pe_tcp_connect := \<lambda>n addr. Inr 255, pe_read_registers := \<lambda>n u f s c. Inr (Inl 2)\<rparr>"
  have "never_lost ?env ex_tcp"
    by (simp add: never_lost_def connect_def ex_tcp_def ex_poll_env_def)
  then have "ticks_in (pw_trace (snd (run_connection ?env ex_tcp (Suc 6)))) = 6"
    using connection_runs_forever [OF ex_tcp_valid ex_tcp_backoff, of ?env 6]
    by (simp add: saw_closed_def full_responses_def ex_poll_env_def)
  moreover have "\<exists>w. run_connection ex_poll_env ex_tcp 3 = (Connecting, w) \<or> run_connection ex_poll_env ex_tcp 3 = (Polling, w)"
  proof -
    have "\<not> saw_closed ex_poll_env" "full_responses ex_poll_env"
      by (simp_all add: saw_closed_def full_responses_def ex_poll_env_def)
    from connection_runs_forever [OF ex_tcp_valid ex_tcp_backoff this, of 3] show ?thesis by blast
  qed
  ultimately show ?thesis by simp
qed

text \<open>A serial line that passed validation is opened with exactly the configured settings: the fallback
errors for unsupported data bits and stop bits are unreachable.\<close>

theorem validated_serial_opens:
  assumes "valid_serial (Rtu serial_port baud_rate data_bits parity stop_bits delay)"
  shows "\<exists>db sb. serial_data_bits data_bits = Inr db \<and> serial_stop_bits stop_bits = Inr sb \<and>
    connect env n (Rtu serial_port baud_rate data_bits parity stop_bits delay) timeout =
      pe_serial_open env n \<lparr>sb_path = serial_port, sb_baud_rate = baud_rate, sb_data_bits = db,
        sb_parity = serial_parity parity, sb_stop_bits = sb\<rparr>"
  using assms by (auto simp: valid_serial_def connect_def serial_data_bits_def serial_stop_bits_def)

theorem validated_serial_opens_witness:
  "connect ex_poll_env 0 (Rtu ''/dev/ttyS0'' 9600 8 ParityEven 2 0) 5 = Inr 0"
  using validated_serial_opens [of "''/dev/ttyS0''" 9600 8 ParityEven 2 0 ex_poll_env 0 5]
  by (auto simp: valid_serial_def ex_poll_env_def)

end
