(* ===== verification/Supervisor.thy ===== *)
theory Supervisor
  imports Backoff
begin

text \<open>
  \<open>src/modbus/supervisor.rs\<close>: a task that respawns another when it panics. How the \<open>n\<close>-th run of the
  task ends is the environment; what the supervisor does is a trace of actions. A step is one pass of
  its loop. The drop of the supervisor itself can happen while a run is awaited or during a wait;
  \<open>supervise_drop\<close> is what the guard of the loop's scope does then.
\<close>

section \<open>The supervisor\<close>

datatype panic_payload = PayloadStr string | PayloadString string | PayloadOther

datatype join_result = JoinOk | JoinPanic panic_payload | JoinCancelled

definition panic_message :: "panic_payload \<Rightarrow> string" where
  "panic_message payload =
     (case payload of
        PayloadStr s \<Rightarrow> s
      | PayloadString s \<Rightarrow> s
      | PayloadOther \<Rightarrow> ''<non-string panic payload>'')"

datatype super_action =
    SpawnTask nat
  | LogExited string
  | LogPanicked string string duration
  | LogCancelled string
  | WaitBackoff duration
  | AbortTask nat

record super_state =
  su_run :: nat
  su_backoff :: Backoff
  su_trace :: "super_action list"

datatype super_phase = Supervising | SuperReturned | SuperPanicked

text \<open>
  One pass: spawn, await, and on a panic wait before the next pass. Leaving the pass drops the guard,
  which aborts the run (a run that has ended ignores it).
\<close>

definition supervise_step ::
  "(nat \<Rightarrow> join_result) \<Rightarrow> string \<Rightarrow> super_phase \<times> super_state \<Rightarrow> super_phase \<times> super_state" where
  "supervise_step ends name = (\<lambda>(phase, s).
     case phase of
       Supervising \<Rightarrow>
         (let n = su_run s; tr = su_trace s @ [SpawnTask n] in
          case ends n of
            JoinOk \<Rightarrow> (SuperReturned, s\<lparr>su_run := Suc n, su_trace := tr @ [LogExited name, AbortTask n]\<rparr>)
          | JoinCancelled \<Rightarrow>
              (SuperReturned, s\<lparr>su_run := Suc n, su_trace := tr @ [LogCancelled name, AbortTask n]\<rparr>)
          | JoinPanic payload \<Rightarrow>
              (let tr' = tr @ [LogPanicked name (panic_message payload) (bo_current (su_backoff s)),
                               WaitBackoff (fst (Backoff_wait (su_backoff s))), AbortTask n]
               in case snd (Backoff_wait (su_backoff s)) of
                    None \<Rightarrow> (SuperPanicked, s\<lparr>su_run := Suc n, su_trace := tr'\<rparr>)
                  | Some b \<Rightarrow> (Supervising, s\<lparr>su_run := Suc n, su_backoff := b, su_trace := tr'\<rparr>)))
     | SuperReturned \<Rightarrow> (SuperReturned, s)
     | SuperPanicked \<Rightarrow> (SuperPanicked, s))"

definition supervise ::
  "(nat \<Rightarrow> join_result) \<Rightarrow> string \<Rightarrow> Backoff \<Rightarrow> nat \<Rightarrow> super_phase \<times> super_state" where
  "supervise ends name b passes =
     (supervise_step ends name ^^ passes) (Supervising, \<lparr>su_run = 0, su_backoff = b, su_trace = []\<rparr>)"

text \<open>
  \<open>AbortOnDrop\<close>: dropping the supervisor in its pass \<open>n\<close> aborts run \<open>n\<close>, whether the run is still awaited
  or has panicked and the wait before the next one goes on.
\<close>

datatype drop_point = AwaitingRun | AwaitingBackoff panic_payload

definition supervise_drop :: "drop_point \<Rightarrow> string \<Rightarrow> super_state \<Rightarrow> super_action list" where
  "supervise_drop point name s =
     su_trace s @ [SpawnTask (su_run s)] @
     (case point of
        AwaitingRun \<Rightarrow> []
      | AwaitingBackoff payload \<Rightarrow>
          [LogPanicked name (panic_message payload) (bo_current (su_backoff s)),
           WaitBackoff (fst (Backoff_wait (su_backoff s)))]) @
     [AbortTask (su_run s)]"

lemma supervise_0 [simp]:
  "supervise ends name b 0 = (Supervising, \<lparr>su_run = 0, su_backoff = b, su_trace = []\<rparr>)"
  by (simp add: supervise_def)

lemma supervise_Suc: "supervise ends name b (Suc n) = supervise_step ends name (supervise ends name b n)"
  by (simp add: supervise_def)

section \<open>Runs\<close>

definition spawned :: "super_action list \<Rightarrow> nat list" where
  "spawned tr = concat (map (\<lambda>a. case a of SpawnTask n \<Rightarrow> [n] | _ \<Rightarrow> []) tr)"

definition aborted :: "super_action list \<Rightarrow> nat list" where
  "aborted tr = concat (map (\<lambda>a. case a of AbortTask n \<Rightarrow> [n] | _ \<Rightarrow> []) tr)"

definition waits :: "super_action list \<Rightarrow> duration list" where
  "waits tr = concat (map (\<lambda>a. case a of WaitBackoff d \<Rightarrow> [d] | _ \<Rightarrow> []) tr)"

lemma trace_parts [simp]:
  "spawned (xs @ ys) = spawned xs @ spawned ys" "aborted (xs @ ys) = aborted xs @ aborted ys"
  "waits (xs @ ys) = waits xs @ waits ys"
  "spawned [] = []" "aborted [] = []" "waits [] = []"
  "spawned (a # xs) = (case a of SpawnTask n \<Rightarrow> n # spawned xs | _ \<Rightarrow> spawned xs)"
  "aborted (a # xs) = (case a of AbortTask n \<Rightarrow> n # aborted xs | _ \<Rightarrow> aborted xs)"
  "waits (a # xs) = (case a of WaitBackoff d \<Rightarrow> d # waits xs | _ \<Rightarrow> waits xs)"
  by (auto simp: spawned_def aborted_def waits_def split: super_action.splits)

definition panics :: "(nat \<Rightarrow> join_result) \<Rightarrow> nat \<Rightarrow> bool" where
  "panics ends n \<longleftrightarrow> (\<exists>p. ends n = JoinPanic p)"

definition supervising_state :: "duration \<Rightarrow> duration \<Rightarrow> nat \<Rightarrow> super_state \<Rightarrow> bool" where
  "supervising_state lo hi n s \<longleftrightarrow>
     su_run s = n \<and> spawned (su_trace s) = [0 ..< n] \<and> aborted (su_trace s) = [0 ..< n] \<and>
     waits (su_trace s) = map (\<lambda>i. min (2 ^ i * lo) hi) [0 ..< n] \<and>
     bo_min (su_backoff s) = lo \<and> bo_max (su_backoff s) = hi \<and>
     bo_current (su_backoff s) = min (2 ^ n * lo) hi"

text \<open>While every run panics the supervisor goes on; its waits follow the backoff and are never reset.\<close>

lemma supervise_panics:
  assumes "lo \<le> hi" and "2 * hi \<le> dur_max" and "\<forall>i < n. panics ends i"
  shows "\<exists>s. supervise ends name (Backoff_new lo hi) n = (Supervising, s) \<and> supervising_state lo hi n s"
  using assms(3)
proof (induction n)
  case 0
  then show ?case using assms(1) by (simp add: supervising_state_def Backoff_new_def)
next
  case (Suc n)
  then obtain s where s: "supervise ends name (Backoff_new lo hi) n = (Supervising, s)" "supervising_state lo hi n s"
    by auto
  obtain p where p: "ends n = JoinPanic p" using Suc.prems by (auto simp: panics_def)
  let ?c = "bo_current (su_backoff s)"
  have c: "?c = min (2 ^ n * lo) hi" "bo_min (su_backoff s) = lo" "bo_max (su_backoff s) = hi"
    using s(2) by (simp_all add: supervising_state_def)
  then have "?c * 2 \<le> dur_max" using assms(2) by simp
  then have w: "Backoff_wait (su_backoff s) = (?c, Some ((su_backoff s)\<lparr>bo_current := min (?c * 2) hi\<rparr>))"
    using c by (simp add: Backoff_wait_def panic_free)
  have "min (?c * 2) hi = min (2 ^ Suc n * lo) hi" using c(1) by (auto simp: min_def)
  then show ?case
    using s c p by (simp add: supervise_Suc supervise_step_def Let_def w supervising_state_def)
qed

lemma supervise_returned:
  assumes "supervise ends name b n = (SuperReturned, s)"
  shows "supervise ends name b (n + k) = (SuperReturned, s)"
proof (induction k)
  case (Suc k)
  then show ?case by (simp add: supervise_Suc supervise_step_def)
qed (use assms in simp)

section \<open>Properties\<close>

text \<open>C22: The supervisor runs the task until a run ends without a panic and then returns: with \<open>n\<close> panics
before it, exactly the runs \<open>0 .. n\<close> were spawned, one at a time (each is over or aborted before the
next is spawned), and the waits between them double from the minimum to the maximum (twice which is in range). As long as runs
panic it never stops, and dropping it while it awaits a run or waits for the next leaves no run that is
not aborted.\<close>

theorem supervisor_respawns_after_panics:
  assumes "lo \<le> hi" and "2 * hi \<le> dur_max" and "\<forall>i < n. panics ends i"
  shows "fst (supervise ends name (Backoff_new lo hi) n) = Supervising \<and>
    aborted (supervise_drop point name (snd (supervise ends name (Backoff_new lo hi) n))) = [0 ..< Suc n] \<and>
    spawned (supervise_drop point name (snd (supervise ends name (Backoff_new lo hi) n))) = [0 ..< Suc n] \<and>
    (\<not> panics ends n \<longrightarrow> (\<exists>s. (\<forall>k. supervise ends name (Backoff_new lo hi) (Suc n + k) = (SuperReturned, s)) \<and>
       spawned (su_trace s) = [0 ..< Suc n] \<and> aborted (su_trace s) = [0 ..< Suc n] \<and>
       waits (su_trace s) = map (\<lambda>i. min (2 ^ i * lo) hi) [0 ..< n]))"
proof -
  from supervise_panics [OF assms] obtain s where
    s: "supervise ends name (Backoff_new lo hi) n = (Supervising, s)" "supervising_state lo hi n s" by blast
  have "\<exists>s'. (\<forall>k. supervise ends name (Backoff_new lo hi) (Suc n + k) = (SuperReturned, s')) \<and>
      spawned (su_trace s') = [0 ..< Suc n] \<and> aborted (su_trace s') = [0 ..< Suc n] \<and>
      waits (su_trace s') = map (\<lambda>i. min (2 ^ i * lo) hi) [0 ..< n]" if np: "\<not> panics ends n"
  proof -
    from s np obtain s' where s': "supervise ends name (Backoff_new lo hi) (Suc n) = (SuperReturned, s')"
      "spawned (su_trace s') = [0 ..< Suc n]" "aborted (su_trace s') = [0 ..< Suc n]"
      "waits (su_trace s') = map (\<lambda>i. min (2 ^ i * lo) hi) [0 ..< n]"
      by (cases "ends n")
        (simp_all add: supervise_Suc supervise_step_def Let_def supervising_state_def panics_def)
    with supervise_returned [OF s'(1)] show ?thesis by blast
  qed
  with s show ?thesis by (simp add: supervise_drop_def supervising_state_def split: drop_point.split)
qed

theorem supervisor_respawns_after_panics_witness:
  "\<exists>s. supervise (\<lambda>n. if n < 2 then JoinPanic (PayloadStr ''boom'') else JoinOk) ''tcp''
      (Backoff_new (dur_from_secs 1) (dur_from_secs 30)) 3 = (SuperReturned, s) \<and>
    spawned (su_trace s) = [0, 1, 2] \<and> waits (su_trace s) = [dur_from_secs 1, dur_from_secs 2]"
proof -
  let ?ends = "\<lambda>n :: nat. if n < 2 then JoinPanic (PayloadStr ''boom'') else JoinOk"
  obtain s where s: "\<forall>k. supervise ?ends ''tcp'' (Backoff_new (dur_from_secs 1) (dur_from_secs 30)) (Suc 2 + k) = (SuperReturned, s)"
    "spawned (su_trace s) = [0 ..< Suc 2]"
    "waits (su_trace s) = map (\<lambda>i. min (2 ^ i * dur_from_secs 1) (dur_from_secs 30)) [0 ..< 2]"
    using supervisor_respawns_after_panics [of "dur_from_secs 1" "dur_from_secs 30" 2 ?ends "''tcp''"]
    by (auto simp: panics_def dur_from_secs_def dur_max_def nanos_per_sec_def)
  from s(1) have "supervise ?ends ''tcp'' (Backoff_new (dur_from_secs 1) (dur_from_secs 30)) 3 = (SuperReturned, s)"
    by (metis add.right_neutral numeral_3_eq_3 numeral_2_eq_2)
  moreover have "spawned (su_trace s) = [0, 1, 2]" "waits (su_trace s) = [dur_from_secs 1, dur_from_secs 2]"
    unfolding s(2,3) by (simp_all add: upt_rec dur_from_secs_def nanos_per_sec_def)
  ultimately show ?thesis by blast
qed

end
