(* ===== verification/Senml.thy ===== *)
theory Senml
  imports Schema Hash_Map Example_Config
begin

text \<open>
  \<open>src/senml.rs\<close>: one batch as a SenML pack. The derived \<open>Serialize\<close> of \<open>SenmlRecord\<close> is modelled by
  its JSON value (keys, order and skipped fields are fixed by the attributes in the source); writing
  that value as bytes is \<open>serde_json\<close>'s and a parameter. The specification is the resolution of
  records in RFC 8428, sections 4.1 and 4.6: base values hold from their record onwards.
\<close>

section \<open>The encoder\<close>

record SenmlRecord =
  sr_base_name :: "string option"
  sr_base_time :: "u64 option"
  sr_base_unit :: "string option"
  sr_n :: string
  sr_u :: string
  sr_v :: f64

datatype json = JString string | JUnsigned u64 | JDouble f64 | JArray "json list" | JObject "(string \<times> json) list"

definition SenmlRecord_json :: "SenmlRecord \<Rightarrow> json" where
  "SenmlRecord_json r = JObject
     ((case sr_base_name r of None \<Rightarrow> [] | Some s \<Rightarrow> [(''bn'', JString s)]) @
      (case sr_base_time r of None \<Rightarrow> [] | Some t \<Rightarrow> [(''bt'', JUnsigned t)]) @
      (case sr_base_unit r of None \<Rightarrow> [] | Some s \<Rightarrow> [(''bu'', JString s)]) @
      [(''n'', JString (sr_n r)), (''u'', JString (sr_u r)), (''v'', JDouble (sr_v r))])"

text \<open>\<open>Iterator::max_by_key\<close>: the last of the elements with the greatest key.\<close>

primrec max_by_key :: "('a \<Rightarrow> nat) \<Rightarrow> 'a list \<Rightarrow> 'a option" where
  "max_by_key f [] = None"
| "max_by_key f (x # xs) =
     (case max_by_key f xs of None \<Rightarrow> Some x | Some y \<Rightarrow> if f y < f x then Some x else Some y)"

type_synonym unit_counts = "(string, nat) hashmap"

definition majority_unit :: "(unit_counts \<Rightarrow> unit_counts) \<Rightarrow> AggregatedPoint list \<Rightarrow> string option" where
  "majority_unit order points =
     (if points = [] then None
      else
        let counts = foldl (\<lambda>m p. hm_entry (ap_unit p) 0 Suc m) [] points
        in Option.bind (max_by_key snd (order counts)) (\<lambda>(unit, count).
             if length points < count * 2 then Some unit else None))"

definition senml_record :: "string option \<Rightarrow> AggregatedBatch \<Rightarrow> string \<Rightarrow> nat \<Rightarrow> AggregatedPoint \<Rightarrow> SenmlRecord" where
  "senml_record base_unit batch base_name_prefix i p =
     \<lparr>sr_base_name = (if i = 0 then Some (base_name_prefix @ ab_device_id batch @ '':'') else None),
      sr_base_time = (if i = 0 then Some (ab_window_start batch) else None),
      sr_base_unit = (if i = 0 then base_unit else None),
      sr_n = ap_name p, sr_u = ap_unit p, sr_v = ap_mean p\<rparr>"

definition senml_records :: "(unit_counts \<Rightarrow> unit_counts) \<Rightarrow> AggregatedBatch \<Rightarrow> string \<Rightarrow> SenmlRecord list" where
  "senml_records order batch base_name_prefix =
     (let base_unit = majority_unit order (ab_points batch)
      in map (\<lambda>(i, p). senml_record base_unit batch base_name_prefix i p) (enumerate 0 (ab_points batch)))"

definition encode_senml ::
  "(json \<Rightarrow> string) \<Rightarrow> (unit_counts \<Rightarrow> unit_counts) \<Rightarrow> AggregatedBatch \<Rightarrow> string \<Rightarrow> string" where
  "encode_senml to_vec order batch base_name_prefix =
     to_vec (JArray (map SenmlRecord_json (senml_records order batch base_name_prefix)))"

section \<open>The majority unit\<close>

definition unit_count :: "string \<Rightarrow> AggregatedPoint list \<Rightarrow> nat" where
  "unit_count u points = length (filter (\<lambda>p. ap_unit p = u) points)"

definition strict_majority :: "string \<Rightarrow> AggregatedPoint list \<Rightarrow> bool" where
  "strict_majority u points \<longleftrightarrow> length points < 2 * unit_count u points"

lemma max_by_key_SomeD:
  "max_by_key f xs = Some x \<Longrightarrow> x \<in> set xs \<and> (\<forall>y \<in> set xs. f y \<le> f x)"
proof (induction xs arbitrary: x)
  case (Cons a xs)
  show ?case
  proof (cases "max_by_key f xs")
    case None
    then have "xs = []" by (cases xs) (auto split: option.splits if_splits)
    with Cons.prems show ?thesis by simp
  next
    case (Some y)
    with Cons.IH [OF Some] Cons.prems show ?thesis by (auto split: if_splits)
  qed
qed simp

lemma max_by_key_None_iff: "max_by_key f xs = None \<longleftrightarrow> xs = []"
  by (cases xs) (auto split: option.split)

lemma counts_get:
  "hm_ok m \<Longrightarrow> hm_ok (foldl (\<lambda>m p. hm_entry (ap_unit p) 0 Suc m) m points) \<and>
     hm_get (foldl (\<lambda>m p. hm_entry (ap_unit p) 0 Suc m) m points) u =
       (if unit_count u points = 0 then hm_get m u
        else Some (unit_count u points + (case hm_get m u of None \<Rightarrow> 0 | Some c \<Rightarrow> c)))"
proof (induction points arbitrary: m)
  case (Cons p points)
  have "hm_ok (hm_entry (ap_unit p) 0 Suc m)" using Cons.prems by (rule hm_ok_entry)
  from Cons.IH [OF this] show ?case
    by (auto simp: unit_count_def hm_get_entry [OF Cons.prems] split: option.splits)
qed (simp add: unit_count_def)

lemma unit_count_disjoint:
  assumes "u \<noteq> v"
  shows "unit_count u points + unit_count v points \<le> length points"
  using assms by (induction points) (auto simp: unit_count_def)

lemma majority_unit_iff:
  assumes order: "\<And>m. mset (order m) = mset m"
  shows "majority_unit order points = Some u \<longleftrightarrow> strict_majority u points"
proof (cases "points = []")
  case True
  then show ?thesis by (simp add: majority_unit_def strict_majority_def unit_count_def)
next
  case False
  define counts where "counts = foldl (\<lambda>m p. hm_entry (ap_unit p) 0 Suc m) [] points"
  have ok: "hm_ok counts" and get: "hm_get counts v = (if unit_count v points = 0 then None else Some (unit_count v points))" for v
    using counts_get [OF hm.ok_empty, of points] unfolding counts_def by (simp_all add: hm.get_empty)
  have mem: "(v, c) \<in> set (order counts) \<longleftrightarrow> c = unit_count v points \<and> c \<noteq> 0" for v c
  proof -
    have "set (order counts) = set counts" using order by (metis set_mset_mset)
    then show ?thesis using hm.entries_get [OF ok, of v c] get [of v] by auto
  qed
  obtain p where "p \<in> set points" using False by (cases points) auto
  then have "unit_count (ap_unit p) points \<noteq> 0" by (auto simp: unit_count_def filter_empty_conv)
  then have "(ap_unit p, unit_count (ap_unit p) points) \<in> set (order counts)" by (simp add: mem)
  then obtain w c where max: "max_by_key snd (order counts) = Some (w, c)"
    using max_by_key_None_iff [of snd "order counts"] by (cases "max_by_key snd (order counts)") auto
  from max_by_key_SomeD [OF max] have wc: "(w, c) \<in> set (order counts)"
    and top: "\<And>v d. (v, d) \<in> set (order counts) \<Longrightarrow> d \<le> c" by auto
  from wc have w: "c = unit_count w points" "c \<noteq> 0" by (simp_all add: mem)
  have "majority_unit order points = (if length points < c * 2 then Some w else None)"
    using False max by (simp add: majority_unit_def Let_def counts_def)
  moreover have "w = u \<and> length points < c * 2 \<longleftrightarrow> strict_majority u points"
  proof
    assume "strict_majority u points"
    then have u: "length points < 2 * unit_count u points" by (simp add: strict_majority_def)
    then have "unit_count u points \<noteq> 0" by linarith
    then have "unit_count u points \<le> c" using top [of u "unit_count u points"] mem by simp
    with u have "w = u" using unit_count_disjoint [of w u points] w(1) by linarith
    with u w(1) show "w = u \<and> length points < c * 2" by simp
  qed (use w in \<open>auto simp: strict_majority_def\<close>)
  ultimately show ?thesis by auto
qed

section \<open>Resolution\<close>

text \<open>
  A resolved record: name, unit, time and value. The base name, unit and time hold from the record
  that sets them; a record's own unit takes precedence; its time is the base time plus its own.
\<close>

record resolved =
  rs_name :: string
  rs_unit :: "string option"
  rs_time :: nat
  rs_value :: "json option"

primrec json_string :: "json \<Rightarrow> string option" where
  "json_string (JString s) = Some s" | "json_string (JUnsigned n) = None" | "json_string (JDouble d) = None"
| "json_string (JArray js) = None" | "json_string (JObject kvs) = None"

primrec json_unsigned :: "json \<Rightarrow> u64 option" where
  "json_unsigned (JUnsigned n) = Some n" | "json_unsigned (JString s) = None" | "json_unsigned (JDouble d) = None"
| "json_unsigned (JArray js) = None" | "json_unsigned (JObject kvs) = None"

definition own_or :: "('b option) \<Rightarrow> 'b \<Rightarrow> 'b" where
  "own_or x d = (case x of None \<Rightarrow> d | Some y \<Rightarrow> y)"

primrec resolve :: "string \<Rightarrow> string option \<Rightarrow> nat \<Rightarrow> (string \<times> json) list list \<Rightarrow> resolved list" where
  "resolve bn bu bt [] = []"
| "resolve bn bu bt (r # rs) =
     (let field = map_of r;
          bn' = own_or (Option.bind (field ''bn'') json_string) bn;
          bu' = (case Option.bind (field ''bu'') json_string of None \<Rightarrow> bu | Some u \<Rightarrow> Some u);
          bt' = own_or (map_option unat (Option.bind (field ''bt'') json_unsigned)) bt
      in \<lparr>rs_name = bn' @ own_or (Option.bind (field ''n'') json_string) '''',
          rs_unit = (case Option.bind (field ''u'') json_string of None \<Rightarrow> bu' | Some u \<Rightarrow> Some u),
          rs_time = bt' + own_or (map_option unat (Option.bind (field ''t'') json_unsigned)) 0,
          rs_value = field ''v''\<rparr> # resolve bn' bu' bt' rs)"

definition json_fields :: "json \<Rightarrow> (string \<times> json) list" where
  "json_fields j = (case j of JObject kvs \<Rightarrow> kvs | _ \<Rightarrow> [])"

lemma record_fields:
  "map_of (json_fields (SenmlRecord_json r)) =
     (\<lambda>k. if k = ''bn'' then map_option JString (sr_base_name r)
          else if k = ''bt'' then map_option JUnsigned (sr_base_time r)
          else if k = ''bu'' then map_option JString (sr_base_unit r)
          else if k = ''n'' then Some (JString (sr_n r))
          else if k = ''u'' then Some (JString (sr_u r))
          else if k = ''v'' then Some (JDouble (sr_v r))
          else None)"
  by (rule ext) (auto simp: json_fields_def SenmlRecord_json_def map_add_def split: option.split)

definition expected :: "string \<Rightarrow> AggregatedBatch \<Rightarrow> AggregatedPoint \<Rightarrow> resolved" where
  "expected base_name_prefix batch p =
     \<lparr>rs_name = base_name_prefix @ ab_device_id batch @ '':'' @ ap_name p, rs_unit = Some (ap_unit p),
      rs_time = unat (ab_window_start batch), rs_value = Some (JDouble (ap_mean p))\<rparr>"

lemma resolve_Cons:
  "resolve bn bu bt (json_fields (SenmlRecord_json r) # rs) =
     (let bn' = own_or (sr_base_name r) bn;
          bu' = (case sr_base_unit r of None \<Rightarrow> bu | Some u \<Rightarrow> Some u);
          bt' = own_or (map_option unat (sr_base_time r)) bt
      in \<lparr>rs_name = bn' @ sr_n r, rs_unit = Some (sr_u r), rs_time = bt', rs_value = Some (JDouble (sr_v r))\<rparr>
         # resolve bn' bu' bt' rs)"
  by (simp add: record_fields own_or_def Let_def option.map_comp comp_def split: option.split)

lemma resolve_rest:
  "0 < k \<Longrightarrow> resolve (prefix @ ab_device_id batch @ '':'') bu (unat (ab_window_start batch))
       (map (\<lambda>(i, p). json_fields (SenmlRecord_json (senml_record base_unit batch prefix i p))) (enumerate k points)) =
     map (expected prefix batch) points"
proof (induction points arbitrary: k bu)
  case (Cons p points)
  then show ?case
    by (simp add: resolve_Cons senml_record_def expected_def own_or_def Let_def del: resolve.simps(2))
qed simp

lemma resolve_pack:
  "resolve '''' None 0 (map (json_fields \<circ> SenmlRecord_json) (senml_records order batch prefix)) =
     map (expected prefix batch) (ab_points batch)"
proof (cases "ab_points batch")
  case (Cons p points)
  then show ?thesis
    using resolve_rest [of "Suc 0" prefix batch _ "majority_unit order (p # points)" points]
    by (simp add: senml_records_def Let_def comp_def case_prod_unfold resolve_Cons del: resolve.simps(2))
      (simp add: senml_record_def own_or_def expected_def del: resolve.simps(2))
qed (simp add: senml_records_def)

section \<open>Properties\<close>

text \<open>C17: Resolving a pack by the rules of SenML gives back the batch: one record for each point, in order,
named \<open>prefix device : point\<close>, with the point's unit, the start of the window as its time and the mean
as its value, whatever the base unit is and however the unit counts are ordered.\<close>

theorem senml_resolves_to_batch:
  "encode_senml to_vec order batch prefix =
     to_vec (JArray (map SenmlRecord_json (senml_records order batch prefix))) \<and>
   resolve '''' None 0 (map (json_fields \<circ> SenmlRecord_json) (senml_records order batch prefix)) =
     map (expected prefix batch) (ab_points batch)"
  by (simp add: encode_senml_def resolve_pack)

text \<open>The base unit is exactly the unit that more than half of the points share, and there is none if
there is no such unit, for every iteration order of the hash map that counts them.\<close>

theorem base_unit_is_majority:
  assumes "\<And>m. mset (order m) = mset m"
  shows "majority_unit order points = Some u \<longleftrightarrow> strict_majority u points"
  using assms by (rule majority_unit_iff)

theorem base_unit_is_majority_witness:
  "majority_unit rev [\<lparr>ap_name = ''a'', ap_unit = ''V'', ap_mean = f64_one\<rparr>,
     \<lparr>ap_name = ''b'', ap_unit = ''A'', ap_mean = f64_one\<rparr>,
     \<lparr>ap_name = ''c'', ap_unit = ''V'', ap_mean = f64_zero\<rparr>] = Some ''V''"
  by (subst base_unit_is_majority) (simp_all add: strict_majority_def unit_count_def)

end
