(* ===== verification/Mqtt.thy ===== *)
theory Mqtt
  imports Senml Status Clock
begin

text \<open>
  \<open>src/mqtt.rs\<close>: topics, connection options, the publisher task and the task that drives the client's
  event loop. The client library, the environment variables and the file system are parameters; what
  the code requests of the client is a trace of actions.
\<close>

section \<open>Topics\<close>

definition status_topic :: "string \<Rightarrow> string" where
  "status_topic gateway_id = ''telemetry/'' @ gateway_id @ ''/status''"

text \<open>\<open>str::replace\<close> with a non-empty pattern: the occurrences from the left that do not overlap.\<close>

function str_replace :: "string \<Rightarrow> string \<Rightarrow> string \<Rightarrow> string" where
  "str_replace pat to [] = []"
| "str_replace pat to (c # cs) =
     (if pat \<noteq> [] \<and> prefix pat (c # cs) then to @ str_replace pat to (drop (length pat) (c # cs))
      else c # str_replace pat to cs)"
  by pat_completeness auto
termination by (relation "measure (\<lambda>(pat, to, s). length s)") auto

declare str_replace.simps(2) [simp del]

definition placeholder :: string where "placeholder = ''{device}''"

definition batch_topic :: "string \<Rightarrow> string \<Rightarrow> string" where
  "batch_topic topic_template device_id = str_replace placeholder device_id topic_template"

section \<open>Options\<close>

datatype QoS = AtMostOnce | AtLeastOnce | ExactlyOnce

datatype MqttSetupError =
    PasswordMissing string
  | CaCert string string
  | MqttInvalidQos u8

text \<open>\<open>rumqttc::qos\<close>, \<open>std::env::var\<close> and \<open>std::fs::read\<close>.\<close>

record mqtt_env =
  me_qos :: "u8 \<Rightarrow> QoS option"
  me_env_var :: "string \<Rightarrow> string option"
  me_read_file :: "string \<Rightarrow> string + string"

definition qos :: "mqtt_env \<Rightarrow> u8 \<Rightarrow> MqttSetupError + QoS" where
  "qos env value = (case me_qos env value of Some q \<Rightarrow> Inr q | None \<Rightarrow> Inl (MqttInvalidQos value))"

definition read_password :: "mqtt_env \<Rightarrow> MqttConfig \<Rightarrow> MqttSetupError + string" where
  "read_password env cfg =
     (case me_env_var env (mq_password_env cfg) of
        Some p \<Rightarrow> Inr p
      | None \<Rightarrow> Inl (PasswordMissing (mq_password_env cfg)))"

record LastWill =
  lw_topic :: string
  lw_payload :: string
  lw_qos :: QoS
  lw_retain :: bool

text \<open>\<open>mo_tls\<close> is the trust store of a TLS transport; without it the transport is plain TCP.\<close>

record MqttOptions =
  mo_client_id :: string
  mo_host :: string
  mo_port :: u16
  mo_clean_session :: bool
  mo_keep_alive :: duration
  mo_credentials :: "string \<times> string"
  mo_max_packet_size :: "nat \<times> nat"
  mo_last_will :: LastWill
  mo_tls :: "string option"

definition MAX_PACKET_SIZE :: nat where "MAX_PACKET_SIZE = 256 * 1024"
definition QUEUE_CAPACITY :: nat where "QUEUE_CAPACITY = 100"
definition RECONNECT_DELAY :: duration where "RECONNECT_DELAY = dur_from_millis 500"
definition ONLINE :: string where "ONLINE = ''online''"
definition OFFLINE :: string where "OFFLINE = ''offline''"

text \<open>\<open>set_clean_session(false)\<close> of the client library panics for an empty client id (\<open>None\<close>), as it
documents: a session without an id cannot persist.\<close>

definition build_mqtt_options ::
  "mqtt_env \<Rightarrow> MqttConfig \<Rightarrow> string \<Rightarrow> string \<Rightarrow> (MqttSetupError + MqttOptions) option" where
  "build_mqtt_options env cfg gateway_id password =
     (let opts = \<lparr>mo_client_id = mq_client_id cfg, mo_host = mq_broker_host cfg, mo_port = mq_broker_port cfg,
            mo_clean_session = False, mo_keep_alive = dur_from_secs (mq_keep_alive_secs cfg),
            mo_credentials = (mq_username cfg, password),
            mo_max_packet_size = (MAX_PACKET_SIZE, MAX_PACKET_SIZE),
            mo_last_will = \<lparr>lw_topic = status_topic gateway_id, lw_payload = OFFLINE, lw_qos = AtLeastOnce, lw_retain = True\<rparr>,
            mo_tls = None\<rparr>
      in if mq_client_id cfg = [] then None
         else if mq_tls cfg then
           (case me_read_file env (mq_ca_cert_path cfg) of
              Inl e \<Rightarrow> Some (Inl (CaCert (mq_ca_cert_path cfg) e))
            | Inr ca \<Rightarrow> Some (Inr (opts\<lparr>mo_tls := Some ca\<rparr>)))
         else Some (Inr opts))"

section \<open>The publisher\<close>

datatype publish_result = PublishOk | PublishQueueFull | PublishError

datatype mqtt_action =
    NewClient MqttOptions nat
  | SpawnEventloop string
  | TryPublish string QoS bool string publish_result
  | LogQueued string
  | LogQueueFull string nat
  | LogPublishFailed string
  | LogDisconnecting
  | Publish string QoS bool string bool
  | WarnOfflineNotQueued
  | Disconnect bool
  | WarnDisconnectNotQueued
  | JoinEventloop

definition publish_batch ::
  "(AggregatedBatch \<Rightarrow> string) \<Rightarrow> QoS \<Rightarrow> MqttConfig \<Rightarrow> AggregatedBatch \<Rightarrow> publish_result \<Rightarrow> mqtt_action list" where
  "publish_batch encode q mqtt batch result =
     [TryPublish (batch_topic (mq_topic_template mqtt) (ab_device_id batch)) q False (encode batch) result,
      (case result of
         PublishOk \<Rightarrow> LogQueued (ab_device_id batch)
       | PublishQueueFull \<Rightarrow> LogQueueFull (ab_device_id batch) QUEUE_CAPACITY
       | PublishError \<Rightarrow> LogPublishFailed (ab_device_id batch))]"

text \<open>
  \<open>publish().await\<close> and \<open>disconnect().await\<close> wait for room in the client's queue and fail only when
  the client is gone (\<open>queued\<close> is false); a failure is logged.
\<close>

definition finish_publisher :: "string \<Rightarrow> bool \<times> bool \<Rightarrow> mqtt_action list" where
  "finish_publisher topic queued =
     [LogDisconnecting, Publish topic AtLeastOnce True OFFLINE (fst queued)] @
     (if fst queued then [] else [WarnOfflineNotQueued]) @
     [Disconnect (snd queued)] @
     (if snd queued then [] else [WarnDisconnectNotQueued]) @
     [JoinEventloop]"

text \<open>
  \<open>run_publisher\<close> for the batches it receives until its channel closes, each with the client's
  answer. (The last part waits for the event loop to send the disconnect; if it never does, neither
  does the task end.)
\<close>

definition run_publisher ::
  "mqtt_env \<Rightarrow> (json \<Rightarrow> string) \<Rightarrow> (unit_counts \<Rightarrow> unit_counts) \<Rightarrow> MqttOptions \<Rightarrow> MqttConfig \<Rightarrow> GatewayConfig
     \<Rightarrow> (AggregatedBatch \<times> publish_result) list \<Rightarrow> bool \<times> bool \<Rightarrow> (MqttSetupError + unit) \<times> mqtt_action list" where
  "run_publisher env to_vec order options mqtt gateway input queued =
     (case qos env (mq_qos mqtt) of
        Inl e \<Rightarrow> (Inl e, [])
      | Inr q \<Rightarrow>
          (let topic = status_topic (gw_id gateway) in
           (Inr (),
            [NewClient options QUEUE_CAPACITY, SpawnEventloop topic] @
            concat (map (\<lambda>(batch, result).
              publish_batch (\<lambda>b. encode_senml to_vec order b (gw_base_name_prefix gateway)) q mqtt batch result) input) @
            finish_publisher topic queued)))"

section \<open>The event loop\<close>

datatype mqtt_event = ConnAck | SentDisconnect | OtherEvent | PollError

datatype loop_action =
    LoopReport StatusEvent
  | SpawnPublish string QoS bool string
  | LogConnected
  | LogDisconnected
  | LogOutage
  | LogRetry
  | LoopSleep duration

text \<open>One turn of \<open>drive_eventloop\<close>: the new \<open>outage_logged\<close>, or \<open>None\<close> when the task returns.\<close>

definition eventloop_step :: "string \<Rightarrow> bool \<Rightarrow> mqtt_event \<Rightarrow> bool option \<times> loop_action list" where
  "eventloop_step topic outage_logged ev =
     (case ev of
        ConnAck \<Rightarrow>
          (Some False, [LogConnected, LoopReport MqttConnected, SpawnPublish topic AtLeastOnce True ONLINE])
      | SentDisconnect \<Rightarrow> (None, [LogDisconnected, LoopReport MqttDisconnected])
      | OtherEvent \<Rightarrow> (Some outage_logged, [])
      | PollError \<Rightarrow>
          (Some True, [LoopReport MqttDisconnected, if outage_logged then LogRetry else LogOutage,
                       LoopSleep RECONNECT_DELAY]))"

primrec eventloop_run :: "string \<Rightarrow> bool \<Rightarrow> mqtt_event list \<Rightarrow> bool option \<times> loop_action list" where
  "eventloop_run topic logged [] = (Some logged, [])"
| "eventloop_run topic logged (ev # evs) =
     (case eventloop_step topic logged ev of
        (None, out) \<Rightarrow> (None, out)
      | (Some logged', out) \<Rightarrow> (case eventloop_run topic logged' evs of (r, out') \<Rightarrow> (r, out @ out')))"

definition drive_eventloop :: "string \<Rightarrow> mqtt_event list \<Rightarrow> bool option \<times> loop_action list" where
  "drive_eventloop topic evs = eventloop_run topic False evs"

section \<open>Replacement\<close>

text \<open>The parts of a template between its placeholders; the replacement puts the text between them.\<close>

function split_on :: "string \<Rightarrow> string \<Rightarrow> string list" where
  "split_on pat [] = [[]]"
| "split_on pat (c # cs) =
     (if pat \<noteq> [] \<and> prefix pat (c # cs) then [] # split_on pat (drop (length pat) (c # cs))
      else (case split_on pat cs of [] \<Rightarrow> [[c]] | p # ps \<Rightarrow> (c # p) # ps))"
  by pat_completeness auto
termination by (relation "measure (\<lambda>(pat, s). length s)") auto

declare split_on.simps(2) [simp del]

lemma split_on_nonempty: "split_on pat s \<noteq> []"
  by (cases s) (auto simp: split_on.simps(2) split: list.split)

lemma join_Cons_Cons: "join sep ((c # p) # ps) = c # join sep (p # ps)"
  by (cases ps) simp_all

lemma join_Nil_Cons: "ps \<noteq> [] \<Longrightarrow> join sep ([] # ps) = sep @ join sep ps"
  by (cases ps) simp_all

lemma str_replace_join: "str_replace pat to s = join to (split_on pat s)"
proof (induction pat s rule: split_on.induct)
  case (2 pat c cs)
  then show ?case
    using split_on_nonempty [of pat]
    by (cases "split_on pat cs")
      (auto simp: str_replace.simps(2) split_on.simps(2) join_Nil_Cons join_Cons_Cons)
qed simp

lemma length_join:
  "ps \<noteq> [] \<Longrightarrow> length (join sep ps) = length (concat ps) + (length ps - 1) * length sep"
  by (induction sep ps rule: join.induct) auto

lemma join_inj:
  assumes "join a ps = join b ps" and "2 \<le> length ps"
  shows "a = b"
proof -
  have ne: "ps \<noteq> []" using assms(2) by auto
  have "(length ps - 1) * length a = (length ps - 1) * length b"
    using arg_cong [OF assms(1), of length] by (simp add: length_join [OF ne])
  moreover have "0 < length ps - 1" using assms(2) by simp
  ultimately have len: "length a = length b" by simp
  obtain p q rs where "ps = p # q # rs" using assms(2) by (cases ps; cases "tl ps") auto
  with assms(1) len show "a = b" by simp
qed

lemma split_on_placeholder:
  assumes "sublist pat s" and "pat \<noteq> []"
  shows "2 \<le> length (split_on pat s)"
  using assms
proof (induction pat s rule: split_on.induct)
  case (2 pat c cs)
  show ?case
  proof (cases "prefix pat (c # cs)")
    case True
    then show ?thesis
      using split_on_nonempty [of pat "drop (length pat) (c # cs)"] 2(4)
      by (cases "split_on pat (drop (length pat) (c # cs))") (simp_all add: split_on.simps(2))
  next
    case False
    then have "sublist pat cs" using 2(3) by (simp add: sublist_Cons_right)
    with 2 False show ?thesis by (auto simp: split_on.simps(2) split: list.split)
  qed
qed (simp add: sublist_def)

lemma split_on_none: "\<not> sublist pat s \<Longrightarrow> split_on pat s = [s]"
proof (induction s)
  case (Cons c cs)
  then have "\<not> prefix pat (c # cs)" "\<not> sublist pat cs" by (simp_all add: sublist_Cons_right)
  with Cons.IH show ?case by (simp add: split_on.simps(2))
qed simp

section \<open>Outages\<close>

text \<open>The positions of the poll errors that begin an outage: no error since the last connect.\<close>

fun outages :: "bool \<Rightarrow> mqtt_event list \<Rightarrow> nat" where
  "outages away [] = 0"
| "outages away (PollError # evs) = (if away then 0 else 1) + outages True evs"
| "outages away (ConnAck # evs) = outages False evs"
| "outages away (OtherEvent # evs) = outages away evs"
| "outages away (SentDisconnect # evs) = 0"

definition count_action :: "(loop_action \<Rightarrow> bool) \<Rightarrow> loop_action list \<Rightarrow> nat" where
  "count_action P out = length (filter P out)"

lemma count_action_append [simp]: "count_action P (xs @ ys) = count_action P xs + count_action P ys"
  by (simp add: count_action_def)

lemma eventloop_outages:
  "count_action (\<lambda>a. a = LogOutage) (snd (eventloop_run topic logged evs)) = outages logged evs"
proof (induction evs arbitrary: logged)
  case (Cons ev evs)
  then show ?case
    by (cases ev) (simp_all add: eventloop_step_def count_action_def case_prod_unfold)
qed (simp add: count_action_def)

text \<open>The connectivity the event loop saw last, and the one it reported last.\<close>

definition connectivity :: "mqtt_event \<Rightarrow> StatusEvent option" where
  "connectivity ev =
     (case ev of ConnAck \<Rightarrow> Some MqttConnected | SentDisconnect \<Rightarrow> Some MqttDisconnected
      | PollError \<Rightarrow> Some MqttDisconnected | OtherEvent \<Rightarrow> None)"

fun reports :: "loop_action list \<Rightarrow> StatusEvent list" where
  "reports [] = []"
| "reports (LoopReport ev # out) = ev # reports out"
| "reports (_ # out) = reports out"

lemma reports_append [simp]: "reports (xs @ ys) = reports xs @ reports ys"
  by (induction xs rule: reports.induct) simp_all

lemma eventloop_reports:
  "SentDisconnect \<notin> set evs \<Longrightarrow>
     reports (snd (eventloop_run topic logged evs)) = List.map_filter connectivity evs"
proof (induction evs arbitrary: logged)
  case (Cons ev evs)
  then show ?case
    by (cases ev) (simp_all add: eventloop_step_def connectivity_def case_prod_unfold map_filter_simps)
qed (simp add: map_filter_simps)

lemma eventloop_runs:
  "SentDisconnect \<notin> set evs \<Longrightarrow> fst (eventloop_run topic logged evs) \<noteq> None"
proof (induction evs arbitrary: logged)
  case (Cons ev evs)
  then show ?case by (cases ev) (simp_all add: eventloop_step_def case_prod_unfold)
qed simp

lemma eventloop_disconnect:
  "SentDisconnect \<notin> set evs \<Longrightarrow>
     eventloop_run topic logged (evs @ SentDisconnect # later) =
       (None, snd (eventloop_run topic logged evs) @ [LogDisconnected, LoopReport MqttDisconnected])"
proof (induction evs arbitrary: logged)
  case (Cons ev evs)
  then show ?case by (cases ev) (simp_all add: eventloop_step_def case_prod_unfold)
qed (simp add: eventloop_step_def)

section \<open>Properties\<close>

definition ex_mqtt_env :: mqtt_env where
  "ex_mqtt_env = \<lparr>me_qos = (\<lambda>q. if q = 0 then Some AtMostOnce else if q = 1 then Some AtLeastOnce
       else if q = 2 then Some ExactlyOnce else None),
     me_env_var = (\<lambda>v. if v = ''PW'' then Some ''secret'' else None),
     me_read_file = (\<lambda>path. Inr path)\<rparr>"

text \<open>C34: The telemetry topic determines the device id exactly when the template holds a placeholder,
wherever and however often it occurs: then two ids never share a topic; without one, which the
validation accepts, all do. (Two devices with the same id always share one.)\<close>

theorem device_topics_distinct:
  "batch_topic topic_template d1 = batch_topic topic_template d2 \<longleftrightarrow> d1 = d2 \<or> \<not> sublist placeholder topic_template"
  using join_inj [of d1 "split_on placeholder topic_template" d2]
    split_on_placeholder [of placeholder topic_template] split_on_none [of placeholder topic_template]
  by (auto simp: batch_topic_def str_replace_join placeholder_def)

theorem device_topics_distinct_witness:
  "batch_topic ''telemetry/{device}/data'' ''meter'' \<noteq> batch_topic ''telemetry/{device}/data'' ''inverter''"
proof -
  have "''telemetry/{device}/data'' = ''telemetry/'' @ placeholder @ ''/data''" by (simp add: placeholder_def)
  then have "sublist placeholder ''telemetry/{device}/data''" unfolding sublist_def by blast
  with device_topics_distinct [of "''telemetry/{device}/data''" "''meter''" "''inverter''"] show ?thesis by simp
qed

text \<open>What the task asks of the client, without its log lines.\<close>

definition is_request :: "mqtt_action \<Rightarrow> bool" where
  "is_request a = (case a of TryPublish _ _ _ _ _ \<Rightarrow> True | Publish _ _ _ _ _ \<Rightarrow> True | Disconnect _ \<Rightarrow> True
     | _ \<Rightarrow> False)"

text \<open>C19: The publisher offers every batch it receives to the client exactly once, in order, on the topic of
its device, with the configured QoS, not retained, whatever the client answered to earlier ones; when
its input closes, all it asks of the client after them is to publish exactly the last will that the
connection options announce and then to disconnect, also when the client takes neither.\<close>

theorem publisher_offers_every_batch:
  assumes "build_mqtt_options env mqtt (gw_id gateway) password = Some (Inr options)"
    and "qos env (mq_qos mqtt) = Inr q"
  shows "\<exists>out. run_publisher env to_vec order options mqtt gateway input queued = (Inr (), out) \<and>
    filter is_request out = map (\<lambda>(batch, result).
      TryPublish (batch_topic (mq_topic_template mqtt) (ab_device_id batch)) q False
        (encode_senml to_vec order batch (gw_base_name_prefix gateway)) result) input @
      [Publish (lw_topic (mo_last_will options)) (lw_qos (mo_last_will options))
        (lw_retain (mo_last_will options)) (lw_payload (mo_last_will options)) (fst queued),
       Disconnect (snd queued)] \<and>
    last out = JoinEventloop"
proof -
  have will: "mo_last_will options =
      \<lparr>lw_topic = status_topic (gw_id gateway), lw_payload = OFFLINE, lw_qos = AtLeastOnce, lw_retain = True\<rparr>"
    using assms(1) by (auto simp: build_mqtt_options_def Let_def split: if_splits sum.splits)
  have "filter is_request (concat (map (\<lambda>(batch, result). publish_batch enc q mqtt batch result) input)) =
      map (\<lambda>(batch, result). TryPublish (batch_topic (mq_topic_template mqtt) (ab_device_id batch)) q False
        (enc batch) result) input" for enc
    by (induction input) (auto simp: publish_batch_def is_request_def split: publish_result.split)
  then show ?thesis
    by (simp add: run_publisher_def finish_publisher_def assms(2) Let_def will is_request_def)
qed

theorem publisher_offers_every_batch_witness:
  "\<exists>options out. build_mqtt_options ex_mqtt_env ex_mqtt ''gw1'' ''secret'' = Some (Inr options) \<and>
     run_publisher ex_mqtt_env (\<lambda>j. ''[]'') (\<lambda>m. m) options ex_mqtt ex_gateway [] (True, False) = (Inr (), out) \<and>
     filter is_request out = [Publish ''telemetry/gw1/status'' AtLeastOnce True ''offline'' True, Disconnect False]"
proof -
  obtain options where opts: "build_mqtt_options ex_mqtt_env ex_mqtt (gw_id ex_gateway) ''secret'' = Some (Inr options)"
    by (simp add: build_mqtt_options_def ex_mqtt_def Let_def)
  then have will: "mo_last_will options =
      \<lparr>lw_topic = ''telemetry/gw1/status'', lw_payload = ''offline'', lw_qos = AtLeastOnce, lw_retain = True\<rparr>"
    by (auto simp: build_mqtt_options_def ex_mqtt_def Let_def ex_gateway_def status_topic_def OFFLINE_def)
  have q: "qos ex_mqtt_env (mq_qos ex_mqtt) = Inr AtLeastOnce" by (simp add: qos_def ex_mqtt_env_def ex_mqtt_def)
  from publisher_offers_every_batch [OF opts q, of "\<lambda>j. ''[]''" "\<lambda>m. m" "[]" "(True, False)"] opts show ?thesis
    by (auto simp: will ex_gateway_def)
qed

text \<open>C33: The event loop reports every change of connectivity, in order, and the last report is the last
connectivity it saw; it warns once for each outage, however many attempts to reconnect fail; it runs
until a disconnect has been sent and then returns.\<close>

theorem eventloop_reports_and_warns_once:
  assumes "SentDisconnect \<notin> set evs"
  shows "fst (drive_eventloop topic evs) \<noteq> None \<and>
    reports (snd (drive_eventloop topic evs)) = List.map_filter connectivity evs \<and>
    count_action (\<lambda>a. a = LogOutage) (snd (drive_eventloop topic evs)) = outages False evs \<and>
    drive_eventloop topic (evs @ SentDisconnect # later) =
      (None, snd (drive_eventloop topic evs) @ [LogDisconnected, LoopReport MqttDisconnected])"
  unfolding drive_eventloop_def
  using eventloop_runs [OF assms] eventloop_reports [OF assms] eventloop_outages eventloop_disconnect [OF assms]
  by blast

theorem eventloop_reports_and_warns_once_witness:
  "count_action (\<lambda>a. a = LogOutage) (snd (drive_eventloop ''t'' [PollError, PollError, ConnAck, OtherEvent, PollError])) = 2"
  using eventloop_reports_and_warns_once [of "[PollError, PollError, ConnAck, OtherEvent, PollError]" "''t''"]
  by simp

end
