(* ===== verification/Syslog.thy ===== *)
theory Syslog
  imports Backoff
begin

text \<open>
  \<open>src/syslog.rs\<close>: the \<open>tracing\<close> layer that writes to the syslog socket. The socket calls, the text of
  a time and the clock are the environment; a message that cannot be sent goes to the fallback
  writer. The reconnect delay is an instance of the backoff interface.
\<close>

section \<open>Framing\<close>

datatype Level = ERROR | WARN | INFO | DEBUG | TRACE

text \<open>The order of \<open>tracing\<close>: a level is greater the more verbose it is.\<close>

primrec verbosity :: "Level \<Rightarrow> nat" where
  "verbosity ERROR = 0" | "verbosity WARN = 1" | "verbosity INFO = 2" | "verbosity DEBUG = 3" | "verbosity TRACE = 4"

lemma verbosity_inj: "verbosity l = verbosity l' \<longleftrightarrow> l = l'"
  by (cases l; cases l') simp_all

instantiation Level :: linorder
begin

definition less_eq_Level :: "Level \<Rightarrow> Level \<Rightarrow> bool" where
  "less_eq_Level l l' \<longleftrightarrow> verbosity l \<le> verbosity l'"

definition less_Level :: "Level \<Rightarrow> Level \<Rightarrow> bool" where
  "less_Level l l' \<longleftrightarrow> verbosity l < verbosity l'"

instance
  by standard (auto simp: less_eq_Level_def less_Level_def verbosity_inj)

end

definition FACILITY_DAEMON :: u8 where "FACILITY_DAEMON = 3"

definition severity :: "Level \<Rightarrow> u8" where
  "severity level = (case level of ERROR \<Rightarrow> 3 | WARN \<Rightarrow> 4 | INFO \<Rightarrow> 6 | _ \<Rightarrow> 7)"

text \<open>\<open>fmt\<close> is the text of a time in the format \<open>TIMESTAMP\<close>; \<open>None\<close> is the panic of \<open>expect\<close>.\<close>

definition format_rfc3164 :: "('t \<Rightarrow> string option) \<Rightarrow> Level \<Rightarrow> 't \<Rightarrow> string \<Rightarrow> u32 \<Rightarrow> string \<Rightarrow> string option" where
  "format_rfc3164 fmt level timestamp tag pid msg =
     (let pri = FACILITY_DAEMON * 8 + severity level in
      Option.bind (fmt timestamp) (\<lambda>ts.
        Some (''<'' @ show_nat (unat pri) @ ''>'' @ ts @ '' '' @ tag @ ''['' @ show_nat (unat pid) @ '']: '' @ msg)))"

section \<open>The connection\<close>

text \<open>\<open>UnixDatagram\<close> is the number of the socket; an error of a send is \<open>WouldBlock\<close> or another one.\<close>

datatype send_status = Sent | WouldBlock | SendError

record syslog_env =
  se_unbound :: "nat \<Rightarrow> nat option"
  se_connect :: "nat \<Rightarrow> nat \<Rightarrow> string \<Rightarrow> bool"
  se_set_nonblocking :: "nat \<Rightarrow> nat \<Rightarrow> bool"
  se_send :: "nat \<Rightarrow> nat \<Rightarrow> string \<Rightarrow> send_status"

record Connection =
  sc_path :: string
  sc_socket :: "nat option"
  sc_min :: duration
  sc_max :: duration
  sc_backoff :: duration
  sc_next_attempt :: instant

text \<open>\<open>open\<close>: the calls of moment \<open>n\<close>; the first that fails is the error.\<close>

definition open_socket :: "syslog_env \<Rightarrow> nat \<Rightarrow> string \<Rightarrow> nat option" where
  "open_socket env n path =
     Option.bind (se_unbound env n) (\<lambda>socket.
       if se_connect env n socket path then
         (if se_set_nonblocking env n socket then Some socket else None)
       else None)"

text \<open>The failure branch of \<open>try_connect\<close>; \<open>None\<close> is the panic of \<open>Duration * 2\<close>.\<close>

definition connect_failed :: "instant \<Rightarrow> Connection \<Rightarrow> Connection option" where
  "connect_failed now c =
     map_option (\<lambda>doubled. c\<lparr>sc_next_attempt := now + sc_backoff c, sc_backoff := min doubled (sc_max c)\<rparr>)
       (dur_mul (sc_backoff c) 2)"

definition try_connect :: "syslog_env \<Rightarrow> nat \<Rightarrow> instant \<Rightarrow> Connection \<Rightarrow> Connection option" where
  "try_connect env n now c =
     (case open_socket env n (sc_path c) of
        Some socket \<Rightarrow> Some (c\<lparr>sc_socket := Some socket, sc_backoff := sc_min c\<rparr>)
      | None \<Rightarrow> connect_failed now c)"

definition Connection_new ::
  "syslog_env \<Rightarrow> nat \<Rightarrow> instant \<Rightarrow> instant \<Rightarrow> string \<Rightarrow> duration \<Rightarrow> duration \<Rightarrow> Connection option" where
  "Connection_new env n now now' path lo hi =
     try_connect env n now' \<lparr>sc_path = path, sc_socket = None, sc_min = lo, sc_max = hi, sc_backoff = lo,
       sc_next_attempt = now\<rparr>"

definition conn_socket :: "syslog_env \<Rightarrow> nat \<Rightarrow> instant \<Rightarrow> Connection \<Rightarrow> Connection option" where
  "conn_socket env n now c =
     (if sc_socket c = None \<and> sc_next_attempt c \<le> now then try_connect env n now c else Some c)"

definition disconnect :: "instant \<Rightarrow> Connection \<Rightarrow> Connection" where
  "disconnect now c = c\<lparr>sc_socket := None, sc_backoff := sc_min c, sc_next_attempt := now + sc_min c\<rparr>"

interpretation sb: backoff sc_backoff "connect_failed now" "disconnect now" sc_min sc_max
  by unfold_locales (auto simp: connect_failed_def disconnect_def dur_mul_def split: if_splits)

section \<open>Writing a message\<close>

datatype log_out = ToSocket nat string | ToFallback string

record 't SyslogLayer =
  sl_tag :: string
  sl_pid :: u32
  sl_fmt :: "'t \<Rightarrow> string option"
  sl_conn :: Connection

definition DEFAULT_SOCKET_PATH :: string where "DEFAULT_SOCKET_PATH = ''/dev/log''"
definition RETRY_MIN :: duration where "RETRY_MIN = dur_from_secs 1"
definition RETRY_MAX :: duration where "RETRY_MAX = dur_from_secs 30"

text \<open>The two clock readings are those of \<open>Connection::new\<close>; the process id is a parameter.\<close>

definition SyslogLayer_with_options ::
  "syslog_env \<Rightarrow> nat \<Rightarrow> instant \<Rightarrow> instant \<Rightarrow> ('t \<Rightarrow> string option) \<Rightarrow> u32
     \<Rightarrow> string \<Rightarrow> string \<Rightarrow> duration \<Rightarrow> duration \<Rightarrow> 't SyslogLayer option" where
  "SyslogLayer_with_options env n now now' fmt pid tag path retry_min retry_max =
     map_option (\<lambda>c. \<lparr>sl_tag = tag, sl_pid = pid, sl_fmt = fmt, sl_conn = c\<rparr>)
       (Connection_new env n now now' path retry_min retry_max)"

definition SyslogLayer_new ::
  "syslog_env \<Rightarrow> nat \<Rightarrow> instant \<Rightarrow> instant \<Rightarrow> ('t \<Rightarrow> string option) \<Rightarrow> u32 \<Rightarrow> string \<Rightarrow> 't SyslogLayer option" where
  "SyslogLayer_new env n now now' fmt pid tag =
     SyslogLayer_with_options env n now now' fmt pid tag DEFAULT_SOCKET_PATH RETRY_MIN RETRY_MAX"

primrec show_level :: "Level \<Rightarrow> string" where
  "show_level ERROR = ''ERROR''"
| "show_level WARN = ''WARN''"
| "show_level INFO = ''INFO''"
| "show_level DEBUG = ''DEBUG''"
| "show_level TRACE = ''TRACE''"

text \<open>\<open>{level:>5}\<close>.\<close>

definition pad_left :: "nat \<Rightarrow> string \<Rightarrow> string" where
  "pad_left n s = replicate (n - length s) CHR '' '' @ s"

definition fallback_line :: "Level \<Rightarrow> string \<Rightarrow> string" where
  "fallback_line level msg = pad_left 5 (show_level level) @ '' '' @ msg @ [newline]"

text \<open>\<open>ToFallback\<close> is the attempt to write the line: the source discards the result of the write.\<close>

definition emit_message ::
  "syslog_env \<Rightarrow> nat \<Rightarrow> instant \<Rightarrow> 't \<Rightarrow> 't SyslogLayer \<Rightarrow> Level \<Rightarrow> string
     \<Rightarrow> ('t SyslogLayer \<times> log_out list) option" where
  "emit_message env n now utc l level msg =
     Option.bind (conn_socket env n now (sl_conn l)) (\<lambda>c.
       case sc_socket c of
         None \<Rightarrow> Some (l\<lparr>sl_conn := c\<rparr>, [ToFallback (fallback_line level msg)])
       | Some socket \<Rightarrow>
           Option.bind (format_rfc3164 (sl_fmt l) level utc (sl_tag l) (sl_pid l) msg) (\<lambda>line.
             case se_send env n socket line of
               Sent \<Rightarrow> Some (l\<lparr>sl_conn := c\<rparr>, [ToSocket socket line])
             | WouldBlock \<Rightarrow> Some (l\<lparr>sl_conn := c\<rparr>, [ToFallback (fallback_line level msg)])
             | SendError \<Rightarrow> Some (l\<lparr>sl_conn := disconnect now c\<rparr>, [ToFallback (fallback_line level msg)])))"

section \<open>The text of events and spans\<close>

text \<open>A field with its value as the visitor gets it: a string, or anything with its \<open>Debug\<close> text.\<close>

datatype field_value = FieldStr string | FieldDebug string

definition separator :: "nat \<Rightarrow> string \<Rightarrow> string" where
  "separator start out = (if start < length out then out @ '' '' else out)"

definition field_text :: "string \<times> field_value \<Rightarrow> string" where
  "field_text = (\<lambda>(name, v). case v of
     FieldStr s \<Rightarrow> if name = ''message'' then s else name @ ''='' @ s
   | FieldDebug s \<Rightarrow> if name = ''message'' then s else name @ ''='' @ s)"

definition visit_field :: "nat \<Rightarrow> string \<Rightarrow> string \<times> field_value \<Rightarrow> string" where
  "visit_field start out fv = separator start out @ field_text fv"

text \<open>\<open>FieldVisitor::new(&mut out)\<close> and the visit of all fields.\<close>

definition visit_fields :: "string \<Rightarrow> (string \<times> field_value) list \<Rightarrow> string" where
  "visit_fields out fs = foldl (visit_field (length out)) out fs"

text \<open>A span with its stored fields; the span is known to the registry, so \<open>ctx.span\<close> finds it.\<close>

record span_data =
  sp_name :: string
  sp_fields :: "string option"

definition on_new_span :: "span_data \<Rightarrow> (string \<times> field_value) list \<Rightarrow> span_data" where
  "on_new_span sp attrs = sp\<lparr>sp_fields := Some (visit_fields [] attrs)\<rparr>"

definition on_record :: "span_data \<Rightarrow> (string \<times> field_value) list \<Rightarrow> span_data" where
  "on_record sp vals =
     (case sp_fields sp of None \<Rightarrow> sp | Some fs \<Rightarrow> sp\<lparr>sp_fields := Some (visit_fields fs vals)\<rparr>)"

definition span_prefix :: "string \<Rightarrow> span_data \<Rightarrow> string" where
  "span_prefix msg sp =
     msg @ sp_name sp @
       (case sp_fields sp of
          Some fs \<Rightarrow> if fs \<noteq> [] then ''{'' @ fs @ ''}'' else []
        | None \<Rightarrow> []) @ '': ''"

text \<open>\<open>scope\<close> holds the spans of the event from the root.\<close>

definition event_message :: "span_data list \<Rightarrow> (string \<times> field_value) list \<Rightarrow> string" where
  "event_message scope fs = visit_fields (foldl span_prefix [] scope) fs"

definition on_event ::
  "syslog_env \<Rightarrow> nat \<Rightarrow> instant \<Rightarrow> 't \<Rightarrow> 't SyslogLayer \<Rightarrow> Level \<Rightarrow> span_data list
     \<Rightarrow> (string \<times> field_value) list \<Rightarrow> ('t SyslogLayer \<times> log_out list) option" where
  "on_event env n now utc l level scope fs = emit_message env n now utc l level (event_message scope fs)"

text \<open>
  \<open>SyslogLayer::new(..).with_filter(level)\<close> in \<open>main\<close>: the layer sees the events up to the level of
  the filter; \<open>None\<close> is the filter \<open>off\<close>.
\<close>

type_synonym LevelFilter = "Level option"

definition level_enabled :: "LevelFilter \<Rightarrow> Level \<Rightarrow> bool" where
  "level_enabled level l = (case level of None \<Rightarrow> False | Some most \<Rightarrow> l \<le> most)"

definition filtered_event ::
  "syslog_env \<Rightarrow> LevelFilter \<Rightarrow> nat \<Rightarrow> instant \<Rightarrow> 't \<Rightarrow> 't SyslogLayer \<Rightarrow> Level \<Rightarrow> span_data list
     \<Rightarrow> (string \<times> field_value) list \<Rightarrow> ('t SyslogLayer \<times> log_out list) option" where
  "filtered_event env filt n now utc l level scope fs =
     (if level_enabled filt level then on_event env n now utc l level scope fs else Some (l, []))"

section \<open>The state of the connection\<close>

definition conn_ok :: "Connection \<Rightarrow> bool" where
  "conn_ok c \<longleftrightarrow> sb.bounded c \<and> 2 * sc_max c \<le> dur_max"

lemma connect_failed_ok:
  assumes "conn_ok c"
  shows "\<exists>c'. connect_failed now c = Some c' \<and> conn_ok c' \<and> sc_socket c' = sc_socket c \<and>
    sc_next_attempt c' = now + sc_backoff c \<and> sc_min c' = sc_min c \<and> sc_max c' = sc_max c"
proof -
  obtain c' where c': "connect_failed now c = Some c'"
    using sb.fail_total [of c] assms by (auto simp: conn_ok_def)
  moreover have "conn_ok c'"
    using sb.bounded_fail [OF _ c'] sb.fail_hi [OF c'] assms by (simp add: conn_ok_def)
  ultimately show ?thesis by (auto simp: connect_failed_def)
qed

lemma disconnect_ok: "conn_ok c \<Longrightarrow> conn_ok (disconnect now c)"
  by (auto simp: conn_ok_def sb.bounded_def disconnect_def)

lemma try_connect_ok:
  assumes "conn_ok c" and "sc_socket c = None"
  shows "\<exists>c'. try_connect env n now c = Some c' \<and> conn_ok c' \<and>
    sc_min c' = sc_min c \<and> sc_max c' = sc_max c \<and> sc_socket c' = open_socket env n (sc_path c) \<and>
    (sc_socket c' = None \<longrightarrow> sc_next_attempt c' = now + sc_backoff c)"
proof (cases "open_socket env n (sc_path c)")
  case None
  with connect_failed_ok [OF assms(1), of now] assms(2) show ?thesis by (auto simp: try_connect_def)
next
  case (Some s)
  with assms(1) show ?thesis by (auto simp: try_connect_def conn_ok_def sb.bounded_def)
qed

lemma emit_message_total:
  assumes "conn_ok (sl_conn l)" and fmt: "\<And>t. sl_fmt l t \<noteq> None"
  shows "\<exists>l' out. emit_message env n now utc l level msg = Some (l', [out]) \<and> conn_ok (sl_conn l') \<and>
    sl_tag l' = sl_tag l \<and> sl_pid l' = sl_pid l \<and> sl_fmt l' = sl_fmt l \<and>
    (out = ToFallback (fallback_line level msg) \<or>
       (\<exists>s line. out = ToSocket s line \<and> format_rfc3164 (sl_fmt l) level utc (sl_tag l) (sl_pid l) msg = Some line \<and>
          se_send env n s line = Sent))"
proof -
  obtain c where c: "conn_socket env n now (sl_conn l) = Some c" "conn_ok c"
  proof (cases "sc_socket (sl_conn l) = None \<and> sc_next_attempt (sl_conn l) \<le> now")
    case True
    with try_connect_ok [OF assms(1), of env n now] that show ?thesis by (auto simp: conn_socket_def)
  next
    case False
    with assms(1) that show ?thesis by (auto simp: conn_socket_def)
  qed
  obtain line where line: "format_rfc3164 (sl_fmt l) level utc (sl_tag l) (sl_pid l) msg = Some line"
    using fmt [of utc] by (auto simp: format_rfc3164_def Let_def)
  show ?thesis
  proof (cases "sc_socket c")
    case None
    with c show ?thesis by (simp add: emit_message_def)
  next
    case (Some s)
    with c line disconnect_ok [OF c(2), of now] show ?thesis
      by (cases "se_send env n s line") (auto simp: emit_message_def)
  qed
qed

text \<open>Fields are separated by one blank.\<close>

lemma visit_fields_join:
  assumes "\<forall>f \<in> set fs. field_text f \<noteq> []"
  shows "visit_fields out fs = out @ join '' '' (map field_text fs)"
proof -
  have step: "foldl (visit_field k) (base @ x) fs = base @ x @ concat (map (\<lambda>f. '' '' @ field_text f) fs)"
    if "k = length base" "x \<noteq> []" for k base x and fs :: "(string \<times> field_value) list"
    using that
  proof (induction fs arbitrary: x)
    case (Cons f fs)
    have "visit_field k (base @ x) f = base @ (x @ '' '' @ field_text f)"
      using Cons.prems by (simp add: visit_field_def separator_def)
    then show ?case using Cons.IH [of "x @ '' '' @ field_text f"] Cons.prems by simp
  qed simp
  have join: "join '' '' (x # xs) = x @ concat (map (\<lambda>y. '' '' @ y) xs)" for x and xs :: "string list"
    by (induction xs arbitrary: x) simp_all
  show ?thesis
  proof (cases fs)
    case (Cons f fs')
    have "visit_field (length out) out f = out @ field_text f" by (simp add: visit_field_def separator_def)
    then show ?thesis
      using step [of "length out" out "field_text f" fs'] assms Cons
      by (simp add: visit_fields_def join comp_def del: join.simps)
  qed (simp add: visit_fields_def)
qed

lemma severity_bound: "unat (severity level) < 8"
  by (cases level) (simp_all add: severity_def)

lemma priority_value: "unat (FACILITY_DAEMON * 8 + severity level) = 24 + unat (severity level)"
  by (cases level) (simp_all add: severity_def FACILITY_DAEMON_def)

text \<open>
  How a syslog daemon reads a frame: the priority in angle brackets, the time in its 15 columns, the
  tag up to the bracket, the process id in it, and the message after the colon.
\<close>

definition is_digit :: "char \<Rightarrow> bool" where
  "is_digit c \<longleftrightarrow> 48 \<le> (of_char c :: nat) \<and> (of_char c :: nat) \<le> 57"

definition read_nat :: "string \<Rightarrow> nat" where
  "read_nat s = foldl (\<lambda>n c. 10 * n + (of_char c - 48)) 0 s"

definition parse_frame :: "string \<Rightarrow> nat \<times> nat \<times> string \<times> string \<times> nat \<times> string" where
  "parse_frame line =
     (let s1 = tl line; pri = read_nat (takeWhile is_digit s1); s2 = tl (dropWhile is_digit s1);
          s3 = drop 16 s2; s4 = tl (dropWhile (\<lambda>c. c \<noteq> CHR ''['') s3)
      in (pri div 8, pri mod 8, take 15 s2, takeWhile (\<lambda>c. c \<noteq> CHR ''['') s3,
          read_nat (takeWhile is_digit s4), drop 3 (dropWhile is_digit s4)))"

lemma digit_char: "n < 10 \<Longrightarrow> (of_char (char_of (48 + n) :: char) :: nat) = 48 + n"
  by simp

lemma digits_digits: "c \<in> set (digits n) \<Longrightarrow> is_digit c"
proof (induction n rule: digits.induct)
  case (1 n)
  have "is_digit (char_of (48 + m))" if "m < 10" for m :: nat
    using digit_char [OF that] that unfolding is_digit_def by (simp only:) simp
  with 1 show ?case
    by (cases "n < 10") (auto simp: digits.simps [of n])
qed

lemma read_digits: "read_nat (digits n) = n"
proof (induction n rule: digits.induct)
  case (1 n)
  show ?case
  proof (cases "n < 10")
    case True
    then show ?thesis using digit_char [OF True] by (simp add: digits.simps [of n] read_nat_def)
  next
    case False
    have "read_nat (digits n) = 10 * read_nat (digits (n div 10)) + (of_char (char_of (48 + n mod 10) :: char) - 48)"
      using False by (subst digits.simps) (simp only: if_False read_nat_def foldl_append foldl.simps)
    also have "\<dots> = 10 * (n div 10) + n mod 10"
      using 1 [OF False] digit_char [of "n mod 10"] by simp
    finally show ?thesis by simp
  qed
qed

lemma digits_span:
  assumes "\<not> is_digit c"
  shows "takeWhile is_digit (show_nat n @ c # rest) = show_nat n"
    and "dropWhile is_digit (show_nat n @ c # rest) = c # rest"
  using digits_digits [of _ n] assms by (simp_all add: show_nat_def takeWhile_append2 dropWhile_append2)

lemma tag_span:
  assumes "CHR ''['' \<notin> set tag"
  shows "takeWhile (\<lambda>c. c \<noteq> CHR ''['') (tag @ CHR ''['' # rest) = tag"
    and "dropWhile (\<lambda>c. c \<noteq> CHR ''['') (tag @ CHR ''['' # rest) = CHR ''['' # rest"
proof -
  have "\<And>c. c \<in> set tag \<Longrightarrow> c \<noteq> CHR ''[''" using assms by auto
  then show "takeWhile (\<lambda>c. c \<noteq> CHR ''['') (tag @ CHR ''['' # rest) = tag"
    and "dropWhile (\<lambda>c. c \<noteq> CHR ''['') (tag @ CHR ''['' # rest) = CHR ''['' # rest"
    by (simp_all add: takeWhile_append2 dropWhile_append2)
qed

lemma parse_frame_cat:
  assumes "length ts = 15" and "CHR ''['' \<notin> set tag"
  shows "parse_frame (CHR ''<'' # show_nat pri @ CHR ''>'' # ts @ CHR '' '' # tag @ CHR ''['' # show_nat pid @
      CHR '']'' # CHR '':'' # CHR '' '' # msg) = (pri div 8, pri mod 8, ts, tag, pid, msg)"
proof -
  have nd: "\<not> is_digit CHR ''>''" "\<not> is_digit CHR '']''" by (simp_all add: is_digit_def)
  have ts: "take 15 (ts @ CHR '' '' # xs) = ts" "drop 16 (ts @ CHR '' '' # xs) = xs" for xs
    using assms(1) by simp_all
  have rd: "read_nat (show_nat n) = n" for n by (simp add: show_nat_def read_digits)
  show ?thesis
    unfolding parse_frame_def Let_def list.sel digits_span [OF nd(1)] ts tag_span [OF assms(2)]
      digits_span [OF nd(2)] rd by simp
qed

text \<open>The layer of the gateway starts in a good state and keeps it, so its messages are never lost.\<close>

lemma SyslogLayer_new_ok:
  "\<exists>l. SyslogLayer_new env n now now' fmt pid tag = Some l \<and> conn_ok (sl_conn l) \<and> sl_fmt l = fmt \<and>
     sl_tag l = tag \<and> sl_pid l = pid"
proof -
  let ?c = "\<lparr>sc_path = DEFAULT_SOCKET_PATH, sc_socket = None, sc_min = RETRY_MIN, sc_max = RETRY_MAX,
    sc_backoff = RETRY_MIN, sc_next_attempt = now\<rparr>"
  have "conn_ok ?c"
    by (simp add: conn_ok_def sb.bounded_def RETRY_MIN_def RETRY_MAX_def dur_from_secs_def dur_max_def nanos_per_sec_def)
  from try_connect_ok [OF this, of env n now'] show ?thesis
    by (auto simp: SyslogLayer_new_def SyslogLayer_with_options_def Connection_new_def)
qed

section \<open>Properties\<close>

text \<open>A sequence of events, each with its moment, the clock readings, its level, its spans and its fields.\<close>

type_synonym 't event = "nat \<times> instant \<times> 't \<times> Level \<times> span_data list \<times> (string \<times> field_value) list"

primrec log_events ::
  "syslog_env \<Rightarrow> LevelFilter \<Rightarrow> 't SyslogLayer \<Rightarrow> 't event list \<Rightarrow> ('t SyslogLayer \<times> log_out list) option" where
  "log_events env filt l [] = Some (l, [])"
| "log_events env filt l (e # es) =
     (case e of (n, now, utc, level, scope, fs) \<Rightarrow>
        Option.bind (filtered_event env filt n now utc l level scope fs) (\<lambda>(l', out).
        Option.bind (log_events env filt l' es) (\<lambda>(l'', outs). Some (l'', out @ outs))))"

definition event_level :: "'t event \<Rightarrow> Level" where
  "event_level e = (case e of (n, now, utc, level, scope, fs) \<Rightarrow> level)"

definition written :: "syslog_env \<Rightarrow> ('t \<Rightarrow> string option) \<Rightarrow> string \<Rightarrow> u32 \<Rightarrow> 't event \<Rightarrow> log_out \<Rightarrow> bool" where
  "written env fmt tag pid = (\<lambda>(n, now, utc, level, scope, fs) out.
     out = ToFallback (fallback_line level (event_message scope fs)) \<or>
     (\<exists>socket line. out = ToSocket socket line \<and> se_send env n socket line = Sent \<and>
        format_rfc3164 fmt level utc tag pid (event_message scope fs) = Some line))"

lemma log_events_written:
  "conn_ok (sl_conn l) \<Longrightarrow> (\<And>t. sl_fmt l t \<noteq> None) \<Longrightarrow>
     \<exists>l' outs. log_events env filt l es = Some (l', outs) \<and>
       list_all2 (written env (sl_fmt l) (sl_tag l) (sl_pid l)) (filter (\<lambda>e. level_enabled filt (event_level e)) es) outs"
proof (induction es arbitrary: l)
  case (Cons e es)
  obtain n now utc level scope fs where e: "e = (n, now, utc, level, scope, fs)" by (cases e)
  show ?case
  proof (cases "level_enabled filt level")
    case True
    from emit_message_total [OF Cons.prems, of env n now utc level "event_message scope fs"] obtain l1 out where
      l1: "emit_message env n now utc l level (event_message scope fs) = Some (l1, [out])" "conn_ok (sl_conn l1)"
        "sl_tag l1 = sl_tag l" "sl_pid l1 = sl_pid l" "sl_fmt l1 = sl_fmt l"
      and out: "written env (sl_fmt l) (sl_tag l) (sl_pid l) e out"
      unfolding written_def e by auto
    from Cons.IH [OF l1(2)] Cons.prems(2) obtain l' outs where
      "log_events env filt l1 es = Some (l', outs)"
      "list_all2 (written env (sl_fmt l) (sl_tag l) (sl_pid l)) (filter (\<lambda>e. level_enabled filt (event_level e)) es) outs"
      unfolding l1(3-5) by blast
    with l1(1) out True show ?thesis by (simp add: e filtered_event_def on_event_def event_level_def)
  next
    case False
    with Cons.IH [OF Cons.prems] show ?thesis
      by (auto simp: e filtered_event_def event_level_def)
  qed
qed simp

text \<open>C20: Every event that passes the filter is written exactly once, in order, and no other event is: either
its complete frame was accepted by the socket, or its plain line went to the fallback. A socket that
fails, is full or is missing never blocks, loses or duplicates a message, and the layer never panics.\<close>

theorem messages_written_once:
  assumes "\<And>t. fmt t \<noteq> None"
  shows "\<exists>l l' outs. SyslogLayer_new env n now now' fmt pid tag = Some l \<and> log_events env filt l es = Some (l', outs) \<and>
    list_all2 (written env fmt tag pid) (filter (\<lambda>e. level_enabled filt (event_level e)) es) outs"
proof -
  from SyslogLayer_new_ok [of env n now now' fmt pid tag] obtain l where
    l: "SyslogLayer_new env n now now' fmt pid tag = Some l" "conn_ok (sl_conn l)" "sl_fmt l = fmt" "sl_tag l = tag" "sl_pid l = pid"
    by blast
  with log_events_written [OF l(2), of env filt es] assms show ?thesis by auto
qed

definition ex_syslog_env :: syslog_env where
  "ex_syslog_env = \<lparr>se_unbound = (\<lambda>n. Some 4), se_connect = (\<lambda>n s path. 2 < n), se_set_nonblocking = (\<lambda>n s. True),
     se_send = (\<lambda>n s line. if n < 5 then Sent else SendError)\<rparr>"

definition ex_layer :: "nat SyslogLayer" where
  "ex_layer = \<lparr>sl_tag = ''gw1'', sl_pid = 42, sl_fmt = (\<lambda>t. Some ''Jan  2 03:04:05''),
     sl_conn = \<lparr>sc_path = ''/dev/log'', sc_socket = None, sc_min = 1, sc_max = 30, sc_backoff = 4, sc_next_attempt = 10\<rparr>\<rparr>"

lemma ex_layer_ok: "conn_ok (sl_conn ex_layer)"
  by (simp add: conn_ok_def sb.bounded_def ex_layer_def dur_max_def nanos_per_sec_def)

theorem messages_written_once_witness:
  "\<exists>l l' outs. SyslogLayer_new ex_syslog_env 0 0 0 (\<lambda>t. Some ''Jan  2 03:04:05'') 42 ''gw1'' = Some l \<and>
     log_events ex_syslog_env (Some INFO) l [(1, 5, 0 :: nat, INFO, [], [(''message'', FieldStr ''a'')]),
       (2, 6, 0, DEBUG, [], [(''message'', FieldStr ''b'')]),
       (4, dur_from_secs 9, 0, WARN, [], [(''message'', FieldStr ''c'')])] = Some (l', outs) \<and> length outs = 2"
proof -
  let ?es = "[(1, 5, 0 :: nat, INFO, [], [(''message'', FieldStr ''a'')]), (2, 6, 0, DEBUG, [], [(''message'', FieldStr ''b'')]),
    (4, dur_from_secs 9, 0, WARN, [], [(''message'', FieldStr ''c'')])] :: nat event list"
  have "length (filter (\<lambda>e. level_enabled (Some INFO) (event_level e)) ?es) = 2"
    by (simp add: level_enabled_def event_level_def less_eq_Level_def)
  with messages_written_once [of "\<lambda>t :: nat. Some ''Jan  2 03:04:05''" ex_syslog_env 0 0 0 42 "''gw1''" "Some INFO" ?es]
  show ?thesis by (fastforce dest: list_all2_lengthD)
qed

text \<open>C36: A lost syslog daemon is found again: while the socket is gone no attempt to connect is made before
the delay has passed, the first message after it tries again, and if the daemon is back that very
message goes to it; a failed attempt moves the next one by the current delay, at most the maximum.\<close>

theorem reconnect_after_delay:
  assumes "conn_ok c" and "sc_socket c = None"
  shows "(now < sc_next_attempt c \<longrightarrow> conn_socket env n now c = Some c) \<and>
    (sc_next_attempt c \<le> now \<longrightarrow> (\<exists>c'. conn_socket env n now c = Some c' \<and>
       sc_socket c' = open_socket env n (sc_path c) \<and>
       (sc_socket c' = None \<longrightarrow> sc_next_attempt c' = now + sc_backoff c \<and>
          now + sc_min c \<le> sc_next_attempt c' \<and> sc_next_attempt c' \<le> now + sc_max c)))"
proof -
  from try_connect_ok [OF assms, of env n now] obtain c' where c': "try_connect env n now c = Some c'"
    "sc_socket c' = open_socket env n (sc_path c)"
    "sc_socket c' = None \<longrightarrow> sc_next_attempt c' = now + sc_backoff c" by (elim exE conjE)
  moreover have "sc_min c \<le> sc_backoff c" "sc_backoff c \<le> sc_max c"
    using assms(1) by (simp_all add: conn_ok_def sb.bounded_def)
  ultimately show ?thesis
    using assms(2) by (simp add: conn_socket_def)
qed

theorem reconnect_after_delay_witness:
  "\<exists>c'. conn_socket ex_syslog_env 3 10 (sl_conn ex_layer) = Some c' \<and> sc_socket c' = Some 4"
  using reconnect_after_delay [OF ex_layer_ok, of 10 ex_syslog_env 3]
  by (auto simp: ex_layer_def open_socket_def ex_syslog_env_def)

text \<open>C35: A frame can be read back: a daemon that parses it by the columns of RFC 3164 gets the facility
\<open>daemon\<close> (3), the severity of the level, the time, the tag, the process id and the complete message,
whatever the message contains, as long as the tag has no bracket.\<close>

theorem frame_roundtrip:
  assumes "fmt timestamp = Some ts" and "length ts = 15" and "CHR ''['' \<notin> set tag"
  shows "\<exists>line. format_rfc3164 fmt level timestamp tag pid msg = Some line \<and>
    parse_frame line = (3, unat (severity level), ts, tag, unat pid, msg)"
proof -
  have line: "format_rfc3164 fmt level timestamp tag pid msg = Some (CHR ''<'' # show_nat (24 + unat (severity level)) @
      CHR ''>'' # ts @ CHR '' '' # tag @ CHR ''['' # show_nat (unat pid) @ CHR '']'' # CHR '':'' # CHR '' '' # msg)"
    unfolding format_rfc3164_def Let_def priority_value assms(1) by simp
  have "(24 + unat (severity level)) div 8 = 3" "(24 + unat (severity level)) mod 8 = unat (severity level)"
    using severity_bound [of level] by presburger+
  with line parse_frame_cat [OF assms(2,3)] show ?thesis by simp
qed

theorem frame_roundtrip_witness:
  "\<exists>line. format_rfc3164 (\<lambda>t. Some ''Jan  2 03:04:05'') ERROR (0 :: nat) ''gw1'' 42 ''<7>]: down'' = Some line \<and>
     parse_frame line = (3, 3, ''Jan  2 03:04:05'', ''gw1'', 42, ''<7>]: down'')"
  using frame_roundtrip [of "\<lambda>t. Some ''Jan  2 03:04:05''" "0 :: nat" "''Jan  2 03:04:05''" "''gw1''" ERROR 42 "''<7>]: down''"]
  by (simp add: severity_def)

text \<open>The text of a group of fields, and what a span that was created with the fields \<open>attrs\<close> and
recorded the groups \<open>recs\<close> later puts before a message.\<close>

definition fields_text :: "(string \<times> field_value) list \<Rightarrow> string" where
  "fields_text fs = join '' '' (map field_text fs)"

definition stored_text :: "(string \<times> field_value) list \<Rightarrow> (string \<times> field_value) list list \<Rightarrow> string" where
  "stored_text attrs recs = fields_text attrs @ concat (map fields_text recs)"

definition span_after ::
  "string \<times> (string \<times> field_value) list \<times> (string \<times> field_value) list list \<Rightarrow> span_data" where
  "span_after = (\<lambda>(name, attrs, recs).
     foldl on_record (on_new_span \<lparr>sp_name = name, sp_fields = None\<rparr> attrs) recs)"

definition texts_ok :: "(string \<times> field_value) list \<Rightarrow> bool" where
  "texts_ok fs \<longleftrightarrow> (\<forall>f \<in> set fs. field_text f \<noteq> [])"

lemma visit_fields_text: "texts_ok fs \<Longrightarrow> visit_fields out fs = out @ fields_text fs"
  unfolding texts_ok_def fields_text_def by (rule visit_fields_join)

lemma recorded_text:
  "list_all texts_ok recs \<Longrightarrow> foldl on_record \<lparr>sp_name = name, sp_fields = Some t\<rparr> recs =
     \<lparr>sp_name = name, sp_fields = Some (t @ concat (map fields_text recs))\<rparr>"
  by (induction recs arbitrary: t) (simp_all add: on_record_def visit_fields_text)

lemma span_after_text:
  assumes "texts_ok attrs" and "list_all texts_ok recs"
  shows "span_after (name, attrs, recs) = \<lparr>sp_name = name, sp_fields = Some (stored_text attrs recs)\<rparr>"
  using recorded_text [OF assms(2)] by (simp add: span_after_def on_new_span_def visit_fields_text [OF assms(1)] stored_text_def)

lemma span_prefixes: "foldl span_prefix out scope = out @ concat (map (span_prefix []) scope)"
  by (induction scope arbitrary: out) (simp_all add: span_prefix_def)

text \<open>C39: The text of an event, from the life of its spans: for each span from the root its name, then in
braces the fields it was created with and those recorded later, if there are any, then the fields of
the event. The fields of one call are separated by single blanks; but the fields of a later record
follow the stored ones without one, so the last stored value and the first new key run together.\<close>

theorem event_text:
  assumes "\<forall>(name, attrs, recs) \<in> set spans. texts_ok attrs \<and> list_all texts_ok recs" and "texts_ok fs"
  shows "event_message (map span_after spans) fs =
    concat (map (\<lambda>(name, attrs, recs).
      name @ (if stored_text attrs recs = [] then [] else ''{'' @ stored_text attrs recs @ ''}'') @ '': '') spans) @
    fields_text fs"
proof -
  have "map (span_prefix [] \<circ> span_after) spans = map (\<lambda>(name, attrs, recs).
      name @ (if stored_text attrs recs = [] then [] else ''{'' @ stored_text attrs recs @ ''}'') @ '': '') spans"
    using assms(1) by (auto simp: span_after_text span_prefix_def)
  then show ?thesis
    by (simp only: event_message_def span_prefixes visit_fields_text [OF assms(2)] map_map append_Nil)
qed

theorem event_text_witness:
  "event_message (map span_after [(''gateway'', [], []), (''conn'', [(''a'', FieldDebug ''1'')], [[(''b'', FieldDebug ''2'')]])])
     [(''message'', FieldDebug ''up''), (''port'', FieldDebug ''502'')] = ''gateway: conn{a=1b=2}: up port=502''"
  by (subst event_text) (simp_all add: texts_ok_def field_text_def fields_text_def stored_text_def)

end
