(* ===== verification/Gateway.thy ===== *)
theory Gateway
  imports Validate Aggregator Poller Supervisor Mqtt
begin

text \<open>
  \<open>src/lib.rs\<close> and \<open>src/main.rs\<close>: what starts and stops the tasks, as a trace of actions. How the wait
  for the shutdown ends, whether the tasks drain in time and what the environment answers are
  parameters; the tasks themselves are the other theories.
\<close>

section \<open>Running the gateway\<close>

definition READING_CHANNEL_CAPACITY :: nat where "READING_CHANNEL_CAPACITY = 1024"
definition BATCH_CHANNEL_CAPACITY :: nat where "BATCH_CHANNEL_CAPACITY = 64"
definition SHUTDOWN_GRACE :: duration where "SHUTDOWN_GRACE = dur_from_secs 2"
definition STATUS_FLUSH_TIMEOUT :: duration where "STATUS_FLUSH_TIMEOUT = dur_from_secs 1"

datatype RunError = MqttSetup MqttSetupError | TaskExited string

text \<open>How a joined publisher ended: with its own result, or not at all (a panic or an abort).\<close>

datatype publisher_join = PublisherDone "MqttSetupError + unit" | PublisherLost

definition publisher_exit :: "publisher_join \<Rightarrow> RunError" where
  "publisher_exit res =
     (case res of
        PublisherDone (Inl e) \<Rightarrow> MqttSetup e
      | _ \<Rightarrow> TaskExited ''mqtt publisher'')"

datatype select_result = ShutdownRequested | PublisherExited publisher_join | AggregatorExited

text \<open>A UTC time is the number of nanoseconds since the epoch.\<close>

type_synonym utc_time = int

datatype gw_action =
    StartStatusWriter nat "utc_time StatusState" string duration duration
  | StartPublisher nat MqttOptions MqttConfig GatewayConfig
  | StartAggregator nat agg_map u64 duration
  | StartPoller string Backoff ConnectionConfig
  | DropReadingSender
  | DropStatusReporter
  | LogStarted string nat
  | StopPollers
  | AbortAggregator
  | AbortPublisher
  | LogPollingStopped
  | DrainTasks duration
  | WarnNotDrained
  | AwaitPublisher
  | AwaitStatusWriter duration
  | WarnStatusWriter
  | LogShutdownComplete

text \<open>\<open>re_now_unix\<close> is \<open>SystemTime::now().duration_since(UNIX_EPOCH)\<close>, \<open>None\<close> before the epoch.\<close>

record run_env =
  re_mqtt :: mqtt_env
  re_now_unix :: "duration option"
  re_select :: select_result
  re_drained :: bool
  re_status_written :: bool

definition start_poller :: "ConnectionConfig \<Rightarrow> gw_action" where
  "start_poller conn =
     StartPoller (cn_id conn)
       (Backoff_new (dur_from_secs (cn_reconnect_backoff_min_secs conn))
          (dur_from_secs (cn_reconnect_backoff_max_secs conn))) conn"

definition startup :: "run_env \<Rightarrow> Config \<Rightarrow> MqttOptions \<Rightarrow> gw_action list" where
  "startup env config options =
     [StartStatusWriter STATUS_CHANNEL_CAPACITY (StatusState_from_config config)
        (gw_status_file_path (cf_gateway config))
        (dur_from_secs (gw_status_debounce_secs (cf_gateway config)))
        (dur_from_secs (gw_status_heartbeat_secs (cf_gateway config))),
      StartPublisher BATCH_CHANNEL_CAPACITY options (cf_mqtt config) (cf_gateway config),
      StartAggregator READING_CHANNEL_CAPACITY (init_from_config config)
        (gw_aggregation_window_secs (cf_gateway config))
        (case re_now_unix env of Some d \<Rightarrow> d | None \<Rightarrow> 0)] @
     map start_poller (cf_connections config) @
     [DropReadingSender, DropStatusReporter, LogStarted (gw_id (cf_gateway config)) (length (cf_connections config))]"

text \<open>From the end of the wait to the return.\<close>

definition wind_down :: "run_env \<Rightarrow> (RunError + unit) \<times> gw_action list" where
  "wind_down env =
     (let failure = (case re_select env of
            ShutdownRequested \<Rightarrow> None
          | PublisherExited res \<Rightarrow> Some (publisher_exit res)
          | AggregatorExited \<Rightarrow> Some (TaskExited ''aggregator''))
      in case failure of
           Some err \<Rightarrow> (Inl err, [StopPollers, AbortAggregator, AbortPublisher])
         | None \<Rightarrow>
             (Inr (),
              [StopPollers, LogPollingStopped, DrainTasks SHUTDOWN_GRACE] @
              (if re_drained env then [] else [WarnNotDrained, AbortAggregator, AbortPublisher, AwaitPublisher]) @
              [AwaitStatusWriter STATUS_FLUSH_TIMEOUT] @
              (if re_status_written env then [] else [WarnStatusWriter]) @
              [LogShutdownComplete]))"

text \<open>\<open>run\<close>; \<open>None\<close> is the panic of the client library for an empty client id, before any task is started.\<close>

definition run_gateway :: "run_env \<Rightarrow> Config \<Rightarrow> (RunError + unit) option \<times> gw_action list" where
  "run_gateway env config =
     (case read_password (re_mqtt env) (cf_mqtt config) of
        Inl e \<Rightarrow> (Some (Inl (MqttSetup e)), [])
      | Inr password \<Rightarrow>
          (case build_mqtt_options (re_mqtt env) (cf_mqtt config) (gw_id (cf_gateway config)) password of
             None \<Rightarrow> (None, [])
           | Some (Inl e) \<Rightarrow> (Some (Inl (MqttSetup e)), [])
           | Some (Inr options) \<Rightarrow>
               (case qos (re_mqtt env) (mq_qos (cf_mqtt config)) of
                  Inl e \<Rightarrow> (Some (Inl (MqttSetup e)), [])
                | Inr _ \<Rightarrow> (case wind_down env of (res, out) \<Rightarrow> (Some res, startup env config options @ out)))))"

section \<open>The program\<close>

definition DEFAULT_CONFIG_PATH :: string where
  "DEFAULT_CONFIG_PATH = ''/etc/modbus-gateway/config.toml''"

datatype ExitCode = SUCCESS | FAILURE

text \<open>
  \<open>me_args\<close>: the command line; \<open>me_sigterm\<close>: whether the handler could be installed. Three calls of the
  libraries panic in an environment that does not let them work: \<open>tokio::main\<close> if the runtime cannot be
  built (\<open>me_runtime\<close>), \<open>eprintln!\<close> if standard error cannot be written (\<open>me_stderr\<close>) and \<open>init\<close> if a
  subscriber is already set (\<open>me_init\<close>).
\<close>

record 'level main_env =
  me_runtime :: bool
  me_args :: "string list"
  me_config :: "'level config_env"
  me_stderr :: bool
  me_init :: bool
  me_sigterm :: bool
  me_run :: run_env

text \<open>The exit code, with \<open>None\<close> for a panic on the main task.\<close>

definition main_program :: "'level main_env \<Rightarrow> ExitCode option \<times> gw_action list" where
  "main_program env =
     (if \<not> me_runtime env then (None, [])
      else
      (let path = (case nth_opt (me_args env) 1 of Some p \<Rightarrow> p | None \<Rightarrow> DEFAULT_CONFIG_PATH) in
       case load (me_config env) path of
         Inl e \<Rightarrow> (if me_stderr env then Some FAILURE else None, [])
       | Inr config \<Rightarrow>
           (case ce_parse_level (me_config env) (gw_log_level (cf_gateway config)) of
              None \<Rightarrow> (None, [])
            | Some level \<Rightarrow>
                if \<not> me_init env then (None, [])
                else if \<not> me_sigterm env then (Some FAILURE, [])
                else (case run_gateway (me_run env) config of
                        (None, out) \<Rightarrow> (None, out)
                      | (Some (Inr _), out) \<Rightarrow> (Some SUCCESS, out)
                      | (Some (Inl e), out) \<Rightarrow> (Some FAILURE, out)))))"

section \<open>Lemmas\<close>

text \<open>What the setup needs: the password, an id for the session, the CA file for TLS, and a QoS level.\<close>

definition mqtt_ready :: "mqtt_env \<Rightarrow> MqttConfig \<Rightarrow> bool" where
  "mqtt_ready env cfg \<longleftrightarrow>
     me_env_var env (mq_password_env cfg) \<noteq> None \<and> mq_client_id cfg \<noteq> [] \<and>
     (mq_tls cfg \<longrightarrow> (\<exists>ca. me_read_file env (mq_ca_cert_path cfg) = Inr ca)) \<and>
     me_qos env (mq_qos cfg) \<noteq> None"

text \<open>The configuration file is the first argument, if there is one.\<close>

definition config_path :: "'level main_env \<Rightarrow> string" where
  "config_path env = (case me_args env of _ # p # _ \<Rightarrow> p | _ \<Rightarrow> DEFAULT_CONFIG_PATH)"

lemma run_gateway_ready:
  assumes "mqtt_ready (re_mqtt env) (cf_mqtt config)"
  obtains password options where "read_password (re_mqtt env) (cf_mqtt config) = Inr password"
    and "build_mqtt_options (re_mqtt env) (cf_mqtt config) (gw_id (cf_gateway config)) password = Some (Inr options)"
    and "run_gateway env config = (Some (fst (wind_down env)), startup env config options @ snd (wind_down env))"
proof -
  obtain password where p: "read_password (re_mqtt env) (cf_mqtt config) = Inr password"
    using assms by (auto simp: mqtt_ready_def read_password_def)
  obtain options where o: "build_mqtt_options (re_mqtt env) (cf_mqtt config) (gw_id (cf_gateway config)) password = Some (Inr options)"
    using assms by (cases "mq_tls (cf_mqtt config)") (auto simp: mqtt_ready_def build_mqtt_options_def Let_def)
  obtain q where "qos (re_mqtt env) (mq_qos (cf_mqtt config)) = Inr q"
    using assms by (auto simp: mqtt_ready_def qos_def)
  with p o have "run_gateway env config = (Some (fst (wind_down env)), startup env config options @ snd (wind_down env))"
    by (simp add: run_gateway_def split: prod.split)
  with p o show thesis by (rule that)
qed

lemma run_gateway_not_ready:
  assumes "\<not> mqtt_ready (re_mqtt env) (cf_mqtt config)"
  shows "snd (run_gateway env config) = [] \<and>
    (fst (run_gateway env config) = None \<longleftrightarrow>
      me_env_var (re_mqtt env) (mq_password_env (cf_mqtt config)) \<noteq> None \<and> mq_client_id (cf_mqtt config) = []) \<and>
    (fst (run_gateway env config) = None \<or> (\<exists>e. fst (run_gateway env config) = Some (Inl (MqttSetup e))))"
  using assms
  by (auto simp: mqtt_ready_def run_gateway_def read_password_def build_mqtt_options_def qos_def Let_def
      split: option.split sum.split)

definition starts_task :: "gw_action \<Rightarrow> bool" where
  "starts_task a = (case a of StartStatusWriter _ _ _ _ _ \<Rightarrow> True | StartPublisher _ _ _ _ \<Rightarrow> True
     | StartAggregator _ _ _ _ \<Rightarrow> True | StartPoller _ _ _ \<Rightarrow> True | _ \<Rightarrow> False)"

definition stops_task :: "gw_action \<Rightarrow> bool" where
  "stops_task a = (case a of StopPollers \<Rightarrow> True | AbortAggregator \<Rightarrow> True | AbortPublisher \<Rightarrow> True
     | DrainTasks _ \<Rightarrow> True | AwaitPublisher \<Rightarrow> True | AwaitStatusWriter _ \<Rightarrow> True | _ \<Rightarrow> False)"

text \<open>The tasks in the order in which they are started, and what is done to them at the end.\<close>

definition start_order :: "run_env \<Rightarrow> Config \<Rightarrow> MqttOptions \<Rightarrow> gw_action list" where
  "start_order env config options =
     [StartStatusWriter STATUS_CHANNEL_CAPACITY (StatusState_from_config config) (gw_status_file_path (cf_gateway config))
        (dur_from_secs (gw_status_debounce_secs (cf_gateway config)))
        (dur_from_secs (gw_status_heartbeat_secs (cf_gateway config))),
      StartPublisher BATCH_CHANNEL_CAPACITY options (cf_mqtt config) (cf_gateway config),
      StartAggregator READING_CHANNEL_CAPACITY (init_from_config config) (gw_aggregation_window_secs (cf_gateway config))
        (case re_now_unix env of Some d \<Rightarrow> d | None \<Rightarrow> 0)] @
     map (\<lambda>conn. StartPoller (cn_id conn) (Backoff_new (dur_from_secs (cn_reconnect_backoff_min_secs conn))
        (dur_from_secs (cn_reconnect_backoff_max_secs conn))) conn) (cf_connections config)"

definition stop_order :: "run_env \<Rightarrow> gw_action list" where
  "stop_order env =
     (if re_select env = ShutdownRequested
      then [StopPollers, DrainTasks SHUTDOWN_GRACE] @
        (if re_drained env then [] else [AbortAggregator, AbortPublisher, AwaitPublisher]) @
        [AwaitStatusWriter STATUS_FLUSH_TIMEOUT]
      else [StopPollers, AbortAggregator, AbortPublisher])"

lemma startup_order:
  "filter starts_task (startup env config options) = start_order env config options"
  "filter stops_task (startup env config options) = []"
proof -
  have "filter starts_task (map start_poller cs) = map start_poller cs" "filter stops_task (map start_poller cs) = []" for cs
    by (simp_all add: filter_id_conv filter_empty_conv starts_task_def stops_task_def start_poller_def)
  then show "filter starts_task (startup env config options) = start_order env config options"
    "filter stops_task (startup env config options) = []"
    by (simp_all add: startup_def start_order_def starts_task_def stops_task_def start_poller_def [abs_def])
qed

lemma wind_down_order:
  "filter stops_task (snd (wind_down env)) = stop_order env" "filter starts_task (snd (wind_down env)) = []"
  "fst (wind_down env) = (case re_select env of ShutdownRequested \<Rightarrow> Inr ()
     | PublisherExited res \<Rightarrow> Inl (publisher_exit res) | AggregatorExited \<Rightarrow> Inl (TaskExited ''aggregator''))"
  by (cases "re_select env"; simp add: wind_down_def Let_def stop_order_def stops_task_def starts_task_def)+

section \<open>Properties\<close>

definition ex_run_env :: run_env where
  "ex_run_env = \<lparr>re_mqtt = ex_mqtt_env, re_now_unix = Some (dur_from_secs 90), re_select = ShutdownRequested,
     re_drained = False, re_status_written = True\<rparr>"

definition ex_password_config :: Config where
  "ex_password_config = ex_config\<lparr>cf_mqtt := ex_mqtt\<lparr>mq_password_env := ''PW''\<rparr>\<rparr>"

text \<open>C21: The life of the gateway. If the password, the client id, the CA file or the QoS is missing, nothing
is started. Otherwise the status writer, the publisher and the aggregator are started, in this order and
with the configuration's values, and after them one supervised poller for each connection. Everything
that is stopped is stopped after that, and polling first. On a requested shutdown the queues are then given
the grace period, the aggregator and the publisher are aborted only when it has passed, and the status writer
is waited for last; the run ends with success. When a task fails the other two are aborted and the failure is
reported.\<close>

theorem gateway_lifecycle:
  assumes "run_gateway env config = (res, out)"
  shows "(\<not> mqtt_ready (re_mqtt env) (cf_mqtt config) \<and> out = [] \<and> (res = None \<or> (\<exists>e. res = Some (Inl (MqttSetup e))))) \<or>
    (\<exists>password options start stop. mqtt_ready (re_mqtt env) (cf_mqtt config) \<and>
       read_password (re_mqtt env) (cf_mqtt config) = Inr password \<and>
       build_mqtt_options (re_mqtt env) (cf_mqtt config) (gw_id (cf_gateway config)) password = Some (Inr options) \<and>
       out = start @ stop \<and>
       filter starts_task start = start_order env config options \<and> filter stops_task start = [] \<and>
       filter stops_task stop = stop_order env \<and> filter starts_task stop = [] \<and>
       res = Some (case re_select env of ShutdownRequested \<Rightarrow> Inr ()
         | PublisherExited ended \<Rightarrow> Inl (publisher_exit ended) | AggregatorExited \<Rightarrow> Inl (TaskExited ''aggregator'')))"
proof (cases "mqtt_ready (re_mqtt env) (cf_mqtt config)")
  case False
  with run_gateway_not_ready [OF False] assms show ?thesis by auto
next
  case True
  then obtain password options where r: "read_password (re_mqtt env) (cf_mqtt config) = Inr password"
    "build_mqtt_options (re_mqtt env) (cf_mqtt config) (gw_id (cf_gateway config)) password = Some (Inr options)"
    "run_gateway env config = (Some (fst (wind_down env)), startup env config options @ snd (wind_down env))"
    by (rule run_gateway_ready)
  with assms have "res = Some (fst (wind_down env))" "out = startup env config options @ snd (wind_down env)" by simp_all
  with True r(1,2) startup_order [of env config options] wind_down_order [of env] show ?thesis by metis
qed

theorem gateway_lifecycle_witness:
  "\<exists>out start stop options. run_gateway ex_run_env ex_password_config = (Some (Inr ()), out) \<and> out = start @ stop \<and>
     filter starts_task start = start_order ex_run_env ex_password_config options \<and>
     filter stops_task stop = [StopPollers, DrainTasks SHUTDOWN_GRACE, AbortAggregator, AbortPublisher, AwaitPublisher,
       AwaitStatusWriter STATUS_FLUSH_TIMEOUT]"
proof -
  obtain res out where run: "run_gateway ex_run_env ex_password_config = (res, out)" by fastforce
  have "mqtt_ready (re_mqtt ex_run_env) (cf_mqtt ex_password_config)"
    by (simp add: mqtt_ready_def ex_run_env_def ex_password_config_def ex_mqtt_env_def ex_mqtt_def)
  with gateway_lifecycle [OF run] run show ?thesis
    by (auto simp: ex_run_env_def stop_order_def)
qed

text \<open>C30: The program panics in four cases only: the runtime cannot be built; the configuration did not load
and standard error cannot be written; a subscriber is already set; or the configuration loaded, the signal
handler was installed, the password is there and the client id is empty, which the validation accepts.
It never panics on the log level. It exits with success exactly when the configuration loaded and is valid,
none of that happened, the setup had what it needs and the gateway ran to a requested shutdown.\<close>

theorem main_exit_code:
  "(fst (main_program env) = None \<longleftrightarrow>
     \<not> me_runtime env \<or>
     (\<exists>e. load (me_config env) (config_path env) = Inl e \<and> \<not> me_stderr env) \<or>
     (\<exists>config. load (me_config env) (config_path env) = Inr config \<and>
        (\<not> me_init env \<or> me_sigterm env \<and> me_env_var (re_mqtt (me_run env)) (mq_password_env (cf_mqtt config)) \<noteq> None \<and>
           mq_client_id (cf_mqtt config) = []))) \<and>
   (fst (main_program env) = Some SUCCESS \<longleftrightarrow>
     me_runtime env \<and> me_init env \<and> me_sigterm env \<and>
     (\<exists>config. load (me_config env) (config_path env) = Inr config \<and> valid_config (me_config env) config \<and>
        mqtt_ready (re_mqtt (me_run env)) (cf_mqtt config) \<and> re_select (me_run env) = ShutdownRequested))"
proof -
  have arg: "(case nth_opt (me_args env) 1 of Some p \<Rightarrow> p | None \<Rightarrow> DEFAULT_CONFIG_PATH) = config_path env"
    by (auto simp: nth_opt_def config_path_def split: list.split)
  note main = main_program_def [of env, unfolded arg Let_def]
  show ?thesis
  proof (cases "load (me_config env) (config_path env)")
    case (Inl e)
    then show ?thesis by (simp add: main)
  next
    case (Inr config)
    then have v: "valid_config (me_config env) config" by (rule load_Inr_D)
    then obtain level where level: "ce_parse_level (me_config env) (gw_log_level (cf_gateway config)) = Some level"
      by (auto simp: valid_config_def)
    have run: "fst (main_program env) =
        (if me_runtime env \<and> me_init env
         then if me_sigterm env then map_option (\<lambda>r. case r of Inr _ \<Rightarrow> SUCCESS | Inl _ \<Rightarrow> FAILURE) (fst (run_gateway (me_run env) config))
           else Some FAILURE
         else None)"
      by (simp add: main Inr level split: prod.split option.split sum.split)
    show ?thesis
    proof (cases "mqtt_ready (re_mqtt (me_run env)) (cf_mqtt config)")
      case True
      then have "fst (run_gateway (me_run env) config) = Some (fst (wind_down (me_run env)))"
        by (rule run_gateway_ready) simp
      moreover have "mq_client_id (cf_mqtt config) \<noteq> []" using True by (simp add: mqtt_ready_def)
      ultimately show ?thesis using True v
        by (cases "re_select (me_run env)") (auto simp: run Inr wind_down_order)
    next
      case False
      from run_gateway_not_ready [OF this] False v show ?thesis
        by (auto simp: run Inr)
    qed
  qed
qed

text \<open>The configuration of the example without a client id.\<close>

definition ex_main_env :: "unit main_env" where
  "ex_main_env = \<lparr>me_runtime = True, me_args = [''modbus-senml-gateway''],
     me_config = ex_env\<lparr>ce_read_text := \<lambda>_. Inr '''',
       ce_parse_toml := \<lambda>_. Inr (ex_password_config\<lparr>cf_mqtt := (cf_mqtt ex_password_config)\<lparr>mq_client_id := ''''\<rparr>\<rparr>)\<rparr>,
     me_stderr = True, me_init = True, me_sigterm = True, me_run = ex_run_env\<rparr>"

theorem main_exit_code_witness: "fst (main_program ex_main_env) = None"
proof -
  let ?config = "ex_password_config\<lparr>cf_mqtt := (cf_mqtt ex_password_config)\<lparr>mq_client_id := ''''\<rparr>\<rparr>"
  have "valid_config (me_config ex_main_env) ?config"
    using ex_valid by (simp add: valid_config_def valid_ca_cert_def ex_main_env_def ex_password_config_def ex_config_def ex_mqtt_def)
  then have "load (me_config ex_main_env) (config_path ex_main_env) = Inr ?config"
    using validate_iff [of "me_config ex_main_env" ?config "()"]
    by (simp add: load_def ex_main_env_def)
  then show ?thesis
    unfolding main_exit_code [THEN conjunct1]
    by (simp add: ex_main_env_def ex_password_config_def ex_run_env_def ex_mqtt_env_def ex_mqtt_def)
qed

text \<open>A valid configuration whose password variable is set starts: with a client id, a client library that knows the
three QoS levels, and the CA file still readable, a gateway that is asked to shut down has run.\<close>

theorem valid_config_runs:
  assumes "valid_config env config" and "re_select renv = ShutdownRequested"
    and "me_env_var (re_mqtt renv) (mq_password_env (cf_mqtt config)) \<noteq> None" and "mq_client_id (cf_mqtt config) \<noteq> []"
    and "\<forall>q \<in> {0, 1, 2}. me_qos (re_mqtt renv) q \<noteq> None"
    and "me_read_file (re_mqtt renv) = ce_read_file env"
  shows "fst (run_gateway renv config) = Some (Inr ())"
proof -
  have "\<exists>bytes. ce_read_file env (mq_ca_cert_path (cf_mqtt config)) = Inr bytes" if "mq_tls (cf_mqtt config)"
    using assms(1) that by (auto simp: valid_config_def valid_ca_cert_def)
  moreover have "mq_qos (cf_mqtt config) \<in> {0, 1, 2}" using assms(1) by (simp add: valid_config_def)
  ultimately have "mqtt_ready (re_mqtt renv) (cf_mqtt config)"
    unfolding mqtt_ready_def assms(6) using assms(3-5) by blast
  then show ?thesis
    by (rule run_gateway_ready) (simp add: wind_down_order assms(2))
qed

theorem valid_config_runs_witness:
  "fst (run_gateway (ex_run_env\<lparr>re_mqtt := ex_mqtt_env\<lparr>me_read_file := ce_read_file ex_env,
      me_env_var := \<lambda>v. Some ''secret''\<rparr>\<rparr>) ex_config) = Some (Inr ())"
  by (rule valid_config_runs [OF ex_valid]) (simp_all add: ex_run_env_def ex_mqtt_env_def ex_config_def ex_mqtt_def)

text \<open>C38: The validation does not bound the status heartbeat: any value in place of the one of a valid
configuration is accepted too. With it the status writer writes the file once; when the heartbeat
reaches past the end of the clock, the addition to the current instant then panics, so the file never
changes again, and otherwise the task runs.\<close>

theorem long_heartbeat_panics:
  assumes "valid_config env config" and "fmt_utf8 fmt"
    and "status_utf8 (StatusState_from_config config :: 't StatusState)"
  shows "let config' = config\<lparr>cf_gateway := (cf_gateway config)\<lparr>gw_status_heartbeat_secs := hb\<rparr>\<rparr>;
      st = StatusState_from_config config' :: 't StatusState;
      heartbeat = dur_from_secs (gw_status_heartbeat_secs (cf_gateway config'))
    in validate env config' = Inr () \<and>
       (\<exists>content r. render_status fmt st utc = Some content \<and>
          writer_start fmt heartbeat st utc now = (r, [content]) \<and>
          (r = WriterPanicked \<longleftrightarrow> inst_max < now + dur_from_secs hb) \<and>
          (r \<noteq> WriterPanicked \<longleftrightarrow> (\<exists>w. r = WriterRunning w)))"
proof -
  let ?c = "config\<lparr>cf_gateway := (cf_gateway config)\<lparr>gw_status_heartbeat_secs := hb\<rparr>\<rparr>"
  have "validate env ?c = Inr ()" using assms(1) by (simp add: validate_iff valid_config_def)
  moreover have "StatusState_from_config ?c = (StatusState_from_config config :: 't StatusState)"
    by (simp add: StatusState_from_config_def)
  moreover obtain content where "render_status fmt (StatusState_from_config config :: 't StatusState) utc = Some content"
    using render_status_total [OF assms(2,3)] by blast
  ultimately show ?thesis
    by (auto simp: Let_def writer_start_def writer_write_def inst_add_def)
qed

theorem long_heartbeat_panics_witness:
  "\<exists>content. writer_start ex_fmt (dur_from_secs (2 ^ 63)) ex_status 5 1 = (WriterPanicked, [content])"
proof -
  have "inst_max < 1 + dur_from_secs (2 ^ 63)"
    by (simp add: inst_max_def dur_from_secs_def nanos_per_sec_def)
  moreover have "StatusState_from_config (ex_config\<lparr>cf_gateway := (cf_gateway ex_config)\<lparr>gw_status_heartbeat_secs := 2 ^ 63\<rparr>\<rparr>) = ex_status"
    by (simp add: ex_status_def StatusState_from_config_def)
  ultimately show ?thesis
    using long_heartbeat_panics [OF ex_valid ex_fmt_utf8 ex_status_utf8 [unfolded ex_status_def], of "2 ^ 63" 5 1]
    by (simp add: Let_def) blast
qed

end
