(* ===== verification/Pipeline.thy ===== *)
theory Pipeline
  imports Gateway
begin

text \<open>
  The tasks of \<open>src/lib.rs\<close> put together: the pollers with their supervisors, the channel of
  readings, the aggregator, the channel of batches and the publisher, interleaved in any order. A
  step is one action of one task; \<open>pipe_reach\<close> holds of every state the gateway can get into. The
  fields \<open>pl_past\<close>, \<open>pl_log\<close>, \<open>pl_events\<close> and \<open>pl_offered\<close> are history: what happened so far.
  \<open>run_step\<close> puts the phases of \<open>run\<close> around these steps: the wait for a shutdown or a failure, the stop of
  the pollers, and the drain, which the grace period can cut short. In its steps the publisher is taken to be
  there; when it ends, the phase changes. The timer steps are those within the clock, which has room for 292
  billion years.
\<close>

section \<open>The composed state\<close>

text \<open>\<open>pp_env i k\<close> is the environment of the \<open>k\<close>-th run of the poller of connection \<open>i\<close>, \<open>pp_start\<close>
the state the aggregator starts in; the two channels are those of readings and of batches.\<close>

record ('r, 'b) pipe_params =
  pp_config :: Config
  pp_order :: device_order
  pp_env :: "nat \<Rightarrow> nat \<Rightarrow> poll_env"
  pp_start :: agg_state
  pp_readings :: "(Reading, 'r) chan"
  pp_batches :: "(AggregatedBatch, 'b) chan"

text \<open>
  For each connection: the number of the current run, the readings that earlier runs sent and the
  actions of the current run; then the two channels with the aggregator between them, which holds
  in \<open>pl_outbox\<close> the batches of a flush that it has not sent yet (\<open>None\<close>: it has returned).
\<close>

record ('r, 'b) pipeline =
  pl_run :: "nat \<Rightarrow> nat"
  pl_past :: "nat \<Rightarrow> Reading list"
  pl_done :: "nat \<Rightarrow> poll_action list"
  pl_polling :: bool
  pl_readings :: 'r
  pl_agg :: "agg_state option"
  pl_outbox :: "AggregatedBatch list"
  pl_batches :: 'b
  pl_log :: "(nat \<times> Reading) list"
  pl_events :: "agg_event list"
  pl_offered :: "AggregatedBatch list"

abbreviation conns :: "('r, 'b) pipe_params \<Rightarrow> ConnectionConfig list" where
  "conns P \<equiv> cf_connections (pp_config P)"

abbreviation window_secs :: "('r, 'b) pipe_params \<Rightarrow> u64" where
  "window_secs P \<equiv> gw_aggregation_window_secs (cf_gateway (pp_config P))"

definition run_trace :: "('r, 'b) pipe_params \<Rightarrow> nat \<Rightarrow> nat \<Rightarrow> nat \<Rightarrow> poll_action list" where
  "run_trace P i k n = pw_trace (snd (run_connection (pp_env P i k) (conns P ! i) n))"

text \<open>The next action of poller \<open>i\<close> in its current run is \<open>a\<close>.\<close>

definition performs :: "('r, 'b) pipe_params \<Rightarrow> ('r, 'b) pipeline \<Rightarrow> nat \<Rightarrow> poll_action \<Rightarrow> bool" where
  "performs P s i a \<longleftrightarrow>
     i < length (conns P) \<and> (\<exists>n. prefix (pl_done s i @ [a]) (run_trace P i (pl_run s i) n))"

definition acted :: "nat \<Rightarrow> poll_action \<Rightarrow> ('r, 'b) pipeline \<Rightarrow> ('r, 'b) pipeline" where
  "acted i a s = s\<lparr>pl_done := (pl_done s)(i := pl_done s i @ [a])\<rparr>"

definition sends :: "poll_action list \<Rightarrow> Reading list" where
  "sends tr = concat (map (\<lambda>a. case a of ActSend r \<Rightarrow> [r] | _ \<Rightarrow> []) tr)"

definition is_forward :: "poll_action \<Rightarrow> bool" where
  "is_forward a = (case a of ActSend _ \<Rightarrow> True | ActDrop _ \<Rightarrow> True | _ \<Rightarrow> False)"

definition pipe_init :: "('r, 'b) pipe_params \<Rightarrow> ('r, 'b) pipeline" where
  "pipe_init P =
     \<lparr>pl_run = (\<lambda>_. 0), pl_past = (\<lambda>_. []), pl_done = (\<lambda>_. []), pl_polling = True,
      pl_readings = ch_new (pp_readings P),
      pl_agg = Some (pp_start P), pl_outbox = [],
      pl_batches = ch_new (pp_batches P), pl_log = [], pl_events = [], pl_offered = []\<rparr>"

text \<open>A task that polls still holds a sender of readings; \<open>run\<close> has dropped its own.\<close>

definition senders :: "('r, 'b) pipe_params \<Rightarrow> ('r, 'b) pipeline \<Rightarrow> bool" where
  "senders P s \<longleftrightarrow> pl_polling s \<and> conns P \<noteq> []"

section \<open>The steps\<close>

text \<open>
  A poller's \<open>try_send\<close> is answered by the state of the channel; a run that panicked is followed by
  the next one; the aggregator takes readings and timer ticks only when all batches of the last
  flush are sent; when no sender is left and the channel is drained the aggregator returns.
\<close>

inductive pipe_step :: "('r, 'b) pipe_params \<Rightarrow> ('r, 'b) pipeline \<Rightarrow> ('r, 'b) pipeline \<Rightarrow> bool" for P where
  poll_other: "\<lbrakk>pl_polling s; performs P s i a; \<not> is_forward a\<rbrakk> \<Longrightarrow> pipe_step P s (acted i a s)"
| poll_send: "\<lbrakk>pl_polling s; performs P s i (ActSend r);
      ch_send (pp_readings P) (pl_agg s \<noteq> None) r (pl_readings s) = (SendOk, q)\<rbrakk>
    \<Longrightarrow> pipe_step P s ((acted i (ActSend r) s)\<lparr>pl_readings := q, pl_log := pl_log s @ [(i, r)]\<rparr>)"
| poll_drop: "\<lbrakk>pl_polling s; performs P s i (ActDrop r);
      ch_send (pp_readings P) (pl_agg s \<noteq> None) r (pl_readings s) = (SendFull, q)\<rbrakk>
    \<Longrightarrow> pipe_step P s ((acted i (ActDrop r) s)\<lparr>pl_readings := q\<rparr>)"
| poll_respawn: "\<lbrakk>pl_polling s; i < length (conns P);
      run_connection (pp_env P i (pl_run s i)) (conns P ! i) n = (Crashed, w); pl_done s i = pw_trace w\<rbrakk>
    \<Longrightarrow> pipe_step P s (s\<lparr>pl_run := (pl_run s)(i := Suc (pl_run s i)),
          pl_past := (pl_past s)(i := pl_past s i @ sends (pl_done s i)), pl_done := (pl_done s)(i := [])\<rparr>)"
| agg_recv: "\<lbrakk>pl_agg s = Some st; pl_outbox s = []; ch_recv (pp_readings P) (pl_readings s) = Some (r, q);
      agg_step (pp_order P) (window_secs P) st (RecvReading r) = (AggRunning st', out)\<rbrakk>
    \<Longrightarrow> pipe_step P s (s\<lparr>pl_readings := q, pl_agg := Some st', pl_outbox := out,
          pl_events := pl_events s @ [RecvReading r]\<rparr>)"
| agg_timer: "\<lbrakk>pl_agg s = Some st; pl_outbox s = [];
      agg_step (pp_order P) (window_secs P) st (SleepElapsed None) = (AggRunning st', out)\<rbrakk>
    \<Longrightarrow> pipe_step P s (s\<lparr>pl_agg := Some st', pl_outbox := out, pl_events := pl_events s @ [SleepElapsed None]\<rparr>)"
| agg_send: "\<lbrakk>pl_outbox s = b # bs; ch_send (pp_batches P) True b (pl_batches s) = (SendOk, q)\<rbrakk>
    \<Longrightarrow> pipe_step P s (s\<lparr>pl_outbox := bs, pl_batches := q\<rparr>)"
| publish: "ch_recv (pp_batches P) (pl_batches s) = Some (b, q)
    \<Longrightarrow> pipe_step P s (s\<lparr>pl_batches := q, pl_offered := pl_offered s @ [b]\<rparr>)"
| stop_polling: "pl_polling s \<Longrightarrow> pipe_step P s (s\<lparr>pl_polling := False\<rparr>)"
| agg_close: "\<lbrakk>\<not> senders P s; pl_agg s = Some st; pl_outbox s = []; ch_recv (pp_readings P) (pl_readings s) = None;
      agg_step (pp_order P) (window_secs P) st RecvClosed = (AggReturned, out)\<rbrakk>
    \<Longrightarrow> pipe_step P s (s\<lparr>pl_agg := None, pl_outbox := out\<rparr>)"

inductive_cases pipe_stepE: "pipe_step P s s'"

inductive pipe_reach :: "('r, 'b) pipe_params \<Rightarrow> ('r, 'b) pipeline \<Rightarrow> bool" for P where
  start: "pipe_reach P (pipe_init P)"
| step: "pipe_reach P s \<Longrightarrow> pipe_step P s s' \<Longrightarrow> pipe_reach P s'"

section \<open>The channels\<close>

definition channels_ok :: "('r, 'b) pipe_params \<Rightarrow> bool" where
  "channels_ok P \<longleftrightarrow> chan_ok READING_CHANNEL_CAPACITY (pp_readings P) \<and> chan_ok BATCH_CHANNEL_CAPACITY (pp_batches P)"

abbreviation queued_readings :: "('r, 'b) pipe_params \<Rightarrow> ('r, 'b) pipeline \<Rightarrow> Reading list" where
  "queued_readings P s \<equiv> ch_items (pp_readings P) (pl_readings s)"

abbreviation queued_batches :: "('r, 'b) pipe_params \<Rightarrow> ('r, 'b) pipeline \<Rightarrow> AggregatedBatch list" where
  "queued_batches P s \<equiv> ch_items (pp_batches P) (pl_batches s)"

lemma channels_okD:
  assumes "channels_ok P"
  shows "channel (ch_send (pp_readings P) opened) (ch_recv (pp_readings P)) (ch_items (pp_readings P)) READING_CHANNEL_CAPACITY"
    and "closed_channel (ch_send (pp_readings P) False) (ch_recv (pp_readings P)) (ch_items (pp_readings P)) READING_CHANNEL_CAPACITY"
    and "channel (ch_send (pp_batches P) opened) (ch_recv (pp_batches P)) (ch_items (pp_batches P)) BATCH_CHANNEL_CAPACITY"
    and "open_channel (ch_send (pp_batches P) True) (ch_recv (pp_batches P)) (ch_items (pp_batches P)) BATCH_CHANNEL_CAPACITY"
    and "ch_items (pp_readings P) (ch_new (pp_readings P)) = []" "ch_items (pp_batches P) (ch_new (pp_batches P)) = []"
  using assms chan_okD unfolding channels_ok_def by blast+

lemma recv_readings:
  assumes "channels_ok P"
  shows "ch_recv (pp_readings P) c = Some (r, q) \<Longrightarrow> ch_items (pp_readings P) c = r # ch_items (pp_readings P) q"
    and "ch_recv (pp_readings P) c = None \<longleftrightarrow> ch_items (pp_readings P) c = []"
  using channel.recv_Some [OF channels_okD(1) [OF assms]] channel.recv_None [OF channels_okD(1) [OF assms]]
  by blast+

lemma recv_batches:
  assumes "channels_ok P"
  shows "ch_recv (pp_batches P) c = Some (b, q) \<Longrightarrow> ch_items (pp_batches P) c = b # ch_items (pp_batches P) q"
    and "ch_items (pp_batches P) c \<noteq> [] \<Longrightarrow> \<exists>b q. ch_recv (pp_batches P) c = Some (b, q)"
  using channel.recv_Some [OF channels_okD(3) [OF assms]] channel.recv_nonempty [OF channels_okD(3) [OF assms]]
  by blast+

section \<open>The aggregator's history\<close>

abbreviation agg_history :: "('r, 'b) pipe_params \<Rightarrow> agg_event list \<Rightarrow> agg_state agg_result \<times> AggregatedBatch list" where
  "agg_history P evs \<equiv> agg_run (pp_order P) (window_secs P) (pp_start P) evs"

lemma agg_run_snoc:
  "agg_run order w st (evs @ [ev]) =
     (case agg_run order w st evs of
        (AggRunning st', out) \<Rightarrow> (case agg_step order w st' ev of (r, out') \<Rightarrow> (r, out @ out'))
      | (r, out) \<Rightarrow> (r, out))"
  by (induction evs arbitrary: st) (auto split: prod.splits agg_result.splits)

lemma readings_snoc [simp]:
  "readings (evs @ [RecvReading r]) = readings evs @ [r]" "readings (evs @ [SleepElapsed n]) = readings evs"
  "readings [] = []"
  by (simp_all add: readings_def)

lemma sends_simps [simp]:
  "sends [] = []" "sends (xs @ [ActSend r]) = sends xs @ [r]" "\<not> is_forward a \<Longrightarrow> sends (xs @ [a]) = sends xs"
  "sends (xs @ [ActDrop r]) = sends xs"
  by (auto simp: sends_def is_forward_def split: poll_action.splits)

text \<open>A closed input makes the aggregator return without a batch; nothing else does here.\<close>

lemma agg_step_recv [simp]:
  "agg_step order w st (RecvReading r) = (AggRunning st', out) \<Longrightarrow> out = []"
  "agg_step order w st RecvClosed = (r', out) \<Longrightarrow> out = []"
  by (simp_all add: agg_step_def)

text \<open>
  The aggregator's state is the result of its events, and what its flushes made is what was offered to
  the client, what is queued, and what it has not sent yet; a channel that has closed is drained.
\<close>

definition agg_inv :: "('r, 'b) pipe_params \<Rightarrow> ('r, 'b) pipeline \<Rightarrow> bool" where
  "agg_inv P s \<longleftrightarrow> all_taken (pl_events s) \<and> RecvClosed \<notin> set (pl_events s) \<and>
     (\<exists>st. fst (agg_history P (pl_events s)) = AggRunning st) \<and>
     (case pl_agg s of
        Some st \<Rightarrow> fst (agg_history P (pl_events s)) = AggRunning st
      | None \<Rightarrow> \<not> senders P s \<and> queued_readings P s = [] \<and> pl_outbox s = [])"

definition readings_inv :: "('r, 'b) pipe_params \<Rightarrow> ('r, 'b) pipeline \<Rightarrow> bool" where
  "readings_inv P s \<longleftrightarrow>
     conserved (ch_items (pp_readings P)) READING_CHANNEL_CAPACITY
       (map snd (pl_log s)) (readings (pl_events s)) (pl_readings s)"

definition batches_inv :: "('r, 'b) pipe_params \<Rightarrow> ('r, 'b) pipeline \<Rightarrow> bool" where
  "batches_inv P s \<longleftrightarrow>
     (\<exists>made. conserved (ch_items (pp_batches P)) BATCH_CHANNEL_CAPACITY made (pl_offered s) (pl_batches s) \<and>
        snd (agg_history P (pl_events s)) = made @ pl_outbox s)"

lemma acted_simps [simp]:
  "pl_polling (acted i a s) = pl_polling s" "pl_readings (acted i a s) = pl_readings s"
  "pl_agg (acted i a s) = pl_agg s" "pl_outbox (acted i a s) = pl_outbox s"
  "pl_batches (acted i a s) = pl_batches s" "pl_log (acted i a s) = pl_log s"
  "pl_events (acted i a s) = pl_events s" "pl_offered (acted i a s) = pl_offered s"
  "pl_run (acted i a s) = pl_run s" "pl_past (acted i a s) = pl_past s"
  "pl_done (acted i a s) = (pl_done s)(i := pl_done s i @ [a])"
  by (simp_all add: acted_def)

lemma agg_inv_step:
  assumes ch: "channels_ok P"
  shows "pipe_step P s s' \<Longrightarrow> agg_inv P s \<Longrightarrow> agg_inv P s'"
proof (induction rule: pipe_step.induct)
  case (agg_recv s st r q st' out)
  then show ?case by (auto simp: agg_inv_def senders_def agg_run_snoc all_taken_def split: prod.splits option.splits agg_result.splits)
next
  case (agg_timer s st st' out)
  then show ?case by (auto simp: agg_inv_def senders_def agg_run_snoc all_taken_def split: prod.splits option.splits agg_result.splits)
next
  case (agg_close s st out)
  then have "queued_readings P s = []" "out = []" by (simp_all add: recv_readings(2) [OF ch])
  with agg_close show ?case by (auto simp: agg_inv_def senders_def)
qed (auto simp: agg_inv_def senders_def performs_def split: option.splits)

lemma readings_inv_step:
  assumes ch: "channels_ok P"
  shows "pipe_step P s s' \<Longrightarrow> readings_inv P s \<Longrightarrow> readings_inv P s'"
proof (induction rule: pipe_step.induct)
  case (poll_send s i r q)
  then show ?case
    using channel.conserved_send [OF channels_okD(1) [OF ch] _ poll_send(3)] by (simp add: readings_inv_def)
next
  case (poll_drop s i r q)
  then show ?case
    using channel.conserved_refused [OF channels_okD(1) [OF ch] _ poll_drop(3)] by (simp add: readings_inv_def)
next
  case (agg_recv s st r q st' out)
  then show ?case
    using channel.conserved_recv [OF channels_okD(1) [OF ch] _ agg_recv(3)] by (simp add: readings_inv_def)
qed (simp_all add: readings_inv_def)

lemma batches_inv_step:
  assumes ch: "channels_ok P" and "pipe_step P s s'" and "agg_inv P s" and "batches_inv P s"
  shows "batches_inv P s'"
  using assms(2-)
proof (induction rule: pipe_step.induct)
  case (agg_recv s st r q st' out)
  then have "agg_history P (pl_events s @ [RecvReading r]) = (AggRunning st', snd (agg_history P (pl_events s)))" "out = []"
    by (auto simp: agg_inv_def agg_run_snoc split: prod.splits)
  with agg_recv show ?case by (simp add: batches_inv_def)
next
  case (agg_timer s st st' out)
  then have "agg_history P (pl_events s @ [SleepElapsed None]) = (AggRunning st', snd (agg_history P (pl_events s)) @ out)"
    by (auto simp: agg_inv_def agg_run_snoc split: prod.splits)
  with agg_timer show ?case by (simp add: batches_inv_def)
next
  case (agg_send s b bs q)
  then obtain made where m: "conserved (ch_items (pp_batches P)) BATCH_CHANNEL_CAPACITY made (pl_offered s) (pl_batches s)"
    "snd (agg_history P (pl_events s)) = made @ b # bs" by (auto simp: batches_inv_def)
  with channel.conserved_send [OF channels_okD(3) [OF ch] m(1) agg_send(2)] show ?case
    by (auto simp: batches_inv_def intro!: exI [of _ "made @ [b]"])
next
  case (publish s b q)
  then obtain made where m: "conserved (ch_items (pp_batches P)) BATCH_CHANNEL_CAPACITY made (pl_offered s) (pl_batches s)"
    "snd (agg_history P (pl_events s)) = made @ pl_outbox s" by (auto simp: batches_inv_def)
  with channel.conserved_recv [OF channels_okD(3) [OF ch] m(1) publish(1)] show ?case
    by (auto simp: batches_inv_def)
next
  case (agg_close s st out)
  then show ?case by (auto simp: batches_inv_def)
qed (simp_all add: batches_inv_def)

section \<open>The pollers' history\<close>

text \<open>The reading was decoded from registers that a device of connection \<open>i\<close> returned to a request for
one of its configured blocks.\<close>

definition measured :: "('r, 'b) pipe_params \<Rightarrow> nat \<Rightarrow> Reading \<Rightarrow> bool" where
  "measured P i r \<longleftrightarrow> i < length (conns P) \<and>
     (\<exists>k n d b words vals x. configured_read (conns P ! i) d b (Words words) x \<and> x \<in> set (run_trace P i k n) \<and>
        decode b words = Some vals \<and> r \<in> reading_of d ` set vals)"

definition log_of :: "nat \<Rightarrow> ('r, 'b) pipeline \<Rightarrow> Reading list" where
  "log_of i s = map snd (filter (\<lambda>x. fst x = i) (pl_log s))"

definition pollers_inv :: "('r, 'b) pipe_params \<Rightarrow> ('r, 'b) pipeline \<Rightarrow> bool" where
  "pollers_inv P s \<longleftrightarrow> (\<forall>i. log_of i s = pl_past s i @ sends (pl_done s i)) \<and>
     (\<forall>x \<in> set (pl_log s). measured P (fst x) (snd x))"

lemma performs_measured:
  assumes "performs P s i (ActSend r)"
  shows "measured P i r"
proof -
  let ?env = "pp_env P i (pl_run s i)" and ?cfg = "conns P ! i"
  obtain n zs where i: "i < length (conns P)" and tr: "run_trace P i (pl_run s i) n = pl_done s i @ ActSend r # zs"
    using assms by (auto simp: performs_def prefix_def)
  have "justified_trace ?env ?cfg (run_trace P i (pl_run s i) n)"
    using run_connection_inv [of ?env ?cfg n] by (simp add: run_trace_def conn_inv_def split_beta)
  then have "value_due ?cfg (pl_done s i) r"
    unfolding tr justified_trace_def by (fastforce simp: justified_def)
  then obtain p d b words before pv after sent where due: "d \<in> set (cn_devices ?cfg)" "b \<in> set (dv_blocks d)"
    "decode b words = Some (before @ pv # after)" "r = reading_of d pv"
    "pl_done s i = p @ request_part ?cfg d b (Words words) @ sent" unfolding value_due_def by blast
  let ?x = "ActRead (dv_unit_id d) (bk_function b) (bk_start b) (bk_count b) (Words words)"
  have "configured_read ?cfg d b (Words words) ?x" using due(1,2) by (simp add: configured_read_def)
  moreover have "?x \<in> set (run_trace P i (pl_run s i) n)" using due(5) by (simp add: tr request_part_def)
  moreover have "r \<in> reading_of d ` set (before @ pv # after)" using due(4) by simp
  ultimately show ?thesis using i due(3) unfolding measured_def by blast
qed

lemma log_of_acted [simp]: "log_of i (acted j a s) = log_of i s"
  by (simp add: log_of_def)

lemma pollers_inv_step:
  assumes "pipe_step P s s'" and "pollers_inv P s"
  shows "pollers_inv P s'"
  using assms
proof (induction rule: pipe_step.induct)
  case (poll_send s i r q)
  from poll_send performs_measured [OF poll_send(2)] show ?case
    by (auto simp: pollers_inv_def log_of_def)
next
  case (poll_other s i a)
  then show ?case by (auto simp: pollers_inv_def)
next
  case (poll_drop s i r q)
  then show ?case by (auto simp: pollers_inv_def log_of_def)
qed (simp_all add: pollers_inv_def log_of_def)

section \<open>Every reachable state\<close>

text \<open>The aggregator starts with the accumulators of the configuration, in some iteration order.\<close>

definition starts :: "('r, 'b) pipe_params \<Rightarrow> agg_map \<Rightarrow> duration \<Rightarrow> instant \<Rightarrow> bool" where
  "starts P agg now_unix now \<longleftrightarrow> mset agg = mset (init_from_config (pp_config P)) \<and>
     agg_start agg (window_secs P) now_unix now = Some (pp_start P)"

definition pipe_inv :: "('r, 'b) pipe_params \<Rightarrow> ('r, 'b) pipeline \<Rightarrow> bool" where
  "pipe_inv P s \<longleftrightarrow> agg_inv P s \<and> readings_inv P s \<and> batches_inv P s"

lemma pipe_inv_reach:
  assumes ch: "channels_ok P"
  shows "pipe_reach P s \<Longrightarrow> pipe_inv P s"
proof (induction rule: pipe_reach.induct)
  case start
  show ?case
    by (simp add: pipe_inv_def pipe_init_def agg_inv_def readings_inv_def batches_inv_def all_taken_def
        conserved_empty channels_okD [OF ch])
next
  case (step s s')
  then show ?case
    by (simp add: pipe_inv_def agg_inv_step [OF ch] readings_inv_step [OF ch] batches_inv_step [OF ch])
qed

lemma pollers_inv_reach: "pipe_reach P s \<Longrightarrow> pollers_inv P s"
proof (induction rule: pipe_reach.induct)
  case start
  show ?case by (simp add: pollers_inv_def pipe_init_def log_of_def)
next
  case (step s s')
  then show ?case by (simp add: pollers_inv_step)
qed

text \<open>The windows closed so far: their batches are all that was made, their readings all that was taken.\<close>

definition pipe_windows :: "('r, 'b) pipe_params \<Rightarrow> ('r, 'b) pipeline \<Rightarrow> (Reading list \<times> u64 \<times> u64) list" where
  "pipe_windows P s = closed_windows (window_secs P) [] (ag_window_end (pp_start P)) (pl_events s)"

lemma pipe_windows:
  assumes start: "starts P agg now_unix now" and inv: "pipe_inv P s"
  shows "pl_offered s @ queued_batches P s @ pl_outbox s =
      concat (map (window_batches (pp_order P) (agg_points agg)) (pipe_windows P s))"
    and "concat (map fst (pipe_windows P s)) @ open_window [] (pl_events s) @ queued_readings P s = map snd (pl_log s)"
proof -
  have agg: "mset agg = mset (init_from_config (pp_config P))"
    and st: "agg_start agg (window_secs P) now_unix now = Some (pp_start P)"
    using start by (simp_all add: starts_def)
  have evs: "all_taken (pl_events s)" "RecvClosed \<notin> set (pl_events s)"
    using inv by (simp_all add: pipe_inv_def agg_inv_def)
  have clock: "in_clock (window_secs P) (ag_deadline (pp_start P)) (pl_events s)"
    using inv agg_run_in_clock [OF _ agg_start_in_clock [OF st]] by (auto simp: pipe_inv_def agg_inv_def)
  have "snd (agg_history P (pl_events s)) =
      concat (map (window_batches (pp_order P) (agg_points agg)) (pipe_windows P s))"
    using agg_run_outputs [OF init_agg_points(2) [OF agg] evs(1), of "window_secs P"
      "\<lparr>wn_log = [], wn_end = ag_window_end (pp_start P), wn_deadline = ag_deadline (pp_start P)\<rparr>" "pp_order P"] clock
    by (simp add: pipe_windows_def flip: init_conc [OF agg st])
  moreover have "snd (agg_history P (pl_events s)) = pl_offered s @ queued_batches P s @ pl_outbox s"
    using inv by (auto simp: pipe_inv_def batches_inv_def conserved_def)
  ultimately show "pl_offered s @ queued_batches P s @ pl_outbox s =
      concat (map (window_batches (pp_order P) (agg_points agg)) (pipe_windows P s))" by simp
  have "readings (pl_events s) @ queued_readings P s = map snd (pl_log s)"
    using inv by (simp add: pipe_inv_def readings_inv_def conserved_def)
  then show "concat (map fst (pipe_windows P s)) @ open_window [] (pl_events s) @ queued_readings P s = map snd (pl_log s)"
    using windows_partition [OF evs(2), of "window_secs P" "[]" "ag_window_end (pp_start P)"]
    unfolding pipe_windows_def by (metis append.assoc append_Nil)
qed

section \<open>Draining\<close>

text \<open>How many steps of the aggregator and the publisher the queued items still take.\<close>

definition drain_steps :: "('r, 'b) pipe_params \<Rightarrow> ('r, 'b) pipeline \<Rightarrow> nat" where
  "drain_steps P s = length (queued_readings P s) + 2 * length (pl_outbox s) + length (queued_batches P s) +
     (if pl_agg s = None then 0 else 1)"

definition in_flight :: "('r, 'b) pipe_params \<Rightarrow> ('r, 'b) pipeline \<Rightarrow> AggregatedBatch list" where
  "in_flight P s = pl_offered s @ queued_batches P s @ pl_outbox s"

definition drained :: "('r, 'b) pipe_params \<Rightarrow> ('r, 'b) pipeline \<Rightarrow> bool" where
  "drained P s \<longleftrightarrow> queued_readings P s = [] \<and> pl_outbox s = [] \<and> queued_batches P s = [] \<and> pl_agg s = None"

text \<open>A step that moves what is queued: no poller acts and no timer fires.\<close>

definition moves :: "('r, 'b) pipe_params \<Rightarrow> ('r, 'b) pipeline \<Rightarrow> ('r, 'b) pipeline \<Rightarrow> bool" where
  "moves P s s' \<longleftrightarrow> pipe_step P s s' \<and> drain_steps P s' < drain_steps P s \<and> in_flight P s' = in_flight P s \<and>
     pl_polling s' = pl_polling s \<and> pl_log s' = pl_log s \<and> ticks (pl_events s') = ticks (pl_events s)"

lemmas moves_defs = moves_def drain_steps_def in_flight_def

lemma ticks_recv [simp]: "ticks (evs @ [RecvReading r]) = ticks evs"
  by (simp add: ticks_def)

lemma agg_step_recv_Some: "\<exists>st'. agg_step order w st (RecvReading r) = (AggRunning st', [])"
  by (simp add: agg_step_def)

lemma publish_moves:
  assumes ch: "channels_ok P" and "queued_batches P s \<noteq> []"
  shows "\<exists>s'. moves P s s'"
proof -
  obtain b q where b: "ch_recv (pp_batches P) (pl_batches s) = Some (b, q)"
    using recv_batches(2) [OF assms] by blast
  with publish [OF b] recv_batches(1) [OF ch b] show ?thesis
    by (intro exI) (auto simp: moves_defs)
qed

lemma outbox_moves:
  assumes ch: "channels_ok P" and "pl_outbox s \<noteq> []"
  shows "\<exists>s'. moves P s s'"
proof (cases "queued_batches P s")
  case Nil
  obtain b bs where o: "pl_outbox s = b # bs" using assms(2) by (cases "pl_outbox s") auto
  have "length (queued_batches P s) < BATCH_CHANNEL_CAPACITY" by (simp add: Nil BATCH_CHANNEL_CAPACITY_def)
  from open_channel.send_room [OF channels_okD(4) [OF ch] this] obtain q where
    q: "ch_send (pp_batches P) True b (pl_batches s) = (SendOk, q)" "ch_items (pp_batches P) q = queued_batches P s @ [b]"
    by blast
  from agg_send [OF o q(1)] show ?thesis
    by (intro exI) (auto simp: moves_defs o q(2))
qed (use publish_moves [OF ch] in simp)

lemma recv_moves:
  assumes ch: "channels_ok P" and "agg_inv P s" and "queued_readings P s \<noteq> []"
  shows "\<exists>s'. moves P s s'"
proof (cases "pl_outbox s")
  case Nil
  obtain r q where r: "ch_recv (pp_readings P) (pl_readings s) = Some (r, q)"
    using recv_readings(2) [OF ch] assms(3) by fastforce
  obtain st where st: "pl_agg s = Some st" using assms by (auto simp: agg_inv_def split: option.splits)
  obtain st' where a: "agg_step (pp_order P) (window_secs P) st (RecvReading r) = (AggRunning st', [])"
    using agg_step_recv_Some by blast
  from agg_recv [OF st Nil r a] recv_readings(1) [OF ch r] st show ?thesis
    by (intro exI) (auto simp: moves_defs Nil)
qed (use outbox_moves [OF ch] in simp)

lemma close_moves:
  assumes ch: "channels_ok P"
    and "\<not> senders P s" and "pl_agg s \<noteq> None" and "queued_readings P s = []" and "pl_outbox s = []"
  shows "\<exists>s'. moves P s s'"
proof -
  obtain st where st: "pl_agg s = Some st" using assms(3) by auto
  have r: "ch_recv (pp_readings P) (pl_readings s) = None" using assms(4) by (simp add: recv_readings(2) [OF ch])
  have "agg_step (pp_order P) (window_secs P) st RecvClosed = (AggReturned, [])" by (simp add: agg_step_def)
  from agg_close [OF assms(2) st assms(5) r this] st assms(5) show ?thesis
    by (intro exI) (auto simp: moves_defs)
qed

lemma drain:
  assumes ch: "channels_ok P" and "pipe_inv P s" and "\<not> pl_polling s"
  shows "\<exists>s' k. k \<le> drain_steps P s \<and> (pipe_step P ^^ k) s s' \<and> drained P s' \<and> pl_offered s' = in_flight P s"
  using assms(2-)
proof (induction "drain_steps P s" arbitrary: s rule: less_induct)
  case less
  show ?case
  proof (cases "drained P s")
    case True
    then have "pl_offered s = in_flight P s" by (simp add: drained_def in_flight_def)
    with True show ?thesis by (intro exI [of _ s] exI [of _ 0]) simp
  next
    case False
    have inv: "agg_inv P s" using less.prems by (simp add: pipe_inv_def)
    obtain s1 where m: "moves P s s1"
      using False publish_moves [OF ch, of s] outbox_moves [OF ch, of s] recv_moves [OF ch inv]
        close_moves [OF ch, of s] less.prems(2)
      unfolding drained_def senders_def by blast
    then have step: "pipe_step P s s1" and lt: "drain_steps P s1 < drain_steps P s"
      and eq: "in_flight P s1 = in_flight P s" "pl_polling s1 = pl_polling s"
      by (simp_all add: moves_def)
    have "pipe_inv P s1"
      using less.prems(1) step
      by (simp add: pipe_inv_def agg_inv_step [OF ch] readings_inv_step [OF ch] batches_inv_step [OF ch])
    from less.hyps [OF lt this] less.prems(2) eq obtain s' k where
      "k \<le> drain_steps P s1" "(pipe_step P ^^ k) s1 s'" "drained P s'" "pl_offered s' = in_flight P s" by auto
    with relpowp_Suc_I2 [of "pipe_step P", OF step, of k s'] lt show ?thesis
      by (intro exI [of _ s'] exI [of _ "Suc k"]) (simp del: relpowp.simps)
  qed
qed

text \<open>Once polling has stopped, only a timer tick can add to what is queued.\<close>

lemma stopped_step_decreases:
  assumes ch: "channels_ok P"
    and "pipe_step P s s'" and "\<not> pl_polling s" and "ticks (pl_events s') = ticks (pl_events s)"
  shows "drain_steps P s' < drain_steps P s"
  using assms(2-)
proof (induction rule: pipe_step.induct)
  case (agg_recv s st r q st' out)
  then show ?case using recv_readings(1) [OF ch agg_recv(3)] by (auto simp: drain_steps_def)
next
  case (agg_timer s st st' out)
  then show ?case by (simp add: ticks_def)
next
  case (agg_send s b bs q)
  then show ?case
    using channel.send_ok [OF channels_okD(3) [OF ch] agg_send(2)] by (auto simp: drain_steps_def)
next
  case (publish s b q)
  then show ?case using recv_batches(1) [OF ch publish(1)] by (auto simp: drain_steps_def)
next
  case (agg_close s st out)
  then show ?case by (auto simp: drain_steps_def)
qed simp_all

text \<open>What the flushes so far have made; only a timer tick makes more.\<close>

definition made_batches :: "('r, 'b) pipe_params \<Rightarrow> ('r, 'b) pipeline \<Rightarrow> AggregatedBatch list" where
  "made_batches P s = snd (agg_history P (pl_events s))"

lemma made_in_flight: "pipe_inv P s \<Longrightarrow> made_batches P s = in_flight P s"
  by (auto simp: pipe_inv_def batches_inv_def conserved_def made_batches_def in_flight_def)

lemma step_ticks: "pipe_step P s s' \<Longrightarrow> ticks (pl_events s) \<le> ticks (pl_events s')"
  by (induction rule: pipe_step.induct) (simp_all add: ticks_def)

lemma step_made:
  assumes "pipe_step P s s'" and "agg_inv P s" and "ticks (pl_events s') = ticks (pl_events s)"
  shows "made_batches P s' = made_batches P s"
  using assms
proof (induction rule: pipe_step.induct)
  case (agg_recv s st r q st' out)
  then have "agg_history P (pl_events s @ [RecvReading r]) = (AggRunning st', snd (agg_history P (pl_events s)))"
    by (auto simp: agg_inv_def agg_run_snoc split: prod.splits)
  with agg_recv show ?case by (simp add: made_batches_def)
next
  case (agg_timer s st st' out)
  then show ?case by (simp add: ticks_def)
qed (simp_all add: made_batches_def)

lemma step_stopped: "pipe_step P s s' \<Longrightarrow> \<not> pl_polling s \<Longrightarrow> \<not> pl_polling s'"
  by (induction rule: pipe_step.induct) simp_all

lemma pipe_inv_step: "channels_ok P \<Longrightarrow> pipe_step P s s' \<Longrightarrow> pipe_inv P s \<Longrightarrow> pipe_inv P s'"
  by (simp add: pipe_inv_def agg_inv_step readings_inv_step batches_inv_step)

text \<open>Every path without a tick is at most \<open>drain_steps\<close> long and keeps what is in flight.\<close>

lemma stopped_path:
  assumes ch: "channels_ok P"
  shows "(pipe_step P ^^ k) s s' \<Longrightarrow> pipe_inv P s \<Longrightarrow> \<not> pl_polling s \<Longrightarrow>
    ticks (pl_events s) \<le> ticks (pl_events s') \<and>
    (ticks (pl_events s') = ticks (pl_events s) \<longrightarrow>
      k + drain_steps P s' \<le> drain_steps P s \<and> in_flight P s' = in_flight P s)"
proof (induction k arbitrary: s)
  case (Suc k)
  from Suc.prems(1) obtain s1 where s1: "pipe_step P s s1" "(pipe_step P ^^ k) s1 s'" by (meson relpowp_Suc_D2)
  have inv: "pipe_inv P s1" "\<not> pl_polling s1"
    using pipe_inv_step [OF ch s1(1) Suc.prems(2)] step_stopped [OF s1(1) Suc.prems(3)] .
  note ih = Suc.IH [OF s1(2) inv] and t = step_ticks [OF s1(1)]
  have "drain_steps P s1 < drain_steps P s \<and> in_flight P s1 = in_flight P s"
    if "ticks (pl_events s1) = ticks (pl_events s)"
    using stopped_step_decreases [OF ch s1(1) Suc.prems(3) that] step_made [OF s1(1) _ that] Suc.prems(2) inv(1)
    by (simp add: made_in_flight pipe_inv_def flip: made_in_flight)
  with ih t show ?case by auto
qed simp

text \<open>As long as something is left the tasks have a step other than a tick.\<close>

lemma not_drained_moves:
  assumes ch: "channels_ok P" and "pipe_inv P s" and "\<not> pl_polling s" and "\<not> drained P s"
  shows "\<exists>s'. moves P s s'"
proof -
  have "agg_inv P s" using assms(2) by (simp add: pipe_inv_def)
  then show ?thesis
    using assms(3,4) publish_moves [OF ch, of s] outbox_moves [OF ch, of s] recv_moves [OF ch] close_moves [OF ch, of s]
    unfolding drained_def senders_def by blast
qed

section \<open>From the start to the return of run\<close>

text \<open>
  \<open>run\<close> waits until a shutdown is requested or the publisher or the aggregator ends; it then aborts the
  pollers, all of which are gone when \<open>pollers.shutdown()\<close> returns. After a failure it aborts the other tasks.
  Otherwise it waits until the aggregator and the publisher have returned, which takes a drained
  pipeline, or until the grace period has passed, when it aborts them: what they still hold is abandoned.
  The grace period can pass at any time (time does not pass in this model, and a broker that is
  away can keep the publisher from returning).
\<close>

datatype run_phase = Selecting | StoppingPollers bool | Draining | Complete | Abandoned | Failed

inductive run_step ::
  "('r, 'b) pipe_params \<Rightarrow> run_phase \<times> ('r, 'b) pipeline \<Rightarrow> run_phase \<times> ('r, 'b) pipeline \<Rightarrow> bool" for P where
  run_task: "\<lbrakk>pipe_step P s s'; pl_polling s' = pl_polling s; ph \<notin> {Complete, Abandoned, Failed}\<rbrakk>
    \<Longrightarrow> run_step P (ph, s) (ph, s')"
| run_shutdown: "run_step P (Selecting, s) (StoppingPollers False, s)"
| run_publisher_exit: "run_step P (Selecting, s) (StoppingPollers True, s)"
| run_aggregator_exit: "pl_agg s = None \<Longrightarrow> run_step P (Selecting, s) (StoppingPollers True, s)"
| run_stopped: "run_step P (StoppingPollers failed, s)
    (if failed then Failed else Draining, s\<lparr>pl_polling := False\<rparr>)"
| run_complete: "drained P s \<Longrightarrow> run_step P (Draining, s) (Complete, s)"
| run_grace: "run_step P (Draining, s) (Abandoned, s)"

inductive_cases run_stepE: "run_step P (ph, s) x"

inductive run_reach :: "('r, 'b) pipe_params \<Rightarrow> run_phase \<times> ('r, 'b) pipeline \<Rightarrow> bool" for P where
  run_start: "run_reach P (Selecting, pipe_init P)"
| run_next: "run_reach P x \<Longrightarrow> run_step P x y \<Longrightarrow> run_reach P y"

lemma run_reach_pipe:
  "run_reach P x \<Longrightarrow> pipe_reach P (snd x) \<and>
     (pl_polling (snd x) \<longleftrightarrow> fst x \<in> {Selecting, StoppingPollers False, StoppingPollers True}) \<and>
     (fst x = Complete \<longrightarrow> drained P (snd x))"
proof (induction rule: run_reach.induct)
  case run_start
  then show ?case by (simp add: pipe_reach.start) (simp add: pipe_init_def)
next
  case (run_next x y)
  from run_next.hyps(2) run_next.IH show ?case
  proof (induction rule: run_step.induct)
    case (run_task s s' ph)
    then show ?case using pipe_reach.step [of P s s'] by auto
  next
    case (run_stopped failed s)
    then have "pipe_reach P (s\<lparr>pl_polling := False\<rparr>)"
      using pipe_reach.step [of P s, OF _ stop_polling] by (cases failed) auto
    then show ?case by simp
  qed auto
qed

lemma pipe_reach_selecting: "pipe_reach P s \<Longrightarrow> pl_polling s \<Longrightarrow> run_reach P (Selecting, s)"
proof (induction rule: pipe_reach.induct)
  case (step s s')
  have p: "pl_polling s" using step_stopped [OF step.hyps(2)] step.prems by blast
  have "run_step P (Selecting, s) (Selecting, s')"
    using step.hyps(2) step.prems p by (intro run_task) simp_all
  with step.IH [OF p] show ?case by (rule run_next)
qed (rule run_start)

section \<open>What a panic of a poller takes\<close>

lemma poller_crash:
  assumes "valid_config cenv (pp_config P)" and "\<forall>i k. full_responses (pp_env P i k)"
    and "i < length (conns P)" and "fst (run_connection (pp_env P i k) (conns P ! i) n) = Crashed"
  shows "\<exists>p d. run_trace P i k n = p @ [ActBackoff d] \<and> dur_max < 2 * d \<and>
    d \<le> max (backoff_lo (conns P ! i)) (backoff_hi (conns P ! i))"
proof -
  have "valid_connection (conns P ! i)" using assms(1) nth_mem [OF assms(3)] by (auto simp: valid_config_def)
  from run_connection_crash [OF assms(4) this] assms(2) backoff_delay_le show ?thesis
    unfolding run_trace_def by metis
qed

lemma respawned_bound:
  assumes "valid_config cenv (pp_config P)" and "\<forall>i k. full_responses (pp_env P i k)"
  shows "pipe_reach P s \<Longrightarrow> pl_run s i \<noteq> 0 \<Longrightarrow>
    dur_max < 2 * max (backoff_lo (conns P ! i)) (backoff_hi (conns P ! i))"
proof (induction rule: pipe_reach.induct)
  case (step s s')
  from step.hyps(2) step.IH step.prems show ?case
  proof (induction rule: pipe_step.induct)
    case (poll_respawn s j n w)
    show ?case
    proof (cases "j = i")
      case True
      have "fst (run_connection (pp_env P i (pl_run s i)) (conns P ! i) n) = Crashed" using poll_respawn(3) True by simp
      from poller_crash [OF assms _ this] poll_respawn(2) True show ?thesis by fastforce
    qed (use poll_respawn in simp)
  qed simp_all
qed (simp add: pipe_init_def)

section \<open>A complete run\<close>

text \<open>The poller of \<open>ex_tcp\<close> connects and reads its meter; the environments of the other runs do not matter.\<close>

definition ex_meter_env :: poll_env where
  "ex_meter_env = ex_poll_env\<lparr>pe_tcp_connect := \<lambda>n addr. Inr 255,
     pe_read_registers := \<lambda>n u f s c. Inr (Inr [230, 0, 0, 5])\<rparr>"

type_synonym queue_params = "(Reading list, AggregatedBatch list) pipe_params"
type_synonym queue_pipeline = "(Reading list, AggregatedBatch list) pipeline"

definition ex_params :: queue_params where
  "ex_params = \<lparr>pp_config = ex_config, pp_order = (\<lambda>m. m), pp_env = (\<lambda>i k. ex_meter_env),
     pp_start = \<lparr>ag_agg = init_from_config ex_config, ag_window_end = 120, ag_deadline = dur_from_secs 30\<rparr>,
     pp_readings = queue_chan READING_CHANNEL_CAPACITY, pp_batches = queue_chan BATCH_CHANNEL_CAPACITY\<rparr>"

lemma ex_channel_ops [simp]:
  "ch_new (pp_readings ex_params) = []" "ch_new (pp_batches ex_params) = []"
  "ch_send (pp_readings ex_params) = queue_send READING_CHANNEL_CAPACITY"
  "ch_send (pp_batches ex_params) = queue_send BATCH_CHANNEL_CAPACITY"
  "ch_recv (pp_readings ex_params) = queue_recv" "ch_recv (pp_batches ex_params) = queue_recv"
  "ch_items (pp_readings ex_params) = (\<lambda>q. q)" "ch_items (pp_batches ex_params) = (\<lambda>q. q)"
  by (simp_all add: ex_params_def queue_chan_def)

definition ex_voltage_reading :: Reading where
  "ex_voltage_reading = \<lparr>rd_point_id = \<lparr>pid_device = ''meter'', pid_point = ''voltage''\<rparr>, rd_value = f64_of_int 230\<rparr>"

lemma ex_meter_decode:
  "decode ex_block [230, 0, 0, 5] = Some [(''voltage'', f64_of_int 230), (''power'', f64_of_int 5)]"
  by (simp add: decode_def decode_point_def extract_raw_int ex_block_def ex_voltage_def ex_power_def Let_def
      f64_mul_one f64_of_int_wf f64_abs_of_int register_int_def register_pair_def twos_complement_def)

definition ex_first_actions :: "poll_action list" where
  "ex_first_actions = [ActConnect (cn_transport ex_tcp), ActReport (ConnectionUp ''tcp''), ActTick, ActSetSlave 1,
     ActRead 1 (bk_function ex_block) (bk_start ex_block) (bk_count ex_block) (Words [230, 0, 0, 5])]"

lemma ex_meter_trace: "prefix (ex_first_actions @ [ActSend ex_voltage_reading]) (run_trace ex_params 0 0 (Suc (Suc 0)))"
  using ex_meter_decode
  by (simp add: run_trace_def ex_params_def ex_config_def run_connection_Suc conn_init_def conn_step_def connect_def
      ex_tcp_def ex_meter_env_def ex_poll_env_def Let_def dur_from_secs_def nanos_per_sec_def poll_tick_def
      poll_device_def poll_block_def read_block_def ex_meter_def ex_block_def inter_frame_delay_def reading_of_def
      emit_def called_def ex_first_actions_def ex_voltage_reading_def)

lemma quiet_reach:
  assumes "pipe_reach P s" and "pl_polling s" and "i < length (conns P)"
  shows "list_all (\<lambda>a. \<not> is_forward a) as \<Longrightarrow> prefix (pl_done s i @ as) (run_trace P i (pl_run s i) n) \<Longrightarrow>
    pipe_reach P (s\<lparr>pl_done := (pl_done s)(i := pl_done s i @ as)\<rparr>)"
proof (induction as rule: rev_induct)
  case Nil
  then show ?case using assms(1) by simp
next
  case (snoc a as)
  let ?s = "s\<lparr>pl_done := (pl_done s)(i := pl_done s i @ as)\<rparr>"
  have p: "performs P ?s i a" using snoc.prems(2) assms(3) by (auto simp: performs_def)
  have "prefix (pl_done s i @ as) (run_trace P i (pl_run s i) n)"
    using snoc.prems(2) by (metis append.assoc append_prefixD)
  then have "pipe_reach P ?s" using snoc.prems(1) by (intro snoc.IH) simp_all
  from pipe_reach.step [OF this poll_other [OF _ p]] snoc.prems(1) assms(2) show ?case
    by (simp add: acted_def fun_upd_def cong: if_cong)
qed

text \<open>From the first connect to the batch that the publisher takes.\<close>

definition ex_polled :: queue_pipeline where
  "ex_polled = (pipe_init ex_params)\<lparr>pl_done := (\<lambda>_. [])(0 := ex_first_actions)\<rparr>"

definition ex_queued :: queue_pipeline where
  "ex_queued = (acted 0 (ActSend ex_voltage_reading) ex_polled)
     \<lparr>pl_readings := [ex_voltage_reading], pl_log := [(0, ex_voltage_reading)]\<rparr>"

definition ex_recorded :: agg_state where
  "ex_recorded = (pp_start ex_params)\<lparr>ag_agg := record_reading (init_from_config ex_config) ex_voltage_reading\<rparr>"

definition ex_mean :: AggregatedPoint where
  "ex_mean = \<lparr>ap_name = ''voltage'', ap_unit = ''V'', ap_mean = f64_div (f64_add f64_zero (f64_of_int 230)) (f64_of_int 1)\<rparr>"

definition ex_batch :: AggregatedBatch where
  "ex_batch = \<lparr>ab_device_id = ''meter'', ab_window_start = 60, ab_window_end = 120, ab_points = [ex_mean]\<rparr>"

lemma ex_polled_reach: "pipe_reach ex_params ex_polled"
proof -
  have "prefix ex_first_actions (run_trace ex_params 0 0 (Suc (Suc 0)))"
    using ex_meter_trace by (rule append_prefixD)
  moreover have "list_all (\<lambda>a. \<not> is_forward a) ex_first_actions"
    by (simp add: ex_first_actions_def is_forward_def)
  moreover have "pl_polling (pipe_init ex_params)" "0 < length (conns ex_params)"
    by (simp_all add: pipe_init_def ex_params_def ex_config_def)
  ultimately show ?thesis
    using quiet_reach [OF pipe_reach.start, of ex_params 0 ex_first_actions "Suc (Suc 0)"]
    by (simp add: ex_polled_def pipe_init_def)
qed

lemma ex_queued_reach: "pipe_reach ex_params ex_queued"
proof -
  have "performs ex_params ex_polled 0 (ActSend ex_voltage_reading)"
    using ex_meter_trace by (auto simp: performs_def ex_polled_def pipe_init_def ex_params_def ex_config_def)
  moreover have "ch_send (pp_readings ex_params) (pl_agg ex_polled \<noteq> None) ex_voltage_reading (pl_readings ex_polled) =
      (SendOk, [ex_voltage_reading])"
    by (simp add: ex_polled_def pipe_init_def queue_send_def READING_CHANNEL_CAPACITY_def)
  moreover have "pl_polling ex_polled" "pl_log ex_polled = []" by (simp_all add: ex_polled_def pipe_init_def)
  ultimately have "pipe_step ex_params ex_polled ex_queued"
    using poll_send [of ex_polled ex_params 0 ex_voltage_reading "[ex_voltage_reading]"] by (simp add: ex_queued_def)
  with ex_polled_reach show ?thesis by (rule pipe_reach.step)
qed

lemma ex_flush: "flush (\<lambda>m. m) (ag_agg ex_recorded) 60 120 = (init_from_config ex_config, [ex_batch])"
proof -
  have "init_from_config ex_config =
      [(\<lparr>pid_device = ''meter'', pid_point = ''voltage''\<rparr>, PointAgg_new ''V''),
       (\<lparr>pid_device = ''meter'', pid_point = ''power''\<rparr>, PointAgg_new ''W''),
       (\<lparr>pid_device = ''inverter'', pid_point = ''temp''\<rparr>, PointAgg_new ''Cel'')]"
    by (simp add: init_from_config_def ex_defs hm_insert_def)
  then show ?thesis
    by (simp add: ex_recorded_def ex_voltage_reading_def record_reading_def flush_def flush_entry_def
        PointAgg_new_def PointAgg_reset_def ex_batch_def ex_mean_def point_mean_def)
qed

definition ex_published :: queue_pipeline where
  "ex_published = ex_queued\<lparr>pl_readings := [],
     pl_agg := Some \<lparr>ag_agg = init_from_config ex_config, ag_window_end = 180, ag_deadline = dur_from_secs 90\<rparr>,
     pl_outbox := [], pl_batches := [],
     pl_events := [RecvReading ex_voltage_reading, SleepElapsed None], pl_offered := [ex_batch]\<rparr>"

lemma ex_published_reach: "pipe_reach ex_params ex_published"
proof -
  let ?st_fin = "\<lparr>ag_agg = init_from_config ex_config, ag_window_end = 180, ag_deadline = dur_from_secs 90\<rparr>"
  have w: "window_secs ex_params = 60" by (simp add: ex_params_def ex_config_def ex_gateway_def)
  have q: "pl_agg ex_queued = Some (pp_start ex_params)" "pl_outbox ex_queued = []" "pl_batches ex_queued = []"
    "pl_readings ex_queued = [ex_voltage_reading]" "pl_events ex_queued = []" "pl_offered ex_queued = []"
    by (simp_all add: ex_queued_def ex_polled_def pipe_init_def acted_def)
  define s1 where "s1 = ex_queued\<lparr>pl_readings := [], pl_agg := Some ex_recorded, pl_outbox := [],
    pl_events := [RecvReading ex_voltage_reading]\<rparr>"
  have "agg_step (pp_order ex_params) 60 (pp_start ex_params) (RecvReading ex_voltage_reading) = (AggRunning ex_recorded, [])"
    by (simp add: agg_step_def ex_recorded_def ex_params_def)
  then have "pipe_step ex_params ex_queued s1"
    using agg_recv [where s = ex_queued and P = ex_params and q = "[]" and r = ex_voltage_reading and out = "[]"
      and st = "pp_start ex_params" and st' = ex_recorded] q
    by (simp add: s1_def w)
  with ex_queued_reach have r1: "pipe_reach ex_params s1" by (rule pipe_reach.step)
  define s2 where "s2 = s1\<lparr>pl_agg := Some ?st_fin, pl_outbox := [ex_batch],
    pl_events := [RecvReading ex_voltage_reading, SleepElapsed None]\<rparr>"
  have "agg_step (pp_order ex_params) 60 ex_recorded (SleepElapsed None) = (AggRunning ?st_fin, [ex_batch])"
    using ex_flush
    by (simp add: agg_step_def agg_tick_def ex_recorded_def ex_params_def dur_from_secs_def inst_add_def inst_max_def nanos_per_sec_def Let_def)
  then have "pipe_step ex_params s1 s2"
    using agg_timer [where s = s1 and P = ex_params and st = ex_recorded and st' = ?st_fin and out = "[ex_batch]"] q by (simp add: s1_def s2_def w)
  with r1 have r2: "pipe_reach ex_params s2" by (rule pipe_reach.step)
  have "pipe_step ex_params s2 (s2\<lparr>pl_outbox := [], pl_batches := [ex_batch]\<rparr>)"
    using agg_send [where s = s2 and P = ex_params and b = ex_batch and bs = "[]" and q = "[ex_batch]"] q
    by (simp add: s2_def s1_def queue_send_def BATCH_CHANNEL_CAPACITY_def)
  with r2 have r3: "pipe_reach ex_params (s2\<lparr>pl_outbox := [], pl_batches := [ex_batch]\<rparr>)" by (rule pipe_reach.step)
  have "ex_published = (s2\<lparr>pl_outbox := [], pl_batches := [ex_batch]\<rparr>)\<lparr>pl_batches := [], pl_offered := [ex_batch]\<rparr>"
    using q by (simp add: ex_published_def s2_def s1_def)
  with publish [where s = "s2\<lparr>pl_outbox := [], pl_batches := [ex_batch]\<rparr>" and P = ex_params and b = ex_batch and q = "[]"] q
  have "pipe_step ex_params (s2\<lparr>pl_outbox := [], pl_batches := [ex_batch]\<rparr>) ex_published"
    by (simp add: s2_def s1_def)
  with r3 show ?thesis by (rule pipe_reach.step)
qed

lemma ex_starts: "starts ex_params (init_from_config ex_config) (dur_from_secs 90) 0"
  using ex_agg_start by (simp add: starts_def ex_params_def ex_config_def ex_gateway_def)

lemma ex_channels: "channels_ok ex_params"
  by (simp add: channels_ok_def ex_params_def queue_chan_ok)

section \<open>Properties\<close>

text \<open>C3: From the pollers to the publisher nothing gets lost on the way. In every state the gateway can
reach, however its tasks interleave and whichever pollers crash and are respawned: the readings
accepted from the pollers are, in order, those of the windows closed so far, those of the open window
and those still queued; the batches offered to the client, queued, or still to be sent are, in order,
exactly the batches of the closed windows; each poller's readings arrive in the order it sent them;
each was decoded from registers that a device of its connection returned; the queues stay within
their capacities.\<close>

theorem pipeline_conserves:
  assumes "channels_ok P" and "starts P agg now_unix now"
    and "pipe_reach P s"
  shows "map snd (pl_log s) = concat (map fst (pipe_windows P s)) @ open_window [] (pl_events s) @ queued_readings P s \<and>
    pl_offered s @ queued_batches P s @ pl_outbox s =
      concat (map (\<lambda>(rs, ws, we). snd (flush (pp_order P) (agg_of (agg_points agg) rs) ws we)) (pipe_windows P s)) \<and>
    (\<forall>i. log_of i s = pl_past s i @ sends (pl_done s i)) \<and>
    (\<forall>(i, r) \<in> set (pl_log s). measured P i r) \<and>
    length (queued_readings P s) \<le> READING_CHANNEL_CAPACITY \<and>
    length (queued_batches P s) \<le> BATCH_CHANNEL_CAPACITY"
proof -
  have inv: "pipe_inv P s" using assms(1,3) by (rule pipe_inv_reach)
  have "pollers_inv P s" using assms(3) by (rule pollers_inv_reach)
  with pipe_windows [OF assms(2) inv] inv show ?thesis
    by (auto simp: pollers_inv_def pipe_inv_def readings_inv_def batches_inv_def conserved_def window_batches_def
        split_beta)
qed

theorem pipeline_conserves_witness:
  "pl_offered ex_published = [ex_batch] \<and> measured ex_params 0 ex_voltage_reading \<and>
   concat (map fst (pipe_windows ex_params ex_published)) @ open_window [] (pl_events ex_published) @
     queued_readings ex_params ex_published = [ex_voltage_reading]"
  using pipeline_conserves [OF ex_channels ex_starts ex_published_reach]
  by (simp add: ex_published_def ex_queued_def)

text \<open>C4: The tasks never block each other: whenever a reading, a batch or a part of a flush is still on its
way, the aggregator or the publisher can move it, without any poller, timer or broker having to act
first.\<close>

theorem pipeline_never_stuck:
  assumes "channels_ok P" and "pipe_reach P s"
    and "queued_readings P s \<noteq> [] \<or> pl_outbox s \<noteq> [] \<or> queued_batches P s \<noteq> []"
  shows "\<exists>s'. moves P s s'"
  using assms(3) publish_moves [OF assms(1)] outbox_moves [OF assms(1)] recv_moves [OF assms(1)]
    pipe_inv_reach [OF assms(1,2)]
  unfolding pipe_inv_def by blast

theorem pipeline_never_stuck_witness:
  "\<exists>s'. moves ex_params ex_queued s'"
  by (rule pipeline_never_stuck [OF ex_channels ex_queued_reach]) (simp add: ex_queued_def)

text \<open>C5: A shutdown drains the pipeline. In every state that \<open>run\<close> can reach, in every phase and however it
got there, the batches made so far are exactly those offered to the client, queued, and still to be sent,
in this order. When \<open>run\<close> completes, the client has been offered every batch that was made and the aggregator
has taken every reading that was accepted. While it drains, the tasks make at most \<open>drain_steps\<close> steps without
a timer tick, none of which loses a batch, and whenever they have no such step left the pipeline is drained: so
every run of them that is given the time gets there. Only when the grace period passes first, or a task
failed, the batches queued and still to be sent are abandoned; nothing happens after that.\<close>

theorem pipeline_drains:
  assumes "channels_ok P" and "run_reach P (ph, s)"
  shows "made_batches P s = pl_offered s @ queued_batches P s @ pl_outbox s \<and>
    (ph = Complete \<longrightarrow> pl_offered s = made_batches P s \<and> readings (pl_events s) = map snd (pl_log s)) \<and>
    (ph = Draining \<longrightarrow>
       (\<forall>k s'. (pipe_step P ^^ k) s s' \<and> ticks (pl_events s') = ticks (pl_events s) \<longrightarrow>
          k + drain_steps P s' \<le> drain_steps P s \<and> made_batches P s' = made_batches P s) \<and>
       ((\<forall>s'. pipe_step P s s' \<longrightarrow> ticks (pl_events s') \<noteq> ticks (pl_events s)) \<longrightarrow> drained P s)) \<and>
    (ph \<in> {Complete, Abandoned, Failed} \<longrightarrow> \<not> (\<exists>x. run_step P (ph, s) x))"
proof -
  have reach: "pipe_reach P s" "pl_polling s \<longleftrightarrow> ph \<in> {Selecting, StoppingPollers False, StoppingPollers True}"
    "ph = Complete \<longrightarrow> drained P s" using run_reach_pipe [OF assms(2)] by auto
  have inv: "pipe_inv P s" using assms(1) reach(1) by (rule pipe_inv_reach)
  note made = made_in_flight [OF inv, unfolded in_flight_def]
  have complete: "pl_offered s = made_batches P s \<and> readings (pl_events s) = map snd (pl_log s)" if "ph = Complete"
    using reach(3) that inv made by (auto simp: drained_def pipe_inv_def readings_inv_def conserved_def)
  have path: "k + drain_steps P s' \<le> drain_steps P s \<and> made_batches P s' = made_batches P s"
    if "ph = Draining" "(pipe_step P ^^ k) s s'" "ticks (pl_events s') = ticks (pl_events s)" for k s'
  proof -
    have stopped: "\<not> pl_polling s" using reach(2) that(1) by simp
    have "pipe_inv P s'" using that(2) inv
    proof (induction k arbitrary: s')
      case (Suc k)
      then show ?case using pipe_inv_step [OF assms(1)] by auto
    qed simp
    with stopped_path [OF assms(1) that(2) inv stopped] that(3) show ?thesis
      by (simp add: made_in_flight inv)
  qed
  have stuck: "drained P s" if "ph = Draining" "\<forall>s'. pipe_step P s s' \<longrightarrow> ticks (pl_events s') \<noteq> ticks (pl_events s)"
  proof (rule ccontr)
    assume "\<not> drained P s"
    moreover have "\<not> pl_polling s" using reach(2) that(1) by simp
    ultimately obtain s' where "moves P s s'" using not_drained_moves [OF assms(1) inv] by blast
    with that(2) show False unfolding moves_def by blast
  qed
  have final: "\<not> (\<exists>x. run_step P (ph, s) x)" if "ph \<in> {Complete, Abandoned, Failed}"
    using that by (auto elim: run_stepE)
  show ?thesis using made complete path stuck final by blast
qed

theorem pipeline_drains_witness:
  "run_reach ex_params (Draining, ex_published\<lparr>pl_polling := False\<rparr>) \<and>
   made_batches ex_params (ex_published\<lparr>pl_polling := False\<rparr>) = [ex_batch]"
proof
  have "pl_polling ex_published" by (simp add: ex_published_def ex_queued_def ex_polled_def pipe_init_def acted_def)
  from run_next [OF pipe_reach_selecting [OF ex_published_reach this] run_shutdown]
  show reach: "run_reach ex_params (Draining, ex_published\<lparr>pl_polling := False\<rparr>)"
    by (rule run_next [OF _ run_stopped [where failed = False, simplified]])
  from pipeline_drains [OF ex_channels reach] show "made_batches ex_params (ex_published\<lparr>pl_polling := False\<rparr>) = [ex_batch]"
    by (simp add: ex_published_def)
qed

text \<open>C10: The pollers and the aggregator of a validated gateway panic for one reason only, as long as responses
have the length that was requested and the clock has room for the window: the backoff of a connection doubles
a delay of more than half the range of durations. Validation accepts such bounds; with a minimum like that
the first failed connect panics. So the aggregator starts; in every state the tasks can reach a poller that
had to be respawned has a configured bound of more than half the range, the aggregator is there as long as a
poller is, and no event can make it panic before its deadline is at the end of the clock.\<close>

theorem pipeline_panics_only_in_backoff:
  assumes "valid_config cenv (pp_config P)" and "channels_ok P"
    and "\<forall>i k. full_responses (pp_env P i k)"
    and "now_unix div nanos_per_sec + unat (window_secs P) < 2 ^ 64"
    and clock: "now + dur_from_secs (window_secs P) \<le> inst_max"
  shows "(\<exists>st. agg_start agg (window_secs P) now_unix now = Some st) \<and>
    (\<forall>i < length (conns P). \<forall>k n. fst (run_connection (pp_env P i k) (conns P ! i) n) = Crashed \<longrightarrow>
       (\<exists>p d. run_trace P i k n = p @ [ActBackoff d] \<and> dur_max < 2 * d \<and>
          d \<le> max (backoff_lo (conns P ! i)) (backoff_hi (conns P ! i)))) \<and>
    (\<forall>i < length (conns P). \<forall>k e. dur_max < 2 * backoff_lo (conns P ! i) \<and>
       connect (pp_env P i k) 0 (cn_transport (conns P ! i)) (io_timeout (conns P ! i)) = Inl e \<longrightarrow>
         fst (run_connection (pp_env P i k) (conns P ! i) 1) = Crashed) \<and>
    (\<forall>s. pipe_reach P s \<longrightarrow>
       (\<forall>i. pl_run s i \<noteq> 0 \<longrightarrow> dur_max < 2 * max (backoff_lo (conns P ! i)) (backoff_hi (conns P ! i))) \<and>
       (senders P s \<longrightarrow> pl_agg s \<noteq> None) \<and>
       (\<forall>st ev. pl_agg s = Some st \<and> ag_deadline st + dur_from_secs (window_secs P) \<le> inst_max \<longrightarrow>
          fst (agg_step (pp_order P) (window_secs P) st ev) \<noteq> AggPanicked))"
proof (intro conjI)
  have "window_secs P \<noteq> 0" using assms(1) by (simp add: valid_config_def)
  from next_boundary_aligned [OF this assms(4)] obtain wait b where
    "next_boundary now_unix (dur_from_secs (window_secs P)) = Some (wait, b)"
    "wait \<le> dur_from_secs (window_secs P)" .
  then show "\<exists>st. agg_start agg (window_secs P) now_unix now = Some st"
    using clock by (simp add: agg_start_def inst_add_def)
  note crash = poller_crash [OF assms(1,3)]
  show "\<forall>i < length (conns P). \<forall>k n. fst (run_connection (pp_env P i k) (conns P ! i) n) = Crashed \<longrightarrow>
       (\<exists>p d. run_trace P i k n = p @ [ActBackoff d] \<and> dur_max < 2 * d \<and>
          d \<le> max (backoff_lo (conns P ! i)) (backoff_hi (conns P ! i)))"
    using crash by blast
  show "\<forall>i < length (conns P). \<forall>k e. dur_max < 2 * backoff_lo (conns P ! i) \<and>
       connect (pp_env P i k) 0 (cn_transport (conns P ! i)) (io_timeout (conns P ! i)) = Inl e \<longrightarrow>
         fst (run_connection (pp_env P i k) (conns P ! i) 1) = Crashed"
    by (auto simp: run_connection_def conn_step_def conn_init_def backoff_wait_eq backoff_lo_def)
  have "dur_max < 2 * max (backoff_lo (conns P ! i)) (backoff_hi (conns P ! i))"
    if "pipe_reach P s" "pl_run s i \<noteq> 0" for s i
    using respawned_bound [OF assms(1,3) that] .
  moreover have "pl_agg s \<noteq> None" if "pipe_reach P s" "senders P s" for s
    using pipe_inv_reach [OF assms(2) that(1)] that(2) by (auto simp: pipe_inv_def agg_inv_def split: option.splits)
  moreover have "fst (agg_step (pp_order P) (window_secs P) st ev) \<noteq> AggPanicked"
    if "ag_deadline st + dur_from_secs (window_secs P) \<le> inst_max" for st ev
    using that by (auto simp: agg_step_def agg_tick_def inst_add_def Let_def
        split: agg_event.split option.split prod.split)
  ultimately show "\<forall>s. pipe_reach P s \<longrightarrow>
       (\<forall>i. pl_run s i \<noteq> 0 \<longrightarrow> dur_max < 2 * max (backoff_lo (conns P ! i)) (backoff_hi (conns P ! i))) \<and>
       (senders P s \<longrightarrow> pl_agg s \<noteq> None) \<and>
       (\<forall>st ev. pl_agg s = Some st \<and> ag_deadline st + dur_from_secs (window_secs P) \<le> inst_max \<longrightarrow>
          fst (agg_step (pp_order P) (window_secs P) st ev) \<noteq> AggPanicked)" by blast
qed

definition ex_full_params :: queue_params where
  "ex_full_params = ex_params\<lparr>pp_env := \<lambda>i k. ex_meter_env\<lparr>pe_read_registers := \<lambda>n u f s c. Inr (Inr (replicate (unat c) 0))\<rparr>\<rparr>"

theorem pipeline_panics_only_in_backoff_witness:
  "fst (run_connection (pp_env ex_full_params 0 0) (conns ex_full_params ! 0) 9) \<noteq> Crashed \<and>
   pl_agg (pipe_init ex_full_params) \<noteq> None"
proof -
  have config: "pp_config ex_full_params = ex_config" by (simp add: ex_full_params_def ex_params_def)
  then have valid: "valid_config ex_env (pp_config ex_full_params)" using ex_valid by simp
  have ch: "channels_ok ex_full_params"
    using ex_channels by (simp add: channels_ok_def ex_full_params_def ex_params_def)
  have full: "\<forall>i k. full_responses (pp_env ex_full_params i k)"
    by (simp add: full_responses_def ex_full_params_def)
  have now: "dur_from_secs 90 div nanos_per_sec + unat (window_secs ex_full_params) < 2 ^ 64"
    unfolding config by (simp add: dur_from_secs_def nanos_per_sec_def ex_config_def ex_gateway_def)
  have n: "0 < length (conns ex_full_params)" unfolding config by (simp add: ex_config_def)
  have senders: "senders ex_full_params (pipe_init ex_full_params)"
    unfolding senders_def config by (simp add: pipe_init_def ex_config_def)
  have clock: "0 + dur_from_secs (window_secs ex_full_params) \<le> inst_max"
    unfolding config by (simp add: dur_from_secs_def nanos_per_sec_def ex_config_def ex_gateway_def inst_max_def)
  note none = pipeline_panics_only_in_backoff [OF valid ch full now clock, of "[]"]
  have small: "2 * max (backoff_lo (conns ex_full_params ! 0)) (backoff_hi (conns ex_full_params ! 0)) \<le> dur_max"
    unfolding config by (simp add: ex_config_def ex_tcp_def backoff_lo_def backoff_hi_def
        dur_from_secs_def nanos_per_sec_def dur_max_def)
  have "fst (run_connection (pp_env ex_full_params 0 0) (conns ex_full_params ! 0) 9) \<noteq> Crashed"
  proof
    assume "fst (run_connection (pp_env ex_full_params 0 0) (conns ex_full_params ! 0) 9) = Crashed"
    with none n obtain d where "dur_max < 2 * d"
      "d \<le> max (backoff_lo (conns ex_full_params ! 0)) (backoff_hi (conns ex_full_params ! 0))" by blast
    with small show False by linarith
  qed
  moreover have "pl_agg (pipe_init ex_full_params) \<noteq> None"
    using none senders pipe_reach.start [of ex_full_params] by blast
  ultimately show ?thesis by blast
qed

end
