(* ===== verification/Reports.thy ===== *)
theory Reports
  imports Poller Status Mqtt "HOL-Library.Sublist"
begin

text \<open>
  The pollers of \<open>src/modbus/poller.rs\<close>, the event loop of \<open>src/mqtt.rs\<close> and the state of \<open>src/status.rs\<close>
  together: what the status shows of a connection after one of its ticks, and what it shows of the
  broker, whatever it showed before, however the events of other tasks fall in between and whichever
  events were lost on the way.
\<close>

section \<open>The events of a connection\<close>

definition reported :: "poll_action list \<Rightarrow> StatusEvent list" where
  "reported tr = List.map_filter (\<lambda>a. case a of ActReport ev \<Rightarrow> Some ev | _ \<Rightarrow> None) tr"

primrec event_conn :: "StatusEvent \<Rightarrow> string option" where
  "event_conn (ConnectionUp c) = Some c"
| "event_conn (ConnectionDown c) = Some c"
| "event_conn (DeviceOk c d) = Some c"
| "event_conn (DeviceProblem c d reason) = Some c"
| "event_conn MqttConnected = None"
| "event_conn MqttDisconnected = None"

text \<open>Of the connection \<open>c\<close> exactly the events of \<open>tr\<close> arrive, in order, among any others.\<close>

definition arrive :: "string \<Rightarrow> poll_action list \<Rightarrow> (StatusEvent \<times> 't) list \<Rightarrow> bool" where
  "arrive c tr hist \<longleftrightarrow> filter (\<lambda>ev. event_conn ev = Some c) (map fst hist) = reported tr"

lemma reported_simps [simp]:
  "reported [] = []" "reported (xs @ ys) = reported xs @ reported ys"
  "reported (ActReport ev # xs) = ev # reported xs"
  "(\<And>ev. a \<noteq> ActReport ev) \<Longrightarrow> reported (a # xs) = reported xs"
  by (simp_all add: reported_def List.map_filter_def split: poll_action.split)

lemma reported_concat: "reported (concat xss) = concat (map reported xss)"
  by (induction xss) simp_all

lemma reported_sublist: "sublist seg tr \<Longrightarrow> set (reported seg) \<subseteq> set (reported tr)"
  by (auto simp: sublist_def)

lemma filter_split:
  "filter P xs = us @ x # vs \<Longrightarrow> \<exists>pre post. xs = pre @ x # post \<and> filter P pre = us \<and> filter P post = vs"
proof (induction xs arbitrary: us)
  case (Cons y xs)
  show ?case
  proof (cases "P y \<and> us = []")
    case True
    with Cons.prems show ?thesis by (intro exI [of _ "[]"] exI [of _ xs]) simp
  next
    case False
    then have "filter P xs = (if P y then tl us else us) @ x # vs" "P y \<longrightarrow> us = y # tl us"
      using Cons.prems by (auto simp: Cons_eq_append_conv split: if_splits)
    moreover from Cons.IH [OF this(1)] obtain pre post where
      "xs = pre @ x # post" "filter P pre = (if P y then tl us else us)" "filter P post = vs" by blast
    ultimately show ?thesis by (intro exI [of _ "y # pre"] exI [of _ post]) auto
  qed
qed simp

lemma arriveE:
  assumes "arrive c tr hist" and "reported tr = evs @ ev # evs'"
  obtains pre t post where "hist = pre @ (ev, t) # post"
    and "filter (\<lambda>ev. event_conn ev = Some c) (map fst pre) = evs"
    and "filter (\<lambda>ev. event_conn ev = Some c) (map fst post) = evs'"
proof -
  let ?P = "\<lambda>x :: StatusEvent \<times> 'a. event_conn (fst x) = Some c"
  have "map fst (filter ?P hist) = evs @ ev # evs'"
    using assms by (simp add: arrive_def filter_map comp_def)
  then obtain us t vs where f: "filter ?P hist = us @ (ev, t) # vs" "map fst us = evs" "map fst vs = evs'"
    by (auto simp: map_eq_append_conv map_eq_Cons_conv)
  then obtain pre post where "hist = pre @ (ev, t) # post" "filter ?P pre = us" "filter ?P post = vs"
    using filter_split [of ?P hist us "(ev, t)" vs] by blast
  with f that [of pre t post] show thesis by (simp add: filter_map comp_def)
qed

section \<open>The last word on a device or a connection\<close>

text \<open>Events that can change what is shown of the device, and of the connection.\<close>

definition touches :: "string \<Rightarrow> string \<Rightarrow> StatusEvent \<Rightarrow> bool" where
  "touches c d ev \<longleftrightarrow> ev = ConnectionUp c \<or> ev = DeviceOk c d \<or> problem_of c d ev"

lemma health_untouched:
  "\<forall>ev \<in> fst ` set hist. \<not> touches c d ev \<Longrightarrow> health_of (apply_all st hist) c d = health_of st c d"
proof (induction hist arbitrary: st)
  case (Cons x hist)
  obtain ev t where x: "x = (ev, t)" by (cases x)
  have "health_of (fst (apply_event st ev t)) c d = health_of st c d"
    using Cons.prems by (cases ev) (auto simp: x health_of_apply touches_def)
  with Cons x show ?case by simp
qed simp

lemma known_device: "health_of (apply_all st hist) c d = None \<longleftrightarrow> health_of st c d = None"
proof (induction hist arbitrary: st)
  case (Cons x hist)
  obtain ev t where x: "x = (ev, t)" by (cases x)
  have "health_of (fst (apply_event st ev t)) c d = None \<longleftrightarrow> health_of st c d = None"
    by (cases ev) (simp_all add: health_of_apply)
  with Cons x show ?case by simp
qed simp

lemma known_connections: "up_of (apply_all st hist) c = None \<longleftrightarrow> up_of st c = None"
proof (induction hist arbitrary: st)
  case (Cons x hist)
  obtain ev t where x: "x = (ev, t)" by (cases x)
  have "health_of st c d \<noteq> None \<Longrightarrow> up_of st c \<noteq> None" for d
    by (cases "conn_of st c") (simp_all add: health_of_def up_of_def)
  then have "up_of (fst (apply_event st ev t)) c = None \<longleftrightarrow> up_of st c = None"
    by (cases ev) (auto simp: up_of_apply)
  with Cons x show ?case by simp
qed simp

lemma up_stays:
  "up_of st c = Some True \<Longrightarrow> ConnectionDown c \<notin> fst ` set hist \<Longrightarrow> up_of (apply_all st hist) c = Some True"
proof (induction hist arbitrary: st)
  case (Cons x hist)
  obtain ev t where x: "x = (ev, t)" by (cases x)
  have "up_of (fst (apply_event st ev t)) c = Some True"
    using Cons.prems by (cases ev) (auto simp: x up_of_apply)
  with Cons x show ?case by simp
qed simp

lemma up_unchanged:
  "\<forall>ev \<in> fst ` set hist. event_conn ev \<noteq> Some c \<Longrightarrow> up_of (apply_all st hist) c = up_of st c"
proof (induction hist arbitrary: st)
  case (Cons x hist)
  obtain ev t where x: "x = (ev, t)" by (cases x)
  have "up_of (fst (apply_event st ev t)) c = up_of st c"
    using Cons.prems by (cases ev) (auto simp: x up_of_apply)
  with Cons x show ?case by simp
qed simp

lemma apply_all_split:
  "apply_all st (pre @ (ev, t) # post) = apply_all (fst (apply_event (apply_all st pre) ev t)) post"
  by (simp add: apply_all_def)

lemma ok_shown:
  assumes "hist = pre @ (DeviceOk c d, t) # post" and "\<forall>ev \<in> fst ` set post. \<not> touches c d ev"
    and "ConnectionDown c \<notin> fst ` set post" and "health_of st c d \<noteq> None"
  shows "health_of (apply_all st hist) c d = Some HealthOk \<and> up_of (apply_all st hist) c = Some True"
proof -
  have "health_of (apply_all st pre) c d \<noteq> None" using assms(4) by (simp add: known_device)
  then show ?thesis
    unfolding assms(1) apply_all_split health_untouched [OF assms(2)]
    using up_stays [OF _ assms(3)] by (auto simp: health_of_apply up_of_apply)
qed

lemma problem_since_reason: "\<exists>since. problem_since reason now h = HealthProblem reason since"
  by (cases h) (simp_all add: problem_since_def)

lemma problem_shown:
  assumes "hist = pre @ (DeviceProblem c d reason, t) # post" and "\<forall>ev \<in> fst ` set post. \<not> touches c d ev"
    and "ConnectionDown c \<notin> fst ` set post" and "health_of st c d \<noteq> None"
  shows "(\<exists>since. health_of (apply_all st hist) c d = Some (HealthProblem reason since)) \<and>
    up_of (apply_all st hist) c = Some True"
proof -
  have "health_of (apply_all st pre) c d \<noteq> None" using assms(4) by (simp add: known_device)
  then show ?thesis
    unfolding assms(1) apply_all_split health_untouched [OF assms(2)]
    using up_stays [OF _ assms(3)] problem_since_reason [of reason t]
    by (auto simp: health_of_apply up_of_apply)
qed

lemma down_shown:
  assumes "hist = pre @ (ConnectionDown c, t) # post" and "\<forall>ev \<in> fst ` set post. event_conn ev \<noteq> Some c"
    and "up_of st c \<noteq> None"
  shows "up_of (apply_all st hist) c = Some False"
  using assms(3) known_connections [of st pre c]
  unfolding assms(1) apply_all_split up_unchanged [OF assms(2)] by (auto simp: up_of_apply)

section \<open>What a tick reports\<close>

text \<open>The event that ends the part of a tick that polls the device.\<close>

definition verdict :: "ConnectionConfig \<Rightarrow> DeviceConfig \<Rightarrow> StatusEvent \<Rightarrow> bool" where
  "verdict cfg d ev \<longleftrightarrow> ev = DeviceOk (cn_id cfg) (dv_id d) \<or> problem_of (cn_id cfg) (dv_id d) ev"

lemma silent_parts:
  "reported (frame_gap cfg) = []" "reported (request_part cfg d b res) = []"
  "list_all2 forwarded rs sends \<Longrightarrow> reported sends = []"
proof -
  show gap: "reported (frame_gap cfg) = []" by (simp add: frame_gap_def split: option.split)
  then show "reported (request_part cfg d b res) = []" by (simp add: request_part_def)
  show "list_all2 forwarded rs sends \<Longrightarrow> reported sends = []"
    by (induction rule: list_all2_induct) (auto simp: forwarded_def)
qed

lemma silent_words: "list_all2 (words_part cfg d) bs parts \<Longrightarrow> reported (concat parts) = []"
  by (induction rule: list_all2_induct) (auto simp: words_part_def silent_parts)

lemma device_reports:
  "device_ok_part cfg d seg \<Longrightarrow> reported seg = [DeviceOk (cn_id cfg) (dv_id d)]"
  "device_problem_part env cfg d seg \<Longrightarrow>
     \<exists>reason. reported seg = [DeviceProblem (cn_id cfg) (dv_id d) reason] \<and>
       last seg = ActReport (DeviceProblem (cn_id cfg) (dv_id d) reason)"
  by (auto simp: device_ok_part_def device_problem_part_def problem_part_def silent_words silent_parts)

lemma other_devices:
  assumes "list_all2 (\<lambda>d seg. device_ok_part cfg d seg \<or> device_problem_part env cfg d seg) ds segs"
    and "ev \<in> set (reported (concat segs))"
  shows "\<exists>d \<in> set ds. verdict cfg d ev"
  using assms
proof (induction rule: list_all2_induct)
  case (Cons d ds seg segs)
  then show ?case
    using device_reports(1) [of cfg d seg] device_reports(2) [of env cfg d seg]
    by (auto simp: verdict_def problem_of_def)
qed simp

lemma arrived: "ev \<in> fst ` set post \<Longrightarrow> event_conn ev = Some c \<Longrightarrow>
    ev \<in> set (filter (\<lambda>ev. event_conn ev = Some c) (map fst post))"
  by simp

lemma device_verdict_shown:
  assumes parts: "list_all2 (\<lambda>d seg. device_ok_part cfg d seg \<or> device_problem_part env cfg d seg) (cn_devices cfg) segs"
    and dist: "distinct (map dv_id (cn_devices cfg))" and d: "d \<in> set (cn_devices cfg)"
    and arr: "arrive (cn_id cfg) (concat segs) hist"
    and known: "health_of st (cn_id cfg) (dv_id d) \<noteq> None"
  shows "up_of (apply_all st hist) (cn_id cfg) = Some True \<and>
    (\<exists>seg. sublist seg (concat segs) \<and>
      (device_ok_part cfg d seg \<and> health_of (apply_all st hist) (cn_id cfg) (dv_id d) = Some HealthOk \<or>
       device_problem_part env cfg d seg \<and> (\<exists>reason since.
         last seg = ActReport (DeviceProblem (cn_id cfg) (dv_id d) reason) \<and>
         health_of (apply_all st hist) (cn_id cfg) (dv_id d) = Some (HealthProblem reason since))))"
proof -
  let ?c = "cn_id cfg"
  let ?part = "\<lambda>d seg. device_ok_part cfg d seg \<or> device_problem_part env cfg d seg"
  from d obtain ds1 ds2 where ds: "cn_devices cfg = ds1 @ d # ds2" by (meson split_list)
  with parts obtain segs1 seg segs2 where segs: "segs = segs1 @ seg # segs2" "?part d seg" "list_all2 ?part ds2 segs2"
    by (auto simp: list_all2_append1 list_all2_Cons1)
  obtain ev where ev: "reported seg = [ev]" "verdict cfg d ev"
    using segs(2) device_reports(1) [of cfg d seg] device_reports(2) [of env cfg d seg]
    by (auto simp: verdict_def)
  have "reported (concat segs) = reported (concat segs1) @ ev # reported (concat segs2)"
    by (simp add: segs(1) ev(1))
  from arriveE [OF arr this] obtain pre t post where hist: "hist = pre @ (ev, t) # post"
    and post: "filter (\<lambda>ev. event_conn ev = Some ?c) (map fst post) = reported (concat segs2)" by blast
  have other: "\<exists>d' \<in> set ds2. verdict cfg d' x" if "x \<in> fst ` set post" "event_conn x = Some ?c" for x
    using other_devices [OF segs(3)] arrived [OF that] unfolding post by blast
  have "dv_id d \<notin> dv_id ` set ds2" using dist by (simp add: ds)
  then have ne: "dv_id d' \<noteq> dv_id d" if "d' \<in> set ds2" for d' using that by (metis imageI)
  have "\<not> touches ?c (dv_id d) x \<and> x \<noteq> ConnectionDown ?c" if "x \<in> fst ` set post" for x
  proof (cases "event_conn x = Some ?c")
    case True
    with other [OF that] obtain d' where "d' \<in> set ds2" "verdict cfg d' x" by blast
    with ne [of d'] show ?thesis by (cases x) (auto simp: touches_def verdict_def problem_of_def)
  qed (auto simp: touches_def problem_of_def split: StatusEvent.splits)
  then have quiet: "\<forall>x \<in> fst ` set post. \<not> touches ?c (dv_id d) x" "ConnectionDown ?c \<notin> fst ` set post" by blast+
  have sub: "sublist seg (concat segs)" by (simp add: segs(1) sublist_appendI)
  show ?thesis
  proof (cases "device_ok_part cfg d seg")
    case True
    then have "ev = DeviceOk ?c (dv_id d)" using device_reports(1) [of cfg d seg] ev(1) by simp
    from ok_shown [OF hist [unfolded this] quiet known] sub True show ?thesis by blast
  next
    case False
    with segs(2) have bad: "device_problem_part env cfg d seg" by blast
    then obtain reason where r: "ev = DeviceProblem ?c (dv_id d) reason"
      "last seg = ActReport (DeviceProblem ?c (dv_id d) reason)"
      using device_reports(2) [of env cfg d seg] ev(1) by auto
    from problem_shown [OF hist [unfolded r(1)] quiet known] sub bad r(2) show ?thesis by blast
  qed
qed

section \<open>What the status shows of the broker\<close>

definition broker_events :: "(StatusEvent \<times> 't) list \<Rightarrow> StatusEvent list" where
  "broker_events hist = filter (\<lambda>ev. event_conn ev = None) (map fst hist)"

lemma broker_events_simps [simp]:
  "broker_events [] = []"
  "broker_events (hist @ [(ev, t)]) = (if event_conn ev = None then broker_events hist @ [ev] else broker_events hist)"
  by (simp_all add: broker_events_def)

lemma mqtt_untouched:
  "event_conn ev \<noteq> None \<Longrightarrow> ss_mqtt_connected (fst (apply_event st ev t)) = ss_mqtt_connected st"
  by (cases ev) (auto simp: apply_event_def set_health_def with_connection_def split: option.split prod.split)

text \<open>The last event about the broker that has arrived decides.\<close>

lemma broker_shown:
  "ss_mqtt_connected (apply_all st hist) \<longleftrightarrow>
     (if broker_events hist = [] then ss_mqtt_connected st else last (broker_events hist) = MqttConnected)"
proof (induction hist rule: rev_induct)
  case (snoc x hist)
  obtain ev t where x: "x = (ev, t)" by (cases x)
  show ?case
  proof (cases "event_conn ev")
    case None
    then show ?thesis by (cases ev) (simp_all add: x apply_all_def apply_event_def replace_def)
  next
    case (Some c)
    with mqtt_untouched [of ev "apply_all st hist" t] snoc.IH show ?thesis by (simp add: x apply_all_def)
  qed
qed (simp add: apply_all_def)

lemma outage_reports:
  "set evs \<subseteq> {PollError, OtherEvent} \<Longrightarrow>
     reports (snd (eventloop_run topic logged evs)) =
       replicate (length (filter (\<lambda>ev. ev = PollError) evs)) MqttDisconnected"
proof (induction evs arbitrary: logged)
  case (Cons ev evs)
  then show ?case by (cases ev) (simp_all add: eventloop_step_def case_prod_unfold)
qed simp

lemma connected_reports:
  "set evs \<subseteq> {OtherEvent} \<Longrightarrow> reports (snd (eventloop_run topic logged (ConnAck # evs))) = [MqttConnected]"
proof -
  assume evs: "set evs \<subseteq> {OtherEvent}"
  then have "filter (\<lambda>ev. ev = PollError) evs = []" by (auto simp: filter_empty_conv)
  moreover have "set evs \<subseteq> {PollError, OtherEvent}" using evs by auto
  ultimately show ?thesis
    using outage_reports [of evs topic False] by (simp add: eventloop_step_def case_prod_unfold)
qed

section \<open>Properties\<close>

text \<open>C16: Once the events of a tick have arrived the status shows what the tick found, whatever it showed
before (so events that were lost earlier do no lasting harm) and whatever other tasks report in
between. After a complete tick the connection is up and every device is shown as ok if all its blocks
were answered in that tick (the device ids of the connection being distinct), else with the problem that stopped it in that tick; after a tick that lost
the connection, the connection is down.\<close>

theorem status_after_tick:
  assumes "poll_tick env cfg w = (flow, w')" and "pw_trace w' = pw_trace w @ ActTick # acts"
    and "distinct (map dv_id (cn_devices cfg))"
    and "arrive (cn_id cfg) acts hist"
  shows "(flow = Continue \<longrightarrow>
      (\<forall>d \<in> set (cn_devices cfg). health_of st (cn_id cfg) (dv_id d) \<noteq> None \<longrightarrow>
        up_of (apply_all st hist) (cn_id cfg) = Some True \<and>
        (\<exists>seg. sublist seg acts \<and>
          (device_ok_part cfg d seg \<and> health_of (apply_all st hist) (cn_id cfg) (dv_id d) = Some HealthOk \<or>
           device_problem_part env cfg d seg \<and> (\<exists>reason since.
             last seg = ActReport (DeviceProblem (cn_id cfg) (dv_id d) reason) \<and>
             health_of (apply_all st hist) (cn_id cfg) (dv_id d) = Some (HealthProblem reason since)))))) \<and>
    (flow = Reconnect \<longrightarrow> up_of st (cn_id cfg) \<noteq> None \<longrightarrow>
      up_of (apply_all st hist) (cn_id cfg) = Some False)"
proof (intro conjI impI)
  assume "flow = Continue"
  then obtain segs where "pw_trace w' = pw_trace w @ ActTick # concat segs"
    and parts: "list_all2 (\<lambda>d seg. device_ok_part cfg d seg \<or> device_problem_part env cfg d seg) (cn_devices cfg) segs"
    using poll_devices_continue [of env cfg "cn_devices cfg" "emit [ActTick] w" w'] assms(1) by (auto simp: poll_tick_def)
  then have acts: "acts = concat segs" using assms(2) by simp
  from device_verdict_shown [OF parts assms(3) _ assms(4) [unfolded acts], folded acts]
  show "\<forall>d \<in> set (cn_devices cfg). health_of st (cn_id cfg) (dv_id d) \<noteq> None \<longrightarrow>
      up_of (apply_all st hist) (cn_id cfg) = Some True \<and>
      (\<exists>seg. sublist seg acts \<and>
        (device_ok_part cfg d seg \<and> health_of (apply_all st hist) (cn_id cfg) (dv_id d) = Some HealthOk \<or>
         device_problem_part env cfg d seg \<and> (\<exists>reason since.
           last seg = ActReport (DeviceProblem (cn_id cfg) (dv_id d) reason) \<and>
           health_of (apply_all st hist) (cn_id cfg) (dv_id d) = Some (HealthProblem reason since))))" by blast
next
  assume "flow = Reconnect" and known: "up_of st (cn_id cfg) \<noteq> None"
  then obtain p q where "pw_trace w @ ActTick # acts = p @ q @ [ActReport (ConnectionDown (cn_id cfg))]"
    using poll_tick_stops [OF assms(1)] unfolding assms(2) by auto
  then have "last (ActTick # acts) = ActReport (ConnectionDown (cn_id cfg))"
    by (metis append_assoc last_appendR last_snoc list.distinct(1))
  then obtain acts' where "acts = acts' @ [ActReport (ConnectionDown (cn_id cfg))]"
    by (cases acts rule: rev_cases) auto
  then have "reported acts = reported acts' @ ConnectionDown (cn_id cfg) # []" by simp
  from arriveE [OF assms(4) this] obtain pre t post where
    "hist = pre @ (ConnectionDown (cn_id cfg), t) # post"
    "filter (\<lambda>ev. event_conn ev = Some (cn_id cfg)) (map fst post) = []" by blast
  with known show "up_of (apply_all st hist) (cn_id cfg) = Some False"
    by (intro down_shown) (auto simp: filter_empty_conv)
qed

definition ex_hist :: "(StatusEvent \<times> nat) list" where
  "ex_hist = [(MqttConnected, 1), (DeviceProblem ''tcp'' ''meter'' ''timeout'', 2), (ConnectionDown ''rtu'', 3)]"

theorem status_after_tick_witness:
  "\<exists>w'. poll_tick (ex_poll_env\<lparr>pe_elapsed := \<lambda>n t. True\<rparr>) ex_tcp (snd (conn_init ex_tcp)) = (Continue, w') \<and>
     up_of (apply_all ex_status ex_hist) ''tcp'' = Some True \<and>
     (\<exists>since. health_of (apply_all ex_status ex_hist) ''tcp'' ''meter'' = Some (HealthProblem ''timeout'' since))"
proof -
  let ?env = "ex_poll_env\<lparr>pe_elapsed := \<lambda>n t. True\<rparr>"
  let ?acts = "[ActSetSlave (dv_unit_id ex_meter),
    ActRead (dv_unit_id ex_meter) (bk_function ex_block) (bk_start ex_block) (bk_count ex_block) Timeout,
    ActReport (DeviceProblem ''tcp'' ''meter'' ''timeout'')]"
  have ids: "cn_id ex_tcp = ''tcp''" "cn_devices ex_tcp = [ex_meter]" "dv_id ex_meter = ''meter''" by (simp_all add: ex_defs)
  obtain flow w' where t: "poll_tick ?env ex_tcp (snd (conn_init ex_tcp)) = (flow, w')" by fastforce
  then have run: "flow = Continue" "pw_trace w' = pw_trace (snd (conn_init ex_tcp)) @ ActTick # ?acts"
    by (auto simp: poll_tick_def poll_device_def poll_block_def read_block_def Let_def conn_init_def
        ex_tcp_def ex_meter_def ex_block_def inter_frame_delay_def)
  have arr: "arrive (cn_id ex_tcp) ?acts ex_hist" by (simp add: arrive_def ex_hist_def ids)
  have known: "health_of ex_status ''tcp'' ''meter'' \<noteq> None"
    by (simp add: health_of_def conn_of_def health_in_def ex_status_def StatusState_from_config_def StatusState_new_def ex_defs)
  have ok: "\<not> device_ok_part ex_tcp ex_meter seg" if "sublist seg ?acts" for seg
    using device_reports(1) [of ex_tcp ex_meter seg] reported_sublist [OF that] by (auto simp: ids)
  have bad: "reason = ''timeout''" if "sublist seg ?acts" "device_problem_part ?env ex_tcp ex_meter seg"
    "last seg = ActReport (DeviceProblem ''tcp'' ''meter'' reason)" for seg reason
    using device_reports(2) [OF that(2)] reported_sublist [OF that(1)] that(3) by (auto simp: ids)
  have "distinct (map dv_id (cn_devices ex_tcp))" by (simp add: ids)
  from status_after_tick [OF t run(2) this arr, of ex_status] run(1) known
  have up: "up_of (apply_all ex_status ex_hist) ''tcp'' = Some True"
    and "\<exists>seg. sublist seg ?acts \<and>
      (device_ok_part ex_tcp ex_meter seg \<and> health_of (apply_all ex_status ex_hist) ''tcp'' ''meter'' = Some HealthOk \<or>
       device_problem_part ?env ex_tcp ex_meter seg \<and> (\<exists>reason since.
         last seg = ActReport (DeviceProblem ''tcp'' ''meter'' reason) \<and>
         health_of (apply_all ex_status ex_hist) ''tcp'' ''meter'' = Some (HealthProblem reason since)))"
    by (simp_all add: ids)
  then have "\<exists>since. health_of (apply_all ex_status ex_hist) ''tcp'' ''meter'' = Some (HealthProblem ''timeout'' since)"
    using ok bad by blast
  with up t run(1) show ?thesis by blast
qed

text \<open>C37: What the status shows of the broker, when of the reports of the event loop any can be lost. If the
last one arrives the status shows the connectivity the loop saw last. While the broker is away every
attempt to reconnect is reported, so one of these reports is enough for the status to show it, whatever
was lost before. But the return of the broker is reported once: if that report is lost the status keeps
showing the broker as disconnected for as long as the connection lasts.\<close>

theorem status_shows_broker:
  assumes "subseq (broker_events hist) (reports (snd (eventloop_run topic logged evs)))"
  shows "(broker_events hist \<noteq> [] \<and> last (broker_events hist) = last (reports (snd (eventloop_run topic logged evs))) \<and>
      SentDisconnect \<notin> set evs \<longrightarrow>
      (ss_mqtt_connected (apply_all st hist) \<longleftrightarrow> last (List.map_filter connectivity evs) = MqttConnected)) \<and>
    (set evs \<subseteq> {PollError, OtherEvent} \<longrightarrow>
      length (reports (snd (eventloop_run topic logged evs))) = length (filter (\<lambda>ev. ev = PollError) evs) \<and>
      (broker_events hist \<noteq> [] \<longrightarrow> \<not> ss_mqtt_connected (apply_all st hist))) \<and>
    (\<forall>others. evs = ConnAck # others \<and> set others \<subseteq> {OtherEvent} \<longrightarrow>
      (ss_mqtt_connected (apply_all st hist) \<longleftrightarrow> ss_mqtt_connected st \<or> broker_events hist \<noteq> []))"
proof (intro conjI impI allI)
  assume "broker_events hist \<noteq> [] \<and> last (broker_events hist) = last (reports (snd (eventloop_run topic logged evs))) \<and>
      SentDisconnect \<notin> set evs"
  then show "ss_mqtt_connected (apply_all st hist) \<longleftrightarrow> last (List.map_filter connectivity evs) = MqttConnected"
    by (simp add: broker_shown eventloop_reports)
next
  assume away: "set evs \<subseteq> {PollError, OtherEvent}"
  note reps = outage_reports [OF away, of topic logged]
  show "length (reports (snd (eventloop_run topic logged evs))) = length (filter (\<lambda>ev. ev = PollError) evs)"
    by (simp add: reps)
  assume "broker_events hist \<noteq> []"
  moreover from this have "last (broker_events hist) \<in> set (reports (snd (eventloop_run topic logged evs)))"
    using list_emb_set [OF assms] last_in_set by metis
  ultimately show "\<not> ss_mqtt_connected (apply_all st hist)"
    by (auto simp: broker_shown reps)
next
  fix others assume connects: "evs = ConnAck # others \<and> set others \<subseteq> {OtherEvent}"
  then have "reports (snd (eventloop_run topic logged evs)) = [MqttConnected]" using connected_reports by blast
  with assms have "subseq (broker_events hist) [MqttConnected]" by simp
  then have "broker_events hist \<in> {[], [MqttConnected]}"
    by (cases "broker_events hist") (auto split: if_splits)
  then show "ss_mqtt_connected (apply_all st hist) \<longleftrightarrow> ss_mqtt_connected st \<or> broker_events hist \<noteq> []"
    by (auto simp: broker_shown)
qed

theorem status_shows_broker_witness:
  "\<not> ss_mqtt_connected (apply_all (ex_status\<lparr>ss_mqtt_connected := True\<rparr>) [(ConnectionUp ''tcp'', 7 :: nat), (MqttDisconnected, 8)]) \<and>
   \<not> ss_mqtt_connected (apply_all ex_status [(DeviceOk ''tcp'' ''meter'', 7)])"
proof -
  have away: "subseq (broker_events [(ConnectionUp ''tcp'', 7 :: nat), (MqttDisconnected, 8)])
      (reports (snd (eventloop_run ''t'' False [PollError, OtherEvent, PollError])))"
    by (simp add: broker_events_def eventloop_step_def)
  have lost: "subseq (broker_events [(DeviceOk ''tcp'' ''meter'', 7 :: nat)])
      (reports (snd (eventloop_run ''t'' True [ConnAck, OtherEvent, OtherEvent])))"
    by (simp add: broker_events_def)
  have "broker_events [(ConnectionUp ''tcp'', 7 :: nat), (MqttDisconnected, 8)] \<noteq> []"
    "broker_events [(DeviceOk ''tcp'' ''meter'', 7 :: nat)] = []" by (simp_all add: broker_events_def)
  moreover have "\<not> ss_mqtt_connected ex_status"
    by (simp add: ex_status_def StatusState_from_config_def StatusState_new_def)
  ultimately show ?thesis
    using status_shows_broker [OF away, of "ex_status\<lparr>ss_mqtt_connected := True\<rparr>"] status_shows_broker [OF lost, of ex_status]
    by simp
qed

end
