(* ===== verification/Wire.thy ===== *)
theory Wire
  imports Pipeline
begin

text \<open>
  From the windows of the aggregator to what the MQTT client is given: the tasks of \<open>Pipeline\<close>, the
  publisher of \<open>src/mqtt.rs\<close> and the encoder of \<open>src/senml.rs\<close> together, up to the records that a
  receiver resolves from the packs.
\<close>

section \<open>Packs\<close>

text \<open>The JSON of a batch's pack, and the records that a receiver resolves from a pack.\<close>

definition pack_of :: "(unit_counts \<Rightarrow> unit_counts) \<Rightarrow> string \<Rightarrow> AggregatedBatch \<Rightarrow> json list" where
  "pack_of order base_name_prefix batch = map SenmlRecord_json (senml_records order batch base_name_prefix)"

definition resolved_pack :: "json list \<Rightarrow> resolved list" where
  "resolved_pack pack = resolve '''' None 0 (map json_fields pack)"

lemma resolved_pack_of: "resolved_pack (pack_of order pre b) = map (expected pre b) (ab_points b)"
  using resolve_pack [of order b pre] by (simp add: resolved_pack_def pack_of_def)

text \<open>Topic and payload of everything the publisher offers to the client.\<close>

definition offers :: "mqtt_action list \<Rightarrow> (string \<times> string) list" where
  "offers out = List.map_filter (\<lambda>a. case a of TryPublish topic q retain payload result \<Rightarrow> Some (topic, payload) | _ \<Rightarrow> None) out"

lemma offers_simps [simp]:
  "offers [] = []" "offers (xs @ ys) = offers xs @ offers ys"
  "offers (TryPublish topic q retain payload result # xs) = (topic, payload) # offers xs"
  "(\<And>topic q retain payload result. a \<noteq> TryPublish topic q retain payload result) \<Longrightarrow> offers (a # xs) = offers xs"
  by (simp_all add: offers_def List.map_filter_def split: mqtt_action.split)

lemma publisher_offers:
  assumes "qos env (mq_qos mqtt) = Inr q"
  shows "\<exists>out. run_publisher env to_vec order options mqtt gateway input queued = (Inr (), out) \<and>
    offers out = map (\<lambda>b. (batch_topic (mq_topic_template mqtt) (ab_device_id b),
      to_vec (JArray (pack_of order (gw_base_name_prefix gateway) b)))) (map fst input)"
proof -
  have "offers (concat (map (\<lambda>(batch, result). publish_batch enc q mqtt batch result) input)) =
      map (\<lambda>b. (batch_topic (mq_topic_template mqtt) (ab_device_id b), enc b)) (map fst input)" for enc
    by (induction input) (auto simp: publish_batch_def split: publish_result.split)
  then show ?thesis
    by (simp add: run_publisher_def assms Let_def finish_publisher_def encode_senml_def pack_of_def)
qed

lemma concat_map_concat: "concat (map f (concat xss)) = concat (map (\<lambda>xs. concat (map f xs)) xss)"
  by (induction xss) simp_all

lemma mset_concat_map_cong:
  "(\<And>x. x \<in> set xs \<Longrightarrow> mset (f x) = mset (g x)) \<Longrightarrow> mset (concat (map f xs)) = mset (concat (map g xs))"
  by (induction xs) simp_all

section \<open>The records of a window\<close>

text \<open>What a window has to say of a point with its unit: the mean of the samples it has of it.\<close>

definition point_record :: "string \<Rightarrow> Reading list \<Rightarrow> u64 \<Rightarrow> PointId \<times> string \<Rightarrow> resolved" where
  "point_record base_name_prefix rs ws = (\<lambda>(pid, u).
     \<lparr>rs_name = base_name_prefix @ pid_device pid @ '':'' @ pid_point pid, rs_unit = Some u,
      rs_time = unat ws, rs_value = Some (JDouble (mean_of (samples rs pid)))\<rparr>)"

definition window_records ::
  "string \<Rightarrow> (PointId \<times> string) list \<Rightarrow> Reading list \<times> u64 \<times> u64 \<Rightarrow> resolved list" where
  "window_records base_name_prefix pts = (\<lambda>(rs, ws, we).
     map (point_record base_name_prefix rs ws) (filter (\<lambda>(pid, u). samples rs pid \<noteq> []) pts))"

lemma mset_by_key:
  "distinct ks \<Longrightarrow> (\<And>x. x \<in> set xs \<Longrightarrow> f x \<in> set ks) \<Longrightarrow>
     mset (concat (map (\<lambda>k. filter (\<lambda>x. f x = k) xs) ks)) = mset xs"
proof (induction ks arbitrary: xs)
  case Nil
  then show ?case by (cases xs) auto
next
  case (Cons k ks)
  let ?rest = "filter (\<lambda>x. f x \<noteq> k) xs"
  have "filter (\<lambda>x. f x = k') ?rest = filter (\<lambda>x. f x = k') xs" if "k' \<in> set ks" for k'
    using that Cons.prems(1) by (auto intro!: filter_cong)
  then have same: "map (\<lambda>k'. filter (\<lambda>x. f x = k') ?rest) ks = map (\<lambda>k'. filter (\<lambda>x. f x = k') xs) ks"
    by (rule map_cong [OF refl])
  have "mset (concat (map (\<lambda>k'. filter (\<lambda>x. f x = k') ?rest) ks)) = mset ?rest"
    using Cons.prems by (intro Cons.IH) auto
  then have "mset (concat (map (\<lambda>k'. filter (\<lambda>x. f x = k') xs) ks)) = filter_mset (\<lambda>x. f x \<noteq> k) (mset xs)"
    unfolding same by simp
  then show ?case using multiset_partition [of "mset xs" "\<lambda>x. f x = k"] by simp
qed

lemma window_packs:
  assumes order: "\<And>m. mset (order m) = mset m" and len: "length rs < 2 ^ 32"
  shows "mset (concat (map (\<lambda>b. map (expected pre b) (ab_points b)) (window_batches order pts (rs, ws, we)))) =
    mset (window_records pre pts (rs, ws, we))"
proof -
  obtain agg' batches where f: "(agg', batches) = flush order (agg_of pts rs) ws we" by (metis surj_pair)
  then have bs: "window_batches order pts (rs, ws, we) = batches" by (simp add: window_batches_def flip: f)
  note fl = flush_batches [OF order f, unfolded batch_points_window [OF len]]
  let ?live = "filter (\<lambda>(pid, u). samples rs pid \<noteq> []) pts"
  let ?dev = "\<lambda>x :: PointId \<times> string. pid_device (fst x)"
  have pts: "map (expected pre b) (ab_points b) = map (point_record pre rs ws) (filter (\<lambda>x. ?dev x = ab_device_id b) ?live)"
    if "b \<in> set batches" for b
  proof -
    have b: "ab_points b = window_points pts rs (ab_device_id b)" "ab_window_start b = ws"
      using fl(2) [of b] that by (metis AggregatedBatch.select_convs)+
    show ?thesis
      unfolding b(1) window_points_def map_map filter_filter
      by (intro map_cong filter_cong) (auto simp: expected_def point_record_def b(2))
  qed
  have dev: "?dev x \<in> set (map ab_device_id batches)" if "x \<in> set ?live" for x
  proof -
    have "window_points pts rs (?dev x) \<noteq> []" using that by (force simp: window_points_def filter_empty_conv)
    then have "\<lparr>ab_device_id = ?dev x, ab_window_start = ws, ab_window_end = we,
        ab_points = window_points pts rs (?dev x)\<rparr> \<in> set batches" by (subst fl(2)) simp
    then show ?thesis by force
  qed
  have "concat (map (\<lambda>b. map (expected pre b) (ab_points b)) batches) =
      map (point_record pre rs ws) (concat (map (\<lambda>d. filter (\<lambda>x. ?dev x = d) ?live) (map ab_device_id batches)))"
    using pts by (simp add: map_concat comp_def cong: map_cong)
  moreover have "mset (concat (map (\<lambda>d. filter (\<lambda>x. ?dev x = d) ?live) (map ab_device_id batches))) = mset ?live"
    by (rule mset_by_key [OF fl(1)]) (rule dev)
  ultimately show ?thesis by (simp add: bs window_records_def)
qed

section \<open>Properties\<close>

text \<open>C2: What reaches the MQTT client is what was measured. After a shutdown has drained the pipeline the
publisher has offered, each on the topic of its device, packs from which a receiver resolves by RFC
8428, taking all packs together, exactly one record for every closed window and every configured point
with a reading in it: named prefix, device and point, with the point's unit, the start of the window
as its time and the mean of exactly its readings in that window as its value. No other record is sent,
whatever the client answers and in whatever order the maps are iterated.\<close>

theorem packs_resolve_to_windows:
  assumes "channels_ok P" and start: "starts P agg now_unix now" and "pipe_reach P s" and "drained P s"
    and order: "\<And>m. mset (pp_order P m) = mset m"
    and len: "\<forall>(rs, ws, we) \<in> set (pipe_windows P s). length rs < 2 ^ 32"
    and q: "qos env (mq_qos (cf_mqtt (pp_config P))) = Inr q"
    and input: "map fst input = pl_offered s"
  shows "\<exists>out packs. run_publisher env to_vec unit_order options (cf_mqtt (pp_config P)) (cf_gateway (pp_config P))
        input queued = (Inr (), out) \<and>
    offers out = map (\<lambda>(device, pack). (batch_topic (mq_topic_template (cf_mqtt (pp_config P))) device,
      to_vec (JArray pack))) packs \<and>
    mset (concat (map (resolved_pack \<circ> snd) packs)) = mset (concat (map
      (window_records (gw_base_name_prefix (cf_gateway (pp_config P))) (agg_points agg)) (pipe_windows P s))) \<and>
    distinct (map fst (agg_points agg)) \<and>
    (\<forall>pid u. (pid, u) \<in> set (agg_points agg) \<longleftrightarrow> map_of (rev (config_points (pp_config P))) pid = Some u)"
proof -
  let ?pre = "gw_base_name_prefix (cf_gateway (pp_config P))"
  let ?pts = "agg_points agg"
  let ?packs = "map (\<lambda>b. (ab_device_id b, pack_of unit_order ?pre b)) (pl_offered s)"
  have offered: "pl_offered s = concat (map (window_batches (pp_order P) ?pts) (pipe_windows P s))"
    using pipe_windows(1) [OF start pipe_inv_reach [OF assms(1,3)]] assms(4) by (simp add: drained_def)
  have "concat (map (resolved_pack \<circ> snd) ?packs) = concat (map (\<lambda>b. map (expected ?pre b) (ab_points b)) (pl_offered s))"
    by (simp add: comp_def resolved_pack_of)
  then have flat: "concat (map (resolved_pack \<circ> snd) ?packs) = concat (map (\<lambda>w. concat (map
      (\<lambda>b. map (expected ?pre b) (ab_points b)) (window_batches (pp_order P) ?pts w))) (pipe_windows P s))"
    unfolding offered concat_map_concat map_map comp_def .
  have window: "mset (concat (map (\<lambda>b. map (expected ?pre b) (ab_points b)) (window_batches (pp_order P) ?pts w))) =
      mset (window_records ?pre ?pts w)" if "w \<in> set (pipe_windows P s)" for w
  proof -
    obtain rs ws we where w: "w = (rs, ws, we)" by (cases w)
    with len that have "length rs < 2 ^ 32" by blast
    from window_packs [OF order this] show ?thesis unfolding w .
  qed
  have records: "mset (concat (map (resolved_pack \<circ> snd) ?packs)) =
      mset (concat (map (window_records ?pre ?pts) (pipe_windows P s)))"
    unfolding flat by (rule mset_concat_map_cong) (rule window)
  obtain out where out: "run_publisher env to_vec unit_order options (cf_mqtt (pp_config P)) (cf_gateway (pp_config P))
        input queued = (Inr (), out)"
    "offers out = map (\<lambda>(device, pack). (batch_topic (mq_topic_template (cf_mqtt (pp_config P))) device,
      to_vec (JArray pack))) ?packs"
    using publisher_offers [OF q, of to_vec unit_order options "cf_gateway (pp_config P)" input queued]
    by (auto simp: input comp_def)
  have "mset agg = mset (init_from_config (pp_config P))" using start by (simp add: starts_def)
  note pts = init_agg_points(2) [OF this] init_agg_points(3) [OF this]
  show ?thesis
    by (rule exI [of _ out], rule exI [of _ ?packs]) (intro conjI allI out records pts)
qed

definition ex_drained :: queue_pipeline where
  "ex_drained = ex_published\<lparr>pl_polling := False, pl_agg := None\<rparr>"

lemma ex_drained_reach: "pipe_reach ex_params ex_drained"
proof -
  let ?s = "ex_published\<lparr>pl_polling := False\<rparr>"
  have "pl_polling ex_published"
    by (simp add: ex_published_def ex_queued_def ex_polled_def pipe_init_def acted_def)
  then have "pipe_reach ex_params ?s" by (rule pipe_reach.step [OF ex_published_reach stop_polling])
  moreover have "pipe_step ex_params ?s (?s\<lparr>pl_agg := None, pl_outbox := []\<rparr>)"
    by (rule agg_close) (simp_all add: senders_def ex_published_def agg_step_def)
  moreover have "?s\<lparr>pl_agg := None, pl_outbox := []\<rparr> = ex_drained"
    by (simp add: ex_drained_def ex_published_def)
  ultimately show ?thesis by (metis pipe_reach.step)
qed

theorem packs_resolve_to_windows_witness:
  "\<exists>packs :: (string \<times> json list) list. mset (concat (map (resolved_pack \<circ> snd) packs)) =
     {#\<lparr>rs_name = gw_base_name_prefix ex_gateway @ ''meter:voltage'', rs_unit = Some ''V'', rs_time = 60,
        rs_value = Some (JDouble (mean_of [f64_of_int 230]))\<rparr>#}"
proof -
  have wins: "pipe_windows ex_params ex_drained = [([ex_voltage_reading], 60, 120)]"
    by (simp add: pipe_windows_def ex_drained_def ex_published_def ex_params_def ex_config_def ex_gateway_def)
  have pts: "agg_points (init_from_config ex_config) = [(\<lparr>pid_device = ''meter'', pid_point = ''voltage''\<rparr>, ''V''),
      (\<lparr>pid_device = ''meter'', pid_point = ''power''\<rparr>, ''W''), (\<lparr>pid_device = ''inverter'', pid_point = ''temp''\<rparr>, ''Cel'')]"
    by (simp add: agg_points_def init_from_config_def ex_defs hm_insert_def PointAgg_new_def)
  have recs: "concat (map (window_records pre (agg_points (init_from_config ex_config))) (pipe_windows ex_params ex_drained)) =
      [\<lparr>rs_name = pre @ ''meter:voltage'', rs_unit = Some ''V'', rs_time = 60,
        rs_value = Some (JDouble (mean_of [f64_of_int 230]))\<rparr>]" for pre
    by (simp add: wins pts window_records_def point_record_def samples_def ex_voltage_reading_def)
  have dr: "drained ex_params ex_drained"
    by (simp add: drained_def ex_drained_def ex_published_def)
  have order: "\<And>m. mset (pp_order ex_params m) = mset m" by (simp add: ex_params_def)
  have len: "\<forall>(rs, ws, we) \<in> set (pipe_windows ex_params ex_drained). length rs < 2 ^ 32" by (simp add: wins)
  have q: "qos ex_mqtt_env (mq_qos (cf_mqtt (pp_config ex_params))) = Inr AtLeastOnce"
    by (simp add: qos_def ex_mqtt_env_def ex_params_def ex_config_def ex_mqtt_def)
  have input: "map fst [(ex_batch, PublishOk)] = pl_offered ex_drained"
    by (simp add: ex_drained_def ex_published_def)
  have pre: "gw_base_name_prefix (cf_gateway (pp_config ex_params)) = gw_base_name_prefix ex_gateway"
    by (simp add: ex_params_def ex_config_def)
  obtain packs :: "(string \<times> json list) list" where "mset (concat (map (resolved_pack \<circ> snd) packs)) = mset (concat (map
      (window_records (gw_base_name_prefix (cf_gateway (pp_config ex_params))) (agg_points (init_from_config ex_config)))
      (pipe_windows ex_params ex_drained)))"
    using packs_resolve_to_windows [OF ex_channels ex_starts ex_drained_reach dr order len q input,
      where to_vec = "\<lambda>j. ''[]''" and unit_order = "\<lambda>m. m" and queued = "(True, True)"
        and options = "projr (the (build_mqtt_options ex_mqtt_env ex_mqtt ''gw1'' ''secret''))"]
    by blast
  then show ?thesis unfolding recs pre by (intro exI [of _ packs]) simp
qed

end
