(* ===== verification/Test_Prelude.thy ===== *)
theory Test_Prelude
  imports F64 "HOL-Library.Multiset"
begin

text \<open>
  Shared by the theories \<open>Test_*\<close>: the equations by which the simplifier evaluates arithmetic on
  concrete doubles, and what a permutation can do to lists of one and of two elements (the iteration
  order of a Rust \<open>HashMap\<close> is a parameter of the model).
\<close>

lemmas f64_eval = f64_of_int_def f64_of_f32_bits_def f64_one_def f64_round_def rnd_exp_def rne_def f64_pack_def
  nbits.simps signed_units_def Let_def

text \<open>Arithmetic on integers that a double holds exactly is arithmetic on integers.\<close>

lemma f64_of_int_not_NaN: "\<bar>i\<bar> \<le> 2 ^ 53 \<Longrightarrow> f64_of_int i \<noteq> F64_NaN"
  by (rule f64_of_int_Fin [of i]) auto

lemma f64_add_zero_of_int: "\<bar>i\<bar> \<le> 2 ^ 53 \<Longrightarrow> f64_add f64_zero (f64_of_int i) = f64_of_int i"
  using f64_add_of_int [of 0 i] by (simp add: f64_of_int_0)

lemma f64_lt_of_int:
  "\<bar>a\<bar> \<le> 2 ^ 53 \<Longrightarrow> \<bar>b\<bar> \<le> 2 ^ 53 \<Longrightarrow> f64_lt (f64_of_int a) (f64_of_int b) \<longleftrightarrow> a < b"
  using f64_lt_val [of "f64_of_int a" "f64_of_int b"] by (simp add: f64_of_int)

lemma f64_lt_Inf_of_int:
  assumes "\<bar>i\<bar> \<le> 2 ^ 53"
  shows "f64_lt (F64_Inf s) (f64_of_int i) \<longleftrightarrow> s" and "f64_lt (f64_of_int i) (F64_Inf s) \<longleftrightarrow> \<not> s"
  by (rule f64_of_int_Fin [OF assms], simp)+

lemmas f64_int_eval = f64_of_int_not_NaN f64_add_zero_of_int f64_add_of_int f64_lt_of_int f64_lt_Inf_of_int
  f64_min_def f64_max_def

lemma perm_single:
  assumes "mset (p [x]) = mset [x]"
  shows "p [x] = [x]"
  using assms by simp

lemma perm_pair:
  assumes "mset (p [x, y]) = mset [x, y]"
  shows "p [x, y] = [x, y] \<or> p [x, y] = [y, x]"
proof (cases "p [x, y]")
  case Nil
  with assms show ?thesis by simp
next
  case (Cons a ys)
  then have "length ys = 1" using arg_cong [OF assms, of size] by simp
  then obtain b where "ys = [b]" by (cases ys) auto
  with assms Cons show ?thesis by (auto simp: add_eq_conv_ex)
qed

end
