(* ===== verification/Test_Aggregator.thy ===== *)
theory Test_Aggregator
  imports Aggregator Test_Prelude
begin

text \<open>
  The unit tests of \<open>src/aggregator.rs\<close>, each as the assertion it makes, with a proof that the model
  satisfies it. \<open>order\<close> is the iteration order of the map of devices. The tests of the task are the
  events that their calls and their paused clock produce.
\<close>

section \<open>Fixtures\<close>

definition test_point_id :: "string \<Rightarrow> string \<Rightarrow> PointId" where
  "test_point_id device point = \<lparr>pid_device = device, pid_point = point\<rparr>"

definition test_reading :: "string \<Rightarrow> string \<Rightarrow> int \<Rightarrow> Reading" where
  "test_reading device point i = \<lparr>rd_point_id = test_point_id device point, rd_value = f64_of_int i\<rparr>"

definition one_point_agg :: agg_map where
  "one_point_agg = [(test_point_id ''d1'' ''p1'', PointAgg_new ''V'')]"

section \<open>The tests\<close>

definition next_boundary_aligns_to_window_multiple :: bool where
  "next_boundary_aligns_to_window_multiple \<longleftrightarrow>
     next_boundary (dur_from_secs 90) (dur_from_secs 60) = Some (dur_from_secs 30, 120)"

definition record_accumulates_sum_count_min_max :: bool where
  "record_accumulates_sum_count_min_max \<longleftrightarrow>
     (let agg = foldl record_reading one_point_agg
            [test_reading ''d1'' ''p1'' 10, test_reading ''d1'' ''p1'' 20, test_reading ''d1'' ''p1'' 5]
      in case hm_get agg (test_point_id ''d1'' ''p1'') of
           None \<Rightarrow> False
         | Some p \<Rightarrow> pa_count p = 3 \<and> pa_sum p = f64_of_int 35 \<and> pa_min p = f64_of_int 5 \<and> pa_max p = f64_of_int 20)"

definition readings_for_unknown_point_id_are_ignored :: bool where
  "readings_for_unknown_point_id_are_ignored \<longleftrightarrow>
     (case hm_get (record_reading one_point_agg (test_reading ''d1'' ''unknown'' 10)) (test_point_id ''d1'' ''p1'') of
        None \<Rightarrow> False
      | Some p \<Rightarrow> pa_count p = 0)"

definition flush_drops_zero_count_points_and_omits_empty_device_batches :: "device_order \<Rightarrow> bool" where
  "flush_drops_zero_count_points_and_omits_empty_device_batches order \<longleftrightarrow>
     (let agg = [(test_point_id ''d1'' ''p1'', PointAgg_new ''V''), (test_point_id ''d2'' ''p2'', PointAgg_new ''A'')];
          (_, batches) = flush order (record_reading agg (test_reading ''d1'' ''p1'' 42)) 0 60
      in length batches = 1 \<and> ab_device_id (batches ! 0) = ''d1'' \<and> length (ab_points (batches ! 0)) = 1 \<and>
         ap_mean (ab_points (batches ! 0) ! 0) = f64_of_int 42)"

definition flush_computes_mean_and_resets_for_next_window :: "device_order \<Rightarrow> bool" where
  "flush_computes_mean_and_resets_for_next_window order \<longleftrightarrow>
     (let agg = foldl record_reading one_point_agg [test_reading ''d1'' ''p1'' 10, test_reading ''d1'' ''p1'' 20];
          (agg', batches) = flush order agg 0 60;
          (_, batches') = flush order agg' 60 120
      in batches \<noteq> [] \<and> ap_mean (ab_points (batches ! 0) ! 0) = f64_of_int 15 \<and> batches' = [])"

definition concurrent_devices_do_not_cross_contaminate :: "device_order \<Rightarrow> bool" where
  "concurrent_devices_do_not_cross_contaminate order \<longleftrightarrow>
     (let agg = [(test_point_id ''d1'' ''temperature'', PointAgg_new ''Cel''),
                 (test_point_id ''d2'' ''temperature'', PointAgg_new ''Cel'')];
          agg' = foldl record_reading agg [test_reading ''d1'' ''temperature'' 21, test_reading ''d2'' ''temperature'' 99];
          (_, batches) = flush order agg' 0 60;
          by_device = map_of (map (\<lambda>b. (ab_device_id b, ap_mean (ab_points b ! 0))) batches)
      in by_device ''d1'' = Some (f64_of_int 21) \<and> by_device ''d2'' = Some (f64_of_int 99))"

text \<open>The first tick is 30 s late; the second must be due 120 s after the start.\<close>

definition window_boundaries_stay_drift_free_across_a_late_tick :: "device_order \<Rightarrow> instant \<Rightarrow> bool" where
  "window_boundaries_stay_drift_free_across_a_late_tick order start \<longleftrightarrow>
     (case agg_start one_point_agg 60 (dur_from_secs 0) start of
        None \<Rightarrow> False
      | Some st \<Rightarrow>
          (case agg_run order 60 st [RecvReading (test_reading ''d1'' ''p1'' 1), SleepElapsed None,
                RecvReading (test_reading ''d1'' ''p1'' 2)] of
             (AggRunning st', batches) \<Rightarrow>
               map (\<lambda>b. (ab_window_start b, ab_window_end b)) batches = [(0, 60)] \<and>
               ag_deadline st' = start + dur_from_secs 120 \<and>
               map (\<lambda>b. (ab_window_start b, ab_window_end b)) (snd (agg_step order 60 st' (SleepElapsed None))) = [(60, 120)]
           | _ \<Rightarrow> False))"

definition aggregator_stops_when_reading_channel_closes :: "device_order \<Rightarrow> instant \<Rightarrow> bool" where
  "aggregator_stops_when_reading_channel_closes order now \<longleftrightarrow>
     (case agg_start [] 60 (dur_from_secs 0) now of
        None \<Rightarrow> False
      | Some st \<Rightarrow> agg_run order 60 st [RecvClosed] = (AggReturned, []))"

section \<open>The model passes them\<close>

lemmas aggregator_eval = one_point_agg_def test_reading_def test_point_id_def record_reading_def PointAgg_new_def
  PointAgg_reset_def hm_get_def hm_modify_def hm_entry_def hm_insert_def flush_def flush_entry_def point_mean_def

lemma means_of_the_tests:
  "f64_div (f64_of_int 42) (f64_of_int 1) = f64_of_int 42" "f64_div (f64_of_int 30) (f64_of_int 2) = f64_of_int 15"
  "f64_div (f64_of_int 21) (f64_of_int 1) = f64_of_int 21" "f64_div (f64_of_int 99) (f64_of_int 1) = f64_of_int 99"
  by (simp_all add: f64_eval)

lemma aggregator_record_tests_pass:
  shows next_boundary_aligns_to_window_multiple and record_accumulates_sum_count_min_max
    and readings_for_unknown_point_id_are_ignored
proof -
  show next_boundary_aligns_to_window_multiple
    by (simp add: next_boundary_aligns_to_window_multiple_def next_boundary_def dur_from_secs_def dur_as_secs_def
        dur_sub_def nanos_per_sec_def Let_def)
  show record_accumulates_sum_count_min_max
    by (simp add: record_accumulates_sum_count_min_max_def aggregator_eval f64_int_eval)
  show readings_for_unknown_point_id_are_ignored
    by (simp add: readings_for_unknown_point_id_are_ignored_def aggregator_eval)
qed

lemma aggregator_flush_tests_pass:
  assumes "\<And>m. mset (order m) = mset m"
  shows "flush_drops_zero_count_points_and_omits_empty_device_batches order"
    and "flush_computes_mean_and_resets_for_next_window order"
    and "concurrent_devices_do_not_cross_contaminate order"
proof -
  note one = perm_single [of order, OF assms]
  have none: "order [] = []" using assms [of "[]"] by simp
  show "flush_drops_zero_count_points_and_omits_empty_device_batches order"
    by (simp add: flush_drops_zero_count_points_and_omits_empty_device_batches_def aggregator_eval f64_int_eval
        means_of_the_tests one)
  show "flush_computes_mean_and_resets_for_next_window order"
    by (simp add: flush_computes_mean_and_resets_for_next_window_def aggregator_eval f64_int_eval
        means_of_the_tests one none)
  show "concurrent_devices_do_not_cross_contaminate order"
    using perm_pair [of order "(''d1'', [\<lparr>ap_name = ''temperature'', ap_unit = ''Cel'', ap_mean = f64_of_int 21\<rparr>])"
        "(''d2'', [\<lparr>ap_name = ''temperature'', ap_unit = ''Cel'', ap_mean = f64_of_int 99\<rparr>])", OF assms]
    by (elim disjE) (simp_all add: concurrent_devices_do_not_cross_contaminate_def aggregator_eval f64_int_eval
        means_of_the_tests)
qed

lemma aggregator_task_tests_pass:
  assumes "\<And>m. mset (order m) = mset m" and clock: "start \<le> 2 ^ 62 * nanos_per_sec"
  shows "window_boundaries_stay_drift_free_across_a_late_tick order start"
    and "aggregator_stops_when_reading_channel_closes order start"
proof -
  have start: "agg_start agg 60 0 start =
      Some \<lparr>ag_agg = agg, ag_window_end = 60, ag_deadline = start + dur_from_secs 60\<rparr>" for agg
    using clock
    by (simp add: agg_start_def next_boundary_def dur_from_secs_def dur_as_secs_def dur_sub_def inst_add_def inst_max_def
        nanos_per_sec_def Let_def)
  show "window_boundaries_stay_drift_free_across_a_late_tick order start"
    using clock
    by (simp add: window_boundaries_stay_drift_free_across_a_late_tick_def start agg_step_def agg_tick_def
        aggregator_eval f64_int_eval perm_single [of order, OF assms(1)] dur_from_secs_def nanos_per_sec_def
        inst_add_def inst_max_def)
  show "aggregator_stops_when_reading_channel_closes order start"
    by (simp add: aggregator_stops_when_reading_channel_closes_def start agg_step_def dur_from_secs_def)
qed

end
