(* ===== verification/Test_Decode.thy ===== *)
theory Test_Decode
  imports Decode Test_Prelude
begin

text \<open>
  The unit tests of \<open>src/modbus/decode.rs\<close>, each as the assertion it makes, with a proof that the
  model satisfies it. A float literal is the double nearest to it.
\<close>

section \<open>Fixtures\<close>

definition decode_test_point :: "u16 \<Rightarrow> DataType \<Rightarrow> f64 \<Rightarrow> bool \<Rightarrow> PointConfig" where
  "decode_test_point offset data_type scale absolute =
     \<lparr>pt_name = ''p'', pt_offset = offset, pt_data_type = data_type, pt_scale = scale,
      pt_absolute = absolute, pt_unit = ''unit''\<rparr>"

definition decode_test_block :: "WordOrder \<Rightarrow> PointConfig list \<Rightarrow> BlockConfig" where
  "decode_test_block word_order points =
     \<lparr>bk_function = Holding, bk_start = 0, bk_count = 8, bk_word_order = word_order, bk_points = points\<rparr>"

definition decode_one :: "WordOrder \<Rightarrow> u16 list \<Rightarrow> PointConfig \<Rightarrow> f64 option" where
  "decode_one word_order words p =
     Option.bind (decode (decode_test_block word_order [p]) words) (\<lambda>vals. map_option snd (nth_opt vals 0))"

section \<open>The tests\<close>

definition u16_decodes_unsigned :: bool where
  "u16_decodes_unsigned \<longleftrightarrow>
     decode_one BigEndian [65535] (decode_test_point 0 U16 f64_one False) = Some (f64_of_int 65535)"

definition i16_decodes_signed :: bool where
  "i16_decodes_signed \<longleftrightarrow>
     decode_one BigEndian [0xFFFF] (decode_test_point 0 I16 f64_one False) = Some (f64_of_int (- 1))"

definition u32_big_endian_high_word_first :: bool where
  "u32_big_endian_high_word_first \<longleftrightarrow>
     decode_one BigEndian [0x0001, 0x0000] (decode_test_point 0 U32 f64_one False) = Some (f64_of_int 65536)"

definition u32_little_endian_swaps_words :: bool where
  "u32_little_endian_swaps_words \<longleftrightarrow>
     decode_one LittleEndian [0x0001, 0x0000] (decode_test_point 0 U32 f64_one False) = Some (f64_of_int 1)"

definition i32_decodes_negative :: bool where
  "i32_decodes_negative \<longleftrightarrow>
     decode_one BigEndian [0xFFFF, 0xFFFF] (decode_test_point 0 I32 f64_one False) = Some (f64_of_int (- 1))"

text \<open>\<open>1.5f32\<close> has the bits \<open>0x3FC00000\<close>; \<open>1.5\<close> is \<open>3 * 2 ^ -1\<close>.\<close>

definition f32_decodes_ieee754 :: bool where
  "f32_decodes_ieee754 \<longleftrightarrow>
     (let bits = 0x3FC00000 :: u32; hi = ucast (drop_bit 16 bits) :: u16; lo = ucast (and bits 0xFFFF) :: u16
      in decode_one BigEndian [hi, lo] (decode_test_point 0 F32 f64_one False) = Some (f64_round False 3 1 (- 1)))"

text \<open>\<open>0.1\<close> is the double nearest to \<open>1 / 10\<close>; \<open>f64::EPSILON\<close> is \<open>2 ^ -52\<close>.\<close>

definition scale_multiplies_raw_value :: bool where
  "scale_multiplies_raw_value \<longleftrightarrow>
     (case decode_one BigEndian [1000] (decode_test_point 0 U16 (f64_round False 1 10 0) False) of
        None \<Rightarrow> False
      | Some v \<Rightarrow> f64_lt (f64_abs (f64_add v (f64_of_int (- 100)))) (f64_round False 1 1 (- 52)))"

definition absolute_false_leaves_negative_untouched :: bool where
  "absolute_false_leaves_negative_untouched \<longleftrightarrow>
     decode_one BigEndian [0xFF9C] (decode_test_point 0 I16 f64_one False) = Some (f64_of_int (- 100))"

definition absolute_true_flips_negative_to_positive :: bool where
  "absolute_true_flips_negative_to_positive \<longleftrightarrow>
     decode_one BigEndian [0xFF9C] (decode_test_point 0 I16 f64_one True) = Some (f64_of_int 100)"

definition negative_scale_then_absolute_is_positive :: bool where
  "negative_scale_then_absolute_is_positive \<longleftrightarrow>
     decode_one BigEndian [100] (decode_test_point 0 U16 (f64_of_int (- 1)) True) = Some (f64_of_int 100)"

definition multiple_points_in_one_block :: bool where
  "multiple_points_in_one_block \<longleftrightarrow>
     decode (decode_test_block BigEndian [decode_test_point 0 U16 f64_one False, decode_test_point 1 U16 f64_one False])
       [10, 20] = Some [(''p'', f64_of_int 10), (''p'', f64_of_int 20)]"

section \<open>The model passes them\<close>

lemmas decode_tests = u16_decodes_unsigned_def i16_decodes_signed_def u32_big_endian_high_word_first_def
  u32_little_endian_swaps_words_def i32_decodes_negative_def f32_decodes_ieee754_def
  scale_multiplies_raw_value_def absolute_false_leaves_negative_untouched_def
  absolute_true_flips_negative_to_positive_def negative_scale_then_absolute_is_positive_def
  multiple_points_in_one_block_def

lemmas decode_eval = decode_one_def decode_test_block_def decode_test_point_def decode_def decode_point_def
  extract_raw_def combine_u32_def nth_opt_def Let_def

lemma decode_tests_pass:
  u16_decodes_unsigned i16_decodes_signed u32_big_endian_high_word_first u32_little_endian_swaps_words
  i32_decodes_negative f32_decodes_ieee754 scale_multiplies_raw_value
  absolute_false_leaves_negative_untouched absolute_true_flips_negative_to_positive
  negative_scale_then_absolute_is_positive multiple_points_in_one_block
  by (simp_all add: decode_tests decode_eval f64_eval)

end
