(* ===== verification/Test_Mqtt.thy ===== *)
theory Test_Mqtt
  imports Mqtt Test_Prelude
begin

text \<open>
  The unit tests of \<open>src/mqtt.rs\<close>, each as the assertion it makes, with a proof that the model
  satisfies it. \<open>env\<close> is the environment of the process; \<open>manifest_dir\<close> is \<open>CARGO_MANIFEST_DIR\<close>.
\<close>

section \<open>Fixtures\<close>

definition test_mqtt_config :: "bool \<Rightarrow> string \<Rightarrow> MqttConfig" where
  "test_mqtt_config tls ca_cert_path =
     \<lparr>mq_broker_host = ''10.0.0.5'', mq_broker_port = 8883, mq_client_id = ''modbus-gateway-router1'',
      mq_tls = tls, mq_ca_cert_path = ca_cert_path, mq_username = ''gateway'',
      mq_password_env = ''MODBUS_GW_TEST_UNSET_PASSWORD_VAR'', mq_qos = 1, mq_keep_alive_secs = 30,
      mq_topic_template = ''telemetry/{device}''\<rparr>"

definition test_ca_cert_path :: "string \<Rightarrow> string" where
  "test_ca_cert_path manifest_dir = manifest_dir @ ''/src/config/testdata/valid_ca.pem''"

section \<open>The tests\<close>

definition status_topic_uses_gateway_id :: bool where
  "status_topic_uses_gateway_id \<longleftrightarrow> status_topic ''gw-router1'' = ''telemetry/gw-router1/status''"

definition batch_topic_substitutes_device :: bool where
  "batch_topic_substitutes_device \<longleftrightarrow>
     batch_topic ''telemetry/{device}'' ''meter1'' = ''telemetry/meter1'' \<and>
     batch_topic ''site/a/{device}/senml'' ''tempsensor2'' = ''site/a/tempsensor2/senml''"

definition options_use_persistent_session_and_retained_offline_will :: "mqtt_env \<Rightarrow> string \<Rightarrow> bool" where
  "options_use_persistent_session_and_retained_offline_will env manifest_dir \<longleftrightarrow>
     (case build_mqtt_options env (test_mqtt_config False (test_ca_cert_path manifest_dir)) ''gw-router1'' ''secret'' of
        None \<Rightarrow> False
      | Some (Inl e) \<Rightarrow> False
      | Some (Inr opts) \<Rightarrow>
          \<not> mo_clean_session opts \<and> mo_client_id opts = ''modbus-gateway-router1'' \<and>
          mo_keep_alive opts = dur_from_secs 30 \<and>
          fst (mo_credentials opts) = ''gateway'' \<and> snd (mo_credentials opts) = ''secret'' \<and>
          (let will = mo_last_will opts
           in lw_topic will = ''telemetry/gw-router1/status'' \<and> lw_payload will = ''offline'' \<and>
              lw_qos will = AtLeastOnce \<and> lw_retain will))"

definition tls_trusts_only_the_configured_ca :: "mqtt_env \<Rightarrow> string \<Rightarrow> bool" where
  "tls_trusts_only_the_configured_ca env manifest_dir \<longleftrightarrow>
     (case build_mqtt_options env (test_mqtt_config True (test_ca_cert_path manifest_dir)) ''gw'' ''pw'' of
        None \<Rightarrow> False
      | Some (Inl e) \<Rightarrow> False
      | Some (Inr opts) \<Rightarrow>
          (case (mo_tls opts, me_read_file env (test_ca_cert_path manifest_dir)) of
             (Some ca, Inr pem) \<Rightarrow> ca = pem
           | _ \<Rightarrow> False))"

definition plain_tcp_when_tls_disabled :: "mqtt_env \<Rightarrow> string \<Rightarrow> bool" where
  "plain_tcp_when_tls_disabled env manifest_dir \<longleftrightarrow>
     (case build_mqtt_options env (test_mqtt_config False (test_ca_cert_path manifest_dir)) ''gw'' ''pw'' of
        None \<Rightarrow> False
      | Some (Inl e) \<Rightarrow> False
      | Some (Inr opts) \<Rightarrow> mo_tls opts = None)"

definition missing_ca_file_is_an_error :: "mqtt_env \<Rightarrow> bool" where
  "missing_ca_file_is_an_error env \<longleftrightarrow>
     (case build_mqtt_options env (test_mqtt_config True ''/nonexistent/ca.pem'') ''gw'' ''pw'' of
        Some (Inl (CaCert _ _)) \<Rightarrow> True
      | _ \<Rightarrow> False)"

definition unset_password_env_is_an_error :: "mqtt_env \<Rightarrow> string \<Rightarrow> bool" where
  "unset_password_env_is_an_error env manifest_dir \<longleftrightarrow>
     read_password env (test_mqtt_config False (test_ca_cert_path manifest_dir)) =
       Inl (PasswordMissing ''MODBUS_GW_TEST_UNSET_PASSWORD_VAR'')"

definition qos_maps_valid_levels_and_rejects_others :: "mqtt_env \<Rightarrow> bool" where
  "qos_maps_valid_levels_and_rejects_others env \<longleftrightarrow>
     qos env 0 = Inr AtMostOnce \<and> qos env 1 = Inr AtLeastOnce \<and> qos env 2 = Inr ExactlyOnce \<and>
     qos env 3 = Inl (MqttInvalidQos 3)"

section \<open>The model passes them\<close>

text \<open>
  The environment the tests are run in: the certificate of the test data can be read, the other path
  cannot, the variable is not set, and \<open>rumqttc\<close> knows the quality-of-service levels of the protocol.
\<close>

definition mqtt_test_env :: "mqtt_env \<Rightarrow> string \<Rightarrow> bool" where
  "mqtt_test_env env manifest_dir \<longleftrightarrow>
     (\<exists>pem. me_read_file env (test_ca_cert_path manifest_dir) = Inr pem) \<and>
     (\<exists>e. me_read_file env ''/nonexistent/ca.pem'' = Inl e) \<and>
     me_env_var env ''MODBUS_GW_TEST_UNSET_PASSWORD_VAR'' = None \<and>
     me_qos env = (\<lambda>q. if q = 0 then Some AtMostOnce else if q = 1 then Some AtLeastOnce
                       else if q = 2 then Some ExactlyOnce else None)"

lemmas mqtt_eval = build_mqtt_options_def test_mqtt_config_def status_topic_def OFFLINE_def Let_def

lemma mqtt_topic_tests_pass: status_topic_uses_gateway_id batch_topic_substitutes_device
  by (simp_all add: status_topic_uses_gateway_id_def status_topic_def batch_topic_substitutes_device_def batch_topic_def
      str_replace.simps placeholder_def)

lemma mqtt_tests_pass:
  assumes "mqtt_test_env env manifest_dir"
  shows "options_use_persistent_session_and_retained_offline_will env manifest_dir"
    and "tls_trusts_only_the_configured_ca env manifest_dir"
    and "plain_tcp_when_tls_disabled env manifest_dir"
    and "missing_ca_file_is_an_error env"
    and "unset_password_env_is_an_error env manifest_dir"
    and "qos_maps_valid_levels_and_rejects_others env"
  using assms
  by (auto simp: mqtt_test_env_def mqtt_eval options_use_persistent_session_and_retained_offline_will_def
      tls_trusts_only_the_configured_ca_def plain_tcp_when_tls_disabled_def missing_ca_file_is_an_error_def
      unset_password_env_is_an_error_def read_password_def qos_maps_valid_levels_and_rejects_others_def qos_def)

text \<open>There is such an environment.\<close>

lemma mqtt_test_env_exists:
  "mqtt_test_env \<lparr>me_qos = (\<lambda>q. if q = 0 then Some AtMostOnce else if q = 1 then Some AtLeastOnce
       else if q = 2 then Some ExactlyOnce else None),
     me_env_var = (\<lambda>_. None),
     me_read_file = (\<lambda>path. if path = test_ca_cert_path ''/build'' then Inr ''pem'' else Inl ''not found'')\<rparr> ''/build''"
  by (simp add: mqtt_test_env_def test_ca_cert_path_def)

end
