(* ===== verification/Test_Poller.thy ===== *)
theory Test_Poller
  imports Poller
begin

text \<open>
  The unit tests of \<open>src/modbus/poller.rs\<close>, each as the assertion it makes, with a proof that the model
  satisfies it. Under the paused clock of the tests a wait lasts exactly its delay.
\<close>

section \<open>The tests\<close>

text \<open>The delays of \<open>n\<close> waits in a row, and the state after them.\<close>

primrec backoff_waits :: "nat \<Rightarrow> Backoff \<Rightarrow> (duration list \<times> Backoff) option" where
  "backoff_waits 0 b = Some ([], b)"
| "backoff_waits (Suc n) b =
     (case Backoff_wait b of (d, r) \<Rightarrow>
        Option.bind r (\<lambda>b'. map_option (\<lambda>(ds, b''). (d # ds, b'')) (backoff_waits n b')))"

definition backoff_doubles_up_to_max_and_resets :: bool where
  "backoff_doubles_up_to_max_and_resets \<longleftrightarrow>
     (case backoff_waits 5 (Backoff_new (dur_from_secs 1) (dur_from_secs 5)) of
        None \<Rightarrow> False
      | Some (waits, b) \<Rightarrow>
          map dur_as_secs waits = [1, 2, 4, 5, 5] \<and> bo_current (Backoff_reset b) = dur_from_secs 1)"

definition transport_errors_are_fatal_protocol_errors_are_not :: bool where
  "transport_errors_are_fatal_protocol_errors_are_not \<longleftrightarrow>
     is_transport_fatal (ErrTransport ''broken pipe'') \<and> \<not> is_transport_fatal (ErrProtocol ''transaction id'')"

definition inter_frame_delay_only_for_rtu_with_nonzero_delay :: bool where
  "inter_frame_delay_only_for_rtu_with_nonzero_delay \<longleftrightarrow>
     (let tcp = Tcp ''localhost'' 502; rtu = (\<lambda>ms. Rtu ''/dev/ttyUSB0'' 9600 8 ParityNone 1 ms)
      in inter_frame_delay tcp = None \<and> inter_frame_delay (rtu 0) = None \<and>
         inter_frame_delay (rtu 5) = Some (dur_from_millis 5))"

section \<open>The model passes them\<close>

lemma poller_tests_pass:
  shows backoff_doubles_up_to_max_and_resets
    and transport_errors_are_fatal_protocol_errors_are_not
    and inter_frame_delay_only_for_rtu_with_nonzero_delay
proof -
  have "backoff_waits 5 b = backoff_waits (Suc (Suc (Suc (Suc (Suc 0))))) b" for b
    by (simp add: numeral_eq_Suc)
  then show backoff_doubles_up_to_max_and_resets
    by (simp add: backoff_doubles_up_to_max_and_resets_def Backoff_new_def Backoff_wait_def
        Backoff_reset_def dur_mul_def dur_from_secs_def dur_as_secs_def dur_max_def nanos_per_sec_def)
  show transport_errors_are_fatal_protocol_errors_are_not
    by (simp add: transport_errors_are_fatal_protocol_errors_are_not_def is_transport_fatal_def)
  show inter_frame_delay_only_for_rtu_with_nonzero_delay
    by (simp add: inter_frame_delay_only_for_rtu_with_nonzero_delay_def inter_frame_delay_def)
qed

end
