(* ===== verification/Test_Schema.thy ===== *)
theory Test_Schema
  imports Deserialize
begin

text \<open>
  The unit tests of \<open>src/config/schema.rs\<close>. The text of a test is given as the tree that a TOML
  parser makes of it: each test speaks of the texts for which \<open>tc_parse\<close> returns this tree.
  \<open>FULL_EXAMPLE\<close> is the document of that name, entry by entry.
\<close>

definition FULL_EXAMPLE :: entries where
  "FULL_EXAMPLE =
     [(''gateway'', TTable [(''id'', TString ''gw-router1''), (''aggregation_window_secs'', TInteger 60),
        (''base_name_prefix'', TString ''urn:dev:gw-router1:''), (''log_level'', TString ''info'')]),
      (''mqtt'', TTable [(''broker_host'', TString ''10.0.0.5''), (''broker_port'', TInteger 8883),
        (''client_id'', TString ''modbus-gateway-router1''), (''tls'', TBoolean True),
        (''ca_cert_path'', TString ''/etc/modbus-gateway/ca.pem''),
        (''username'', TString ''gateway''), (''password_env'', TString ''MQTT_PASSWORD''),
        (''qos'', TInteger 1), (''keep_alive_secs'', TInteger 30),
        (''topic_template'', TString ''telemetry/{device}'')]),
      (''connection'', TArray [
       TTable [(''id'', TString ''meter-tcp1''), (''transport'', TString ''tcp''),
        (''host'', TString ''192.168.1.50''), (''port'', TInteger 502),
        (''poll_interval_secs'', TInteger 10), (''io_timeout_ms'', TInteger 1000),
        (''device'', TArray [
         TTable [(''id'', TString ''meter1''), (''unit_id'', TInteger 1),
          (''block'', TArray [
           TTable [(''function'', TString ''holding''), (''start'', TInteger 3000),
            (''count'', TInteger 8), (''word_order'', TString ''big_endian''),
            (''point'', TArray [
             TTable [(''name'', TString ''voltage_l1''), (''offset'', TInteger 0),
              (''data_type'', TString ''f32''), (''unit'', TString ''V'')],
             TTable [(''name'', TString ''current_l1''), (''offset'', TInteger 2),
              (''data_type'', TString ''f32''), (''unit'', TString ''A'')],
             TTable [(''name'', TString ''active_power''), (''offset'', TInteger 4),
              (''data_type'', TString ''i32''), (''scale'', TFloat (f64_round False 1 10 0)),
              (''absolute'', TBoolean True), (''unit'', TString ''W'')]])],
           TTable [(''function'', TString ''holding''), (''start'', TInteger 3100),
            (''count'', TInteger 2),
            (''point'', TArray [
             TTable [(''name'', TString ''energy_total''), (''offset'', TInteger 0),
              (''data_type'', TString ''u32''), (''scale'', TFloat (f64_round False 1 1000 0)),
              (''unit'', TString ''kWh'')]])]])]])],
       TTable [(''id'', TString ''rs485-bus1''), (''transport'', TString ''rtu''),
        (''serial_port'', TString ''/dev/serial/by-id/usb-FTDI_USB-RS485-if00-port0''),
        (''baud_rate'', TInteger 9600), (''parity'', TString ''none''),
        (''poll_interval_secs'', TInteger 15), (''io_timeout_ms'', TInteger 500),
        (''inter_frame_delay_ms'', TInteger 10),
        (''device'', TArray [
         TTable [(''id'', TString ''tempsensor1''), (''unit_id'', TInteger 5),
          (''block'', TArray [
           TTable [(''function'', TString ''input''), (''start'', TInteger 100),
            (''count'', TInteger 2),
            (''point'', TArray [
             TTable [(''name'', TString ''temperature''), (''offset'', TInteger 0),
              (''data_type'', TString ''i16''), (''scale'', TFloat (f64_round False 1 10 0)),
              (''unit'', TString ''Cel'')],
             TTable [(''name'', TString ''humidity''), (''offset'', TInteger 1),
              (''data_type'', TString ''u16''), (''scale'', TFloat (f64_round False 1 10 0)),
              (''unit'', TString ''%RH'')]])]])],
         TTable [(''id'', TString ''tempsensor2''), (''unit_id'', TInteger 6),
          (''block'', TArray [
           TTable [(''function'', TString ''input''), (''start'', TInteger 100),
            (''count'', TInteger 2),
            (''point'', TArray [
             TTable [(''name'', TString ''temperature''), (''offset'', TInteger 0),
              (''data_type'', TString ''i16''), (''scale'', TFloat (f64_round False 1 10 0)),
              (''unit'', TString ''Cel'')],
             TTable [(''name'', TString ''humidity''), (''offset'', TInteger 1),
              (''data_type'', TString ''u16''), (''scale'', TFloat (f64_round False 1 10 0)),
              (''unit'', TString ''%RH'')]])]])]])]])]"

definition full_example_deserializes :: "toml_crate \<Rightarrow> string \<Rightarrow> bool" where
  "full_example_deserializes crate toml_str \<longleftrightarrow>
     (tc_parse crate toml_str = Inr FULL_EXAMPLE \<longrightarrow>
      (case from_str crate (Config_deserialize crate) toml_str of
        Inl e \<Rightarrow> False
      | Inr config \<Rightarrow>
          (let tcp = cf_connections config ! 0; rtu = cf_connections config ! 1 in
             gw_id (cf_gateway config) = ''gw-router1'' \<and>
             mq_qos (cf_mqtt config) = 1 \<and>
             length (cf_connections config) = 2 \<and>
             (case cn_transport tcp of
                Tcp host port \<Rightarrow> host = ''192.168.1.50'' \<and> port = 502
              | Rtu _ _ _ _ _ _ \<Rightarrow> False) \<and>
             pt_absolute (bk_points (dv_blocks (cn_devices tcp ! 0) ! 0) ! 2) \<and>
             bk_word_order (dv_blocks (cn_devices tcp ! 0) ! 1) = BigEndian \<and>
             (case cn_transport rtu of
                Rtu serial_port baud_rate data_bits parity stop_bits delay \<Rightarrow>
                  baud_rate = 9600 \<and> parity = ParityNone
              | Tcp _ _ \<Rightarrow> False) \<and>
             length (cn_devices rtu) = 2 \<and>
             dv_unit_id (cn_devices rtu ! 1) = 6)))"

text \<open>A document that is a transport by itself.\<close>

definition transport_from_str :: "toml_crate \<Rightarrow> string \<Rightarrow> string + Transport" where
  "transport_from_str crate = from_str crate (\<lambda>v.
     try_then (struct_entries crate ''Transport'' v) (Transport_deserialize crate))"

definition is_err :: "'e + 'a \<Rightarrow> bool" where
  "is_err r = (case r of Inl e \<Rightarrow> True | Inr x \<Rightarrow> False)"

definition tcp_with_serial_fields_fails_to_deserialize :: "toml_crate \<Rightarrow> string \<Rightarrow> bool" where
  "tcp_with_serial_fields_fails_to_deserialize crate toml_str \<longleftrightarrow>
     (tc_parse crate toml_str = Inr [(''transport'', TString ''tcp''),
        (''serial_port'', TString ''/dev/ttyUSB0''), (''baud_rate'', TInteger 9600)] \<longrightarrow>
      is_err (transport_from_str crate toml_str))"

definition rtu_missing_baud_rate_fails_to_deserialize :: "toml_crate \<Rightarrow> string \<Rightarrow> bool" where
  "rtu_missing_baud_rate_fails_to_deserialize crate toml_str \<longleftrightarrow>
     (tc_parse crate toml_str = Inr [(''transport'', TString ''rtu''),
        (''serial_port'', TString ''/dev/ttyUSB0'')] \<longrightarrow>
      is_err (transport_from_str crate toml_str))"

definition tcp_missing_port_fails_to_deserialize :: "toml_crate \<Rightarrow> string \<Rightarrow> bool" where
  "tcp_missing_port_fails_to_deserialize crate toml_str \<longleftrightarrow>
     (tc_parse crate toml_str = Inr [(''transport'', TString ''tcp''),
        (''host'', TString ''10.0.0.1'')] \<longrightarrow>
      is_err (transport_from_str crate toml_str))"

section \<open>They pass\<close>

lemmas variants_defs = Parity_variants_def Function_variants_def WordOrder_variants_def
  DataType_variants_def Transport_variants_def

lemma variant_eval: "de_variant crate enum_name variants (TString s) =
    (case map_of variants s of None \<Rightarrow> Inl (UnknownVariant s) | Some x \<Rightarrow> Inr x)"
  by (simp add: de_variant_def variant_name_def)

lemmas visit_eval = visit_map_def required_def with_default_def add_field_def all_fields_def failure_def
  other_entries_def variant_eval variants_defs

lemma transport_tests_pass:
  "tcp_with_serial_fields_fails_to_deserialize crate toml_str"
  "rtu_missing_baud_rate_fails_to_deserialize crate toml_str"
  "tcp_missing_port_fails_to_deserialize crate toml_str"
  by (simp_all add: tcp_with_serial_fields_fails_to_deserialize_def
      rtu_missing_baud_rate_fails_to_deserialize_def tcp_missing_port_fails_to_deserialize_def
      is_err_def transport_from_str_def from_str_def Transport_deserialize_def Tcp_fields_def
      Rtu_fields_def visit_eval)

text \<open>The configuration that the example denotes.\<close>

definition full_config :: Config where
  "full_config = \<lparr>
     cf_gateway = \<lparr>gw_id = ''gw-router1'', gw_aggregation_window_secs = 60,
       gw_base_name_prefix = ''urn:dev:gw-router1:'', gw_log_level = ''info'',
       gw_status_file_path = default_status_file_path,
       gw_status_debounce_secs = default_status_debounce_secs,
       gw_status_heartbeat_secs = default_status_heartbeat_secs\<rparr>,
     cf_mqtt = \<lparr>mq_broker_host = ''10.0.0.5'', mq_broker_port = 8883,
       mq_client_id = ''modbus-gateway-router1'', mq_tls = True,
       mq_ca_cert_path = ''/etc/modbus-gateway/ca.pem'', mq_username = ''gateway'',
       mq_password_env = ''MQTT_PASSWORD'', mq_qos = 1, mq_keep_alive_secs = 30,
       mq_topic_template = ''telemetry/{device}''\<rparr>,
     cf_connections = [
     \<lparr>cn_id = ''meter-tcp1'', cn_transport = Tcp ''192.168.1.50'' 502,
      cn_poll_interval_secs = 10, cn_io_timeout_ms = 1000,
      cn_reconnect_backoff_min_secs = default_backoff_min_secs,
      cn_reconnect_backoff_max_secs = default_backoff_max_secs, cn_devices = [
      \<lparr>dv_id = ''meter1'', dv_unit_id = 1, dv_blocks = [
      \<lparr>bk_function = Holding, bk_start = 3000, bk_count = 8, bk_word_order = BigEndian, bk_points = [
       \<lparr>pt_name = ''voltage_l1'', pt_offset = 0, pt_data_type = F32,
        pt_scale = default_scale, pt_absolute = False, pt_unit = ''V''\<rparr>,
       \<lparr>pt_name = ''current_l1'', pt_offset = 2, pt_data_type = F32,
        pt_scale = default_scale, pt_absolute = False, pt_unit = ''A''\<rparr>,
       \<lparr>pt_name = ''active_power'', pt_offset = 4, pt_data_type = I32,
        pt_scale = f64_round False 1 10 0, pt_absolute = True, pt_unit = ''W''\<rparr>]\<rparr>,
      \<lparr>bk_function = Holding, bk_start = 3100, bk_count = 2, bk_word_order = BigEndian, bk_points = [
       \<lparr>pt_name = ''energy_total'', pt_offset = 0, pt_data_type = U32,
        pt_scale = f64_round False 1 1000 0, pt_absolute = False, pt_unit = ''kWh''\<rparr>]\<rparr>]\<rparr>]\<rparr>,
     \<lparr>cn_id = ''rs485-bus1'', cn_transport = Rtu ''/dev/serial/by-id/usb-FTDI_USB-RS485-if00-port0'' 9600 default_data_bits
       ParityNone default_stop_bits 10,
      cn_poll_interval_secs = 15, cn_io_timeout_ms = 500,
      cn_reconnect_backoff_min_secs = default_backoff_min_secs,
      cn_reconnect_backoff_max_secs = default_backoff_max_secs, cn_devices = [
      \<lparr>dv_id = ''tempsensor1'', dv_unit_id = 5, dv_blocks = [
      \<lparr>bk_function = Input, bk_start = 100, bk_count = 2, bk_word_order = BigEndian, bk_points = [
       \<lparr>pt_name = ''temperature'', pt_offset = 0, pt_data_type = I16,
        pt_scale = f64_round False 1 10 0, pt_absolute = False, pt_unit = ''Cel''\<rparr>,
       \<lparr>pt_name = ''humidity'', pt_offset = 1, pt_data_type = U16,
        pt_scale = f64_round False 1 10 0, pt_absolute = False, pt_unit = ''%RH''\<rparr>]\<rparr>]\<rparr>,
      \<lparr>dv_id = ''tempsensor2'', dv_unit_id = 6, dv_blocks = [
      \<lparr>bk_function = Input, bk_start = 100, bk_count = 2, bk_word_order = BigEndian, bk_points = [
       \<lparr>pt_name = ''temperature'', pt_offset = 0, pt_data_type = I16,
        pt_scale = f64_round False 1 10 0, pt_absolute = False, pt_unit = ''Cel''\<rparr>,
       \<lparr>pt_name = ''humidity'', pt_offset = 1, pt_data_type = U16,
        pt_scale = f64_round False 1 10 0, pt_absolute = False, pt_unit = ''%RH''\<rparr>]\<rparr>]\<rparr>]\<rparr>]\<rparr>"

lemmas denotation_defs = is_GatewayConfig_def is_MqttConfig_def is_ConnectionConfig_def is_Transport_def
  is_DeviceConfig_def is_BlockConfig_def is_PointConfig_def is_string_def is_bool_def is_uint_def
  is_f64_def is_vec_def is_variant_def variant_name_def entry_is_def entry_or_default_def

lemma full_example_denotes: "is_Config crate (TTable FULL_EXAMPLE) full_config"
  by (simp add: is_Config_def FULL_EXAMPLE_def full_config_def default_word_order_def denotation_defs)

lemma schema_tests_pass: "full_example_deserializes crate toml_str"
proof -
  have "from_str crate (Config_deserialize crate) toml_str = Inr full_config"
    if "tc_parse crate toml_str = Inr FULL_EXAMPLE"
    using that full_example_denotes by (simp add: from_str_Inr_iff config.de_iff)
  then show ?thesis by (simp add: full_example_deserializes_def full_config_def)
qed

text \<open>The example is also valid, so a file with its text loads.\<close>

lemma full_config_valid: "valid_config ex_env full_config"
proof -
  have blocks: "valid_block \<lparr>bk_function = f, bk_start = st, bk_count = n, bk_word_order = wo, bk_points = ps\<rparr> \<longleftrightarrow>
      unat n \<le> 125 \<and> (\<forall>p \<in> set ps. unat (pt_offset p) + unat (word_count (pt_data_type p)) \<le> unat n) \<and>
      sorted_wrt (\<lambda>p q. point_registers p \<inter> point_registers q = {}) ps" for f st n wo ps
    by (simp add: valid_block_def point_registers_subset_iff)
  have cert: "valid_ca_cert ex_env ''/etc/modbus-gateway/ca.pem''" by (rule ex_valid_ca_cert) simp
  show ?thesis
    by (simp add: valid_config_def valid_connection_def valid_serial_def serial_ports_def full_config_def
        blocks cert point_registers_def default_data_bits_def default_stop_bits_def)
      (simp add: ex_env_def)
qed

lemma load_full_example:
  assumes "tc_parse crate path = Inr FULL_EXAMPLE" and "path \<noteq> ''/missing''"
  shows "load (with_toml crate ex_env) path = Inr full_config"
  using assms full_example_denotes full_config_valid
  by (auto simp: load_Inr_iff from_str_Inr_iff config.de_iff with_toml_def [of crate ex_env]
      valid_config_with_toml [unfolded with_toml_def]) (simp add: ex_env_def)

end
