(* ===== verification/Test_Senml.thy ===== *)
theory Test_Senml
  imports Senml Test_Prelude
begin

text \<open>
  The unit tests of \<open>src/senml.rs\<close>, each as the assertion it makes, with a proof that the model
  satisfies it. \<open>to_vec\<close> and \<open>from_slice\<close> are \<open>serde_json\<close>'s writer and parser, \<open>order\<close> the iteration
  order of the unit counts.
\<close>

section \<open>Fixtures\<close>

definition test_point :: "string \<Rightarrow> string \<Rightarrow> f64 \<Rightarrow> AggregatedPoint" where
  "test_point name unit mean = \<lparr>ap_name = name, ap_unit = unit, ap_mean = mean\<rparr>"

definition test_batch :: "AggregatedPoint list \<Rightarrow> AggregatedBatch" where
  "test_batch points =
     \<lparr>ab_device_id = ''meter1'', ab_window_start = 1758447120, ab_window_end = 1758447180, ab_points = points\<rparr>"

text \<open>\<open>json[i][k]\<close> and \<open>json[i].get(k)\<close>.\<close>

fun json_at :: "json \<Rightarrow> nat \<Rightarrow> string \<Rightarrow> json option" where
  "json_at (JArray js) i k =
     (case nth_opt js i of Some (JObject kvs) \<Rightarrow> map_of kvs k | _ \<Rightarrow> None)"
| "json_at _ _ _ = None"

definition parsed_pack ::
  "(json \<Rightarrow> string) \<Rightarrow> (string \<Rightarrow> json option) \<Rightarrow> (unit_counts \<Rightarrow> unit_counts) \<Rightarrow> AggregatedPoint list \<Rightarrow> string
     \<Rightarrow> nat \<Rightarrow> string \<Rightarrow> json option" where
  "parsed_pack to_vec from_slice order points prefix i k =
     (case from_slice (encode_senml to_vec order (test_batch points) prefix) of
        None \<Rightarrow> None
      | Some json \<Rightarrow> json_at json i k)"

definition two_points :: "AggregatedPoint list" where
  "two_points = [test_point ''voltage_l1'' ''V'' (f64_round False 2314 10 0),
                 test_point ''current_l1'' ''A'' (f64_round False 482 100 0)]"

section \<open>The tests\<close>

definition bn_and_bt_appear_only_on_first_record ::
  "(json \<Rightarrow> string) \<Rightarrow> (string \<Rightarrow> json option) \<Rightarrow> (unit_counts \<Rightarrow> unit_counts) \<Rightarrow> bool" where
  "bn_and_bt_appear_only_on_first_record to_vec from_slice order \<longleftrightarrow>
     (let json = parsed_pack to_vec from_slice order two_points ''urn:dev:gw-router1:''
      in json 0 ''bn'' = Some (JString ''urn:dev:gw-router1:meter1:'') \<and>
         json 0 ''bt'' = Some (JUnsigned 1758447120) \<and>
         json 1 ''bn'' = None \<and> json 1 ''bt'' = None)"

definition every_record_carries_its_own_unit_and_value ::
  "(json \<Rightarrow> string) \<Rightarrow> (string \<Rightarrow> json option) \<Rightarrow> (unit_counts \<Rightarrow> unit_counts) \<Rightarrow> bool" where
  "every_record_carries_its_own_unit_and_value to_vec from_slice order \<longleftrightarrow>
     (let json = parsed_pack to_vec from_slice order two_points ''urn:dev:gw-router1:''
      in json 0 ''n'' = Some (JString ''voltage_l1'') \<and> json 0 ''u'' = Some (JString ''V'') \<and>
         json 0 ''v'' = Some (JDouble (f64_round False 2314 10 0)) \<and>
         json 1 ''n'' = Some (JString ''current_l1'') \<and> json 1 ''u'' = Some (JString ''A'') \<and>
         json 1 ''v'' = Some (JDouble (f64_round False 482 100 0)))"

definition bu_set_when_majority_of_points_share_a_unit ::
  "(json \<Rightarrow> string) \<Rightarrow> (string \<Rightarrow> json option) \<Rightarrow> (unit_counts \<Rightarrow> unit_counts) \<Rightarrow> bool" where
  "bu_set_when_majority_of_points_share_a_unit to_vec from_slice order \<longleftrightarrow>
     parsed_pack to_vec from_slice order
       [test_point ''temperature'' ''Cel'' (f64_of_int 21), test_point ''temperature2'' ''Cel'' (f64_of_int 22),
        test_point ''temperature3'' ''Cel'' (f64_of_int 23), test_point ''humidity'' ''%RH'' (f64_of_int 40)]
       ''urn:dev:gw:'' 0 ''bu'' = Some (JString ''Cel'')"

definition bu_omitted_when_no_unit_has_a_majority ::
  "(json \<Rightarrow> string) \<Rightarrow> (string \<Rightarrow> json option) \<Rightarrow> (unit_counts \<Rightarrow> unit_counts) \<Rightarrow> bool" where
  "bu_omitted_when_no_unit_has_a_majority to_vec from_slice order \<longleftrightarrow>
     parsed_pack to_vec from_slice order
       (two_points @ [test_point ''active_power'' ''W'' (f64_round False 11126 10 0),
          test_point ''energy_total'' ''kWh'' (f64_round False 18452311 1000 0)])
       ''urn:dev:gw:'' 0 ''bu'' = None"

definition empty_points_encodes_to_empty_array ::
  "(json \<Rightarrow> string) \<Rightarrow> (unit_counts \<Rightarrow> unit_counts) \<Rightarrow> bool" where
  "empty_points_encodes_to_empty_array to_vec order \<longleftrightarrow>
     encode_senml to_vec order (test_batch []) ''urn:dev:gw:'' = ''[]''"

section \<open>The model passes them\<close>

text \<open>Of \<open>serde_json\<close> the tests use that it parses what it wrote, and how it writes an empty array.\<close>

lemmas senml_eval = parsed_pack_def encode_senml_def senml_records_def senml_record_def SenmlRecord_json_def
  two_points_def test_batch_def test_point_def nth_opt_def Let_def

lemma senml_tests_pass:
  assumes serde: "\<And>j. from_slice (to_vec j) = Some j" "to_vec (JArray []) = ''[]''"
    and order: "\<And>m. mset (order m) = mset m"
  shows "bn_and_bt_appear_only_on_first_record to_vec from_slice order"
    and "every_record_carries_its_own_unit_and_value to_vec from_slice order"
    and "bu_set_when_majority_of_points_share_a_unit to_vec from_slice order"
    and "bu_omitted_when_no_unit_has_a_majority to_vec from_slice order"
    and "empty_points_encodes_to_empty_array to_vec order"
proof -
  note bu = majority_unit_iff [of order, OF order]
  show "bn_and_bt_appear_only_on_first_record to_vec from_slice order"
    by (simp add: bn_and_bt_appear_only_on_first_record_def senml_eval serde split: option.split)
  show "every_record_carries_its_own_unit_and_value to_vec from_slice order"
    by (simp add: every_record_carries_its_own_unit_and_value_def senml_eval serde split: option.split)
  show "bu_set_when_majority_of_points_share_a_unit to_vec from_slice order"
  proof -
    have "majority_unit order
       [test_point ''temperature'' ''Cel'' (f64_of_int 21), test_point ''temperature2'' ''Cel'' (f64_of_int 22),
        test_point ''temperature3'' ''Cel'' (f64_of_int 23), test_point ''humidity'' ''%RH'' (f64_of_int 40)]
        = Some ''Cel''"
      by (simp add: bu strict_majority_def unit_count_def test_point_def)
    then show ?thesis
      by (simp add: bu_set_when_majority_of_points_share_a_unit_def senml_eval serde)
  qed
  show "bu_omitted_when_no_unit_has_a_majority to_vec from_slice order"
  proof -
    let ?ps = "two_points @ [test_point ''active_power'' ''W'' (f64_round False 11126 10 0),
          test_point ''energy_total'' ''kWh'' (f64_round False 18452311 1000 0)]"
    have "majority_unit order ?ps \<noteq> Some u" for u
      by (auto simp: bu strict_majority_def unit_count_def test_point_def two_points_def)
    then have "majority_unit order ?ps = None" by (cases "majority_unit order ?ps") auto
    then show ?thesis
      by (simp add: bu_omitted_when_no_unit_has_a_majority_def senml_eval serde)
  qed
  show "empty_points_encodes_to_empty_array to_vec order"
    by (simp add: empty_points_encodes_to_empty_array_def senml_eval serde)
qed

end
