(* ===== verification/Test_Status.thy ===== *)
theory Test_Status
  imports Status Test_Prelude
begin

text \<open>
  The unit tests of \<open>src/status.rs\<close> that look at the state and its rendering, each as the assertion it
  makes, with a proof that the model satisfies it. A time is of any type; \<open>status_test_clock\<close> names
  the ones the tests use and says how the \<open>time\<close> crate formats them.
\<close>

section \<open>Fixtures\<close>

definition example_state :: "'t StatusState" where
  "example_state = StatusState_new ''gw-router1'' ''10.0.0.5:8883''
     [(''meter-tcp1'', [''meter1'']), (''rs485-bus1'', [''tempsensor1'', ''tempsensor2''])]"

definition ev_up :: "string \<Rightarrow> StatusEvent" where "ev_up conn = ConnectionUp conn"
definition ev_down :: "string \<Rightarrow> StatusEvent" where "ev_down conn = ConnectionDown conn"
definition ev_ok :: "string \<Rightarrow> string \<Rightarrow> StatusEvent" where "ev_ok conn device = DeviceOk conn device"
definition ev_problem :: "string \<Rightarrow> string \<Rightarrow> string \<Rightarrow> StatusEvent" where
  "ev_problem conn device reason = DeviceProblem conn device reason"

text \<open>\<open>state.apply(event, now)\<close> where the test ignores the result.\<close>

definition applied :: "'t \<Rightarrow> StatusEvent list \<Rightarrow> 't StatusState \<Rightarrow> 't StatusState" where
  "applied now evs state = foldl (\<lambda>st ev. fst (apply_event st ev now)) state evs"

definition all_ok :: "'t \<Rightarrow> 't StatusState \<Rightarrow> 't StatusState" where
  "all_ok now = applied now
     [MqttConnected, ev_up ''meter-tcp1'', ev_ok ''meter-tcp1'' ''meter1'', ev_up ''rs485-bus1'',
      ev_ok ''rs485-bus1'' ''tempsensor1'', ev_ok ''rs485-bus1'' ''tempsensor2'']"

definition text_lines :: "string list \<Rightarrow> string" where
  "text_lines ls = concat (map (\<lambda>l. l @ [newline]) ls)"

definition shows_text :: "'t utc_fmt \<Rightarrow> 't StatusState \<Rightarrow> 't \<Rightarrow> string \<Rightarrow> bool" where
  "shows_text fmt state now t \<longleftrightarrow> (case render_status fmt state now of None \<Rightarrow> False | Some s \<Rightarrow> sublist t s)"

section \<open>The tests\<close>

definition renders_all_ok :: "'t utc_fmt \<Rightarrow> 't \<Rightarrow> bool" where
  "renders_all_ok fmt now \<longleftrightarrow>
     render_status fmt (all_ok now example_state) now = Some (text_lines
       [''gateway: gw-router1'', ''updated: 2026-09-23T14:32:10Z'', ''mqtt: connected (10.0.0.5:8883)'',
        ''connection meter-tcp1: up, 1/1 devices ok'', ''connection rs485-bus1: up, 2/2 devices ok''])"

definition renders_one_problem_device_as_in_design_example :: "'t utc_fmt \<Rightarrow> 't \<Rightarrow> 't \<Rightarrow> bool" where
  "renders_one_problem_device_as_in_design_example fmt now since \<longleftrightarrow>
     (let state = applied since [ev_problem ''rs485-bus1'' ''tempsensor2'' ''timeout''] (all_ok now example_state)
      in render_status fmt state now = Some (text_lines
       [''gateway: gw-router1'', ''updated: 2026-09-23T14:32:10Z'', ''mqtt: connected (10.0.0.5:8883)'',
        ''connection meter-tcp1: up, 1/1 devices ok'',
        ''connection rs485-bus1: up, 1/2 devices ok (tempsensor2: timeout since 14:28:15Z)'']))"

definition renders_fully_down :: "'t utc_fmt \<Rightarrow> 't \<Rightarrow> bool" where
  "renders_fully_down fmt now \<longleftrightarrow>
     (let state = applied now [MqttDisconnected, ev_down ''meter-tcp1'', ev_down ''rs485-bus1'']
            (all_ok now example_state)
      in render_status fmt state now = Some (text_lines
       [''gateway: gw-router1'', ''updated: 2026-09-23T14:32:10Z'', ''mqtt: disconnected (10.0.0.5:8883)'',
        ''connection meter-tcp1: down'', ''connection rs485-bus1: down'']))"

definition timestamps_render_in_utc :: "'t utc_fmt \<Rightarrow> 't \<Rightarrow> bool" where
  "timestamps_render_in_utc fmt local_now \<longleftrightarrow>
     shows_text fmt example_state local_now (text_lines [''updated: 2026-09-23T14:32:10Z''])"

definition unpolled_devices_are_not_counted_ok :: "'t utc_fmt \<Rightarrow> 't \<Rightarrow> bool" where
  "unpolled_devices_are_not_counted_ok fmt now \<longleftrightarrow>
     shows_text fmt (applied now [ev_up ''rs485-bus1'', ev_ok ''rs485-bus1'' ''tempsensor1''] example_state) now
       (text_lines [''connection rs485-bus1: up, 1/2 devices ok''])"

definition problem_keeps_first_since_and_clears_on_ok :: "'t utc_fmt \<Rightarrow> 't \<Rightarrow> 't \<Rightarrow> bool" where
  "problem_keeps_first_since_and_clears_on_ok fmt now first \<longleftrightarrow>
     (let st0 = all_ok now example_state;
          (st1, r1) = apply_event st0 (ev_problem ''rs485-bus1'' ''tempsensor2'' ''timeout'') first;
          (st2, r2) = apply_event st1 (ev_problem ''rs485-bus1'' ''tempsensor2'' ''timeout'') now;
          (st3, r3) = apply_event st2 (ev_problem ''rs485-bus1'' ''tempsensor2'' ''exception: Server device busy'') now;
          (st4, r4) = apply_event st3 (ev_ok ''rs485-bus1'' ''tempsensor2'') now;
          (st5, r5) = apply_event st4 (ev_ok ''rs485-bus1'' ''tempsensor2'') now
      in r1 \<and> \<not> r2 \<and> r3 \<and>
         shows_text fmt st3 now ''(tempsensor2: exception: Server device busy since 14:28:15Z)'' \<and>
         r4 \<and> \<not> r5 \<and> shows_text fmt st5 now (text_lines [''rs485-bus1: up, 2/2 devices ok'']))"

definition reconnect_resets_device_states :: "'t utc_fmt \<Rightarrow> 't \<Rightarrow> bool" where
  "reconnect_resets_device_states fmt now \<longleftrightarrow>
     (let st = applied now [ev_problem ''rs485-bus1'' ''tempsensor2'' ''timeout'', ev_down ''rs485-bus1'']
            (all_ok now example_state);
          (st', r) = apply_event st (ev_up ''rs485-bus1'') now
      in r \<and> shows_text fmt st' now (text_lines [''rs485-bus1: up, 0/2 devices ok'']))"

definition device_event_implies_connection_up :: "'t utc_fmt \<Rightarrow> 't \<Rightarrow> bool" where
  "device_event_implies_connection_up fmt now \<longleftrightarrow>
     (let (st, r) = apply_event example_state (ev_ok ''meter-tcp1'' ''meter1'') now
      in r \<and> shows_text fmt st now (text_lines [''meter-tcp1: up, 1/1 devices ok'']))"

definition unknown_ids_are_ignored :: "'t \<Rightarrow> bool" where
  "unknown_ids_are_ignored now \<longleftrightarrow>
     (let (st1, r1) = apply_event example_state (ev_up ''nope'') now;
          (st2, r2) = apply_event st1 (ev_ok ''meter-tcp1'' ''nope'') now;
          (_, r3) = apply_event st2 (ev_problem ''nope'' ''meter1'' ''timeout'') now
      in \<not> r1 \<and> \<not> r2 \<and> \<not> r3)"

section \<open>The model passes them\<close>

text \<open>\<open>now\<close> is 14:32:10 UTC, \<open>local_now\<close> the same instant with another offset, \<open>first\<close> 14:28:15 UTC.\<close>

definition status_test_clock :: "'t utc_fmt \<Rightarrow> 't \<Rightarrow> 't \<Rightarrow> 't \<Rightarrow> bool" where
  "status_test_clock fmt now local_now first \<longleftrightarrow>
     uf_timestamp fmt now = Some ''2026-09-23T14:32:10Z'' \<and> uf_timestamp fmt local_now = Some ''2026-09-23T14:32:10Z'' \<and>
     uf_time_of_day fmt first = Some ''14:28:15Z''"

lemma show_digit: "show_nat 0 = ''0''" "show_nat (Suc 0) = ''1''" "show_nat (Suc (Suc 0)) = ''2''"
  by (simp_all add: show_nat_def digits.simps char_of_def bit_0)

lemmas status_eval = example_state_def StatusState_new_def all_ok_def applied_def ev_up_def ev_down_def ev_ok_def
  ev_problem_def apply_event_def replace_def with_connection_def set_health_def set_health_conn_def conn_came_up_def
  problem_since_def

lemmas render_eval = render_status_def status_truncate_def MAX_STATUS_BYTES_def render_full_def render_connection_def
  render_device_def format_utc_def show_digit text_lines_def

lemma status_rendering_tests_pass:
  assumes "status_test_clock fmt now local_now first"
  shows "renders_all_ok fmt now" and "renders_one_problem_device_as_in_design_example fmt now first"
    and "renders_fully_down fmt now"
  using assms
  by (simp_all add: status_test_clock_def renders_all_ok_def renders_one_problem_device_as_in_design_example_def
      renders_fully_down_def status_eval render_eval)

lemma status_text_tests_pass:
  assumes "status_test_clock fmt now local_now first"
  shows "timestamps_render_in_utc fmt local_now" and "unpolled_devices_are_not_counted_ok fmt now"
    and "reconnect_resets_device_states fmt now" and "device_event_implies_connection_up fmt now"
  using assms
  by (simp_all add: status_test_clock_def shows_text_def timestamps_render_in_utc_def
      unpolled_devices_are_not_counted_ok_def reconnect_resets_device_states_def
      device_event_implies_connection_up_def status_eval render_eval sublist_code)

lemma status_problem_tests_pass:
  assumes "status_test_clock fmt now local_now first"
  shows "problem_keeps_first_since_and_clears_on_ok fmt now first" and "unknown_ids_are_ignored now"
  using assms
  by (simp_all add: status_test_clock_def shows_text_def problem_keeps_first_since_and_clears_on_ok_def
      unknown_ids_are_ignored_def status_eval render_eval sublist_code)

end
