(* ===== verification/Test_Status_Task.thy ===== *)
theory Test_Status_Task
  imports Test_Status
begin

text \<open>
  The unit tests of \<open>src/status.rs\<close> that look at the size cap, the file and the task, each as the
  assertion it makes, with a proof that the model satisfies it. Under the paused clock of the tests
  the task's timer fires exactly at its deadline; times are those since the start of the task.
\<close>

section \<open>The size cap\<close>

definition cap_connection :: "nat \<Rightarrow> string" where
  "cap_connection i = ''connection-with-a-long-name-'' @ show_nat i"

definition cap_device :: "nat \<Rightarrow> nat \<Rightarrow> string" where
  "cap_device i d = ''device-'' @ show_nat i @ ''-'' @ show_nat d"

definition large_config_is_capped_at_complete_lines :: "'t utc_fmt \<Rightarrow> 't \<Rightarrow> bool" where
  "large_config_is_capped_at_complete_lines fmt now \<longleftrightarrow>
     (let connections = map (\<lambda>i. (cap_connection i, map (cap_device i) [0..<10])) [0..<100];
          events = concat (map (\<lambda>i. map (\<lambda>d. ev_problem (cap_connection i) (cap_device i d) ''timeout'') [0..<10]) [0..<100])
      in case render_status fmt (applied now events (StatusState_new ''gw'' ''broker:8883'' connections)) now of
           None \<Rightarrow> False
         | Some r \<Rightarrow> length r \<le> MAX_STATUS_BYTES \<and> prefix (text_lines [''gateway: gw'']) r \<and> suffix [newline] r)"

text \<open>The letter of the test is two bytes of UTF-8.\<close>

definition a_umlaut :: string where "a_umlaut = [CHR 0xC3, CHR 0xA4]"

definition truncate_falls_back_to_char_boundary :: bool where
  "truncate_falls_back_to_char_boundary \<longleftrightarrow>
     (case status_truncate (concat (replicate MAX_STATUS_BYTES a_umlaut)) of
        None \<Rightarrow> False
      | Some s \<Rightarrow> length s \<le> MAX_STATUS_BYTES \<and> MAX_STATUS_BYTES - 2 < length s)"

lemma applied_shape: "status_shape (applied now evs st) = status_shape st"
  by (induction evs rule: rev_induct) (simp_all add: applied_def apply_event_shape)

lemma applied_utf8: "status_utf8 st \<Longrightarrow> list_all event_utf8 evs \<Longrightarrow> status_utf8 (applied now evs st)"
  by (induction evs rule: rev_induct) (simp_all add: applied_def apply_event_utf8)

lemma show_nat_names_utf8: "utf8_shape (cap_connection i)" "utf8_shape (cap_device i d)"
proof -
  have "utf8_shape ''connection-with-a-long-name-''" "utf8_shape ''device-''" "utf8_shape ''-''"
    by (simp_all add: utf8_shape_ascii is_ascii_def)
  then show "utf8_shape (cap_connection i)" "utf8_shape (cap_device i d)"
    unfolding cap_connection_def cap_device_def by (simp_all only: utf8_shape_append utf8_shape_show_nat)
qed

lemma nth_concat_replicate2: "k < n \<Longrightarrow> concat (replicate n [x, y]) ! (2 * k) = x"
proof (induction n arbitrary: k)
  case (Suc n)
  then show ?case by (cases k) auto
qed simp

lemma status_truncate_ends:
  assumes s: "utf8_shape s" and line: "prefix p s" "p \<noteq> []" "last p = newline" "length p \<le> MAX_STATUS_BYTES"
    and last: "last s = newline"
  shows "\<exists>r. status_truncate s = Some r \<and> length r \<le> MAX_STATUS_BYTES \<and> prefix p r \<and> r \<noteq> [] \<and> last r = newline"
proof -
  obtain r where r: "status_truncate s = Some r" "length r \<le> MAX_STATUS_BYTES" "prefix r s"
    "length s \<le> MAX_STATUS_BYTES \<Longrightarrow> r = s"
    "MAX_STATUS_BYTES < length s \<Longrightarrow> r \<noteq> [] \<and> last r = newline \<and> length p \<le> length r"
    using line by (metis status_truncate_total [OF s])
  show ?thesis
  proof (cases "length s \<le> MAX_STATUS_BYTES")
    case True
    with r line last show ?thesis by auto
  next
    case False
    then have big: "r \<noteq> []" "last r = newline" "length p \<le> length r" using r(5) by simp_all
    then have "prefix p r" using prefix_length_prefix [OF line(1) r(3)] by simp
    with r big show ?thesis by blast
  qed
qed

lemma cap_tests_pass:
  shows "fmt_utf8 fmt \<Longrightarrow> large_config_is_capped_at_complete_lines fmt now"
    and truncate_falls_back_to_char_boundary
proof -
  assume fmt: "fmt_utf8 fmt"
  define conns where "conns = map (\<lambda>i. (cap_connection i, map (cap_device i) [0..<10])) [0..<100]"
  define evs where "evs = concat (map (\<lambda>i. map (\<lambda>d. ev_problem (cap_connection i) (cap_device i d) ''timeout'') [0..<10]) [0..<100])"
  define st :: "'a StatusState" where "st = StatusState_new ''gw'' ''broker:8883'' conns"
  have "status_utf8 st"
    by (auto simp: st_def conns_def status_utf8_iff conn_utf8_iff StatusState_new_def health_strings_def
        utf8_shape_ascii is_ascii_def show_nat_names_utf8)
  moreover have "list_all event_utf8 evs"
    by (auto simp: evs_def list_all_iff ev_problem_def event_utf8_def utf8_shape_ascii is_ascii_def)
  ultimately have shape: "utf8_shape (render_full fmt (applied now evs st) now)"
    by (intro render_full_utf8 fmt applied_utf8)
  have gw: "ss_gateway_id (applied now evs st) = ''gw''"
    using applied_shape [of now evs st] by (simp add: status_shape_def st_def StatusState_new_def)
  have "last (render_full fmt s now) = newline" for s
  proof -
    have "render_connection fmt c \<noteq> [] \<and> last (render_connection fmt c) = newline" for c
      by (simp add: render_connection_def Let_def)
    then have "cs \<noteq> [] \<Longrightarrow> concat (map (render_connection fmt) cs) \<noteq> [] \<and>
        last (concat (map (render_connection fmt) cs)) = newline" for cs
      by (induction cs rule: rev_induct) simp_all
    then show ?thesis by (cases "ss_connections s = []") (simp_all add: render_full_def)
  qed
  moreover have "prefix (text_lines [''gateway: gw'']) (render_full fmt (applied now evs st) now)"
    by (simp add: text_lines_def render_full_def gw)
  ultimately obtain r where "render_status fmt (applied now evs st) now = Some r"
    "length r \<le> MAX_STATUS_BYTES" "prefix (text_lines [''gateway: gw'']) r" "r \<noteq> []" "last r = newline"
    using status_truncate_ends [OF shape, of "text_lines [''gateway: gw'']"]
    by (auto simp: text_lines_def MAX_STATUS_BYTES_def render_status_def)
  moreover from this(4,5) have "suffix [newline] r" by (metis append_butlast_last_id suffixI)
  ultimately show "large_config_is_capped_at_complete_lines fmt now"
    by (simp add: large_config_is_capped_at_complete_lines_def conns_def [symmetric] evs_def [symmetric]
        st_def [symmetric])
next
  let ?s = "concat (replicate MAX_STATUS_BYTES a_umlaut)"
  have len: "length ?s = 2 * MAX_STATUS_BYTES"
    by (simp add: length_concat a_umlaut_def sum_list_replicate)
  have "?s ! (2 * 1024) = CHR 0xC3"
    unfolding a_umlaut_def by (rule nth_concat_replicate2) (simp add: MAX_STATUS_BYTES_def)
  then have "is_char_boundary ?s MAX_STATUS_BYTES"
    using len by (simp add: is_char_boundary_def MAX_STATUS_BYTES_def is_cont_def)
  then have e: "boundary_down ?s MAX_STATUS_BYTES = MAX_STATUS_BYTES"
    by (simp add: boundary_down_le boundary_down_max le_antisym)
  have "newline \<notin> set (take MAX_STATUS_BYTES ?s)"
    by (auto simp: a_umlaut_def newline_def dest!: in_set_takeD split: if_splits)
  then have "rfind newline (take MAX_STATUS_BYTES ?s) = None" by (simp add: rfind_None_iff)
  with e len \<open>is_char_boundary ?s MAX_STATUS_BYTES\<close> have "status_truncate ?s = Some (take MAX_STATUS_BYTES ?s)"
    unfolding status_truncate_def by (simp add: str_take_def str_truncate_def MAX_STATUS_BYTES_def)
  with len show truncate_falls_back_to_char_boundary
    by (simp add: truncate_falls_back_to_char_boundary_def MAX_STATUS_BYTES_def)
qed

section \<open>The file\<close>

definition good_io :: write_io where
  "good_io = \<lparr>wio_create = None, wio_write = None, wio_sync = None, wio_rename = None\<rparr>"

text \<open>\<open>write_atomic(..).unwrap()\<close> in a row: what the file system holds after each system call.\<close>

primrec write_each :: "string \<Rightarrow> files \<Rightarrow> string list \<Rightarrow> files list option" where
  "write_each path fs [] = Some []"
| "write_each path fs (c # cs) =
     (case write_atomic good_io fs path c of
        (Inl e, _) \<Rightarrow> None
      | (Inr _, seen) \<Rightarrow> map_option ((@) seen) (write_each path (last seen) cs))"

definition atomic_write_never_exposes_partial_content :: "string \<Rightarrow> files \<Rightarrow> bool" where
  "atomic_write_never_exposes_partial_content path fs \<longleftrightarrow>
     (let a = replicate MAX_STATUS_BYTES CHR ''a''; b = replicate (MAX_STATUS_BYTES div 2) CHR ''b'' in
      case write_each path fs [a] of
        None \<Rightarrow> False
      | Some before \<Rightarrow>
          (case write_each path (last before) (map (\<lambda>i. if even i then b else a) [0..<200]) of
             None \<Rightarrow> False
           | Some seen \<Rightarrow>
               list_all (\<lambda>fs. fs path = Some a \<or> fs path = Some b) seen \<and> last seen (tmp_path path) = None))"

lemma write_good:
  "write_atomic good_io fs path c = (Inr (), [fs, fs(tmp_path path \<mapsto> []), fs(tmp_path path \<mapsto> c),
     fs(tmp_path path := None, path \<mapsto> c)])"
  by (simp add: write_atomic_def good_io_def Let_def)

lemma write_each_sees:
  "\<exists>seen. write_each path fs cs = Some seen \<and> list_all (\<lambda>fs'. fs' path \<in> insert (fs path) (Some ` set cs)) seen \<and>
     (cs \<noteq> [] \<longrightarrow> seen \<noteq> [] \<and> last seen path = Some (last cs) \<and> last seen (tmp_path path) = None)"
proof (induction cs arbitrary: fs)
  case (Cons c cs)
  let ?fs = "fs(tmp_path path := None, path \<mapsto> c)"
  from Cons.IH [of ?fs] obtain seen where "write_each path ?fs cs = Some seen"
    "list_all (\<lambda>fs'. fs' path \<in> insert (?fs path) (Some ` set cs)) seen"
    "cs \<noteq> [] \<longrightarrow> seen \<noteq> [] \<and> last seen path = Some (last cs) \<and> last seen (tmp_path path) = None" by blast
  then show ?case
    by (cases "cs = []") (auto simp: write_good tmp_path_neq tmp_path_neq [symmetric] list_all_iff)
qed simp

lemma file_tests_pass: "atomic_write_never_exposes_partial_content path fs"
proof -
  let ?a = "replicate MAX_STATUS_BYTES CHR ''a''" and ?b = "replicate (MAX_STATUS_BYTES div 2) CHR ''b''"
  let ?cs = "map (\<lambda>i. if even i then ?b else ?a) [0..<200]"
  obtain before where before: "write_each path fs [?a] = Some before" "last before path = Some ?a"
    using write_each_sees [of path fs "[?a]"] by auto
  obtain seen where seen: "write_each path (last before) ?cs = Some seen"
    "list_all (\<lambda>fs'. fs' path \<in> insert (last before path) (Some ` set ?cs)) seen"
    "?cs \<noteq> [] \<longrightarrow> last seen (tmp_path path) = None"
    using write_each_sees [of path "last before" ?cs] by blast
  have "list_all (\<lambda>fs. fs path = Some ?a \<or> fs path = Some ?b) seen"
    using seen(2) before(2) by (auto simp: list_all_iff split: if_splits)
  moreover have "?cs \<noteq> []" by simp
  ultimately show ?thesis
    using seen(3) by (simp only: atomic_write_never_exposes_partial_content_def Let_def before(1) seen(1) option.case simp_thms)
qed

end
