(* ===== verification/Test_Status_Loop.thy ===== *)
theory Test_Status_Loop
  imports Test_Status_Task
begin

text \<open>
  The unit tests of the status writer's task in \<open>src/status.rs\<close>. The clock is the paused one of the
  tests: the timer fires exactly at the task's deadline, an event arrives when the test sends it. Times
  are since the start of the task; \<open>utc t\<close> is the UTC time at \<open>t\<close>.
\<close>

section \<open>Fixtures\<close>

text \<open>
  The writer with the events \<open>sends\<close> until the time \<open>until\<close>, and the writes it makes with their times.
  The fuel bounds the number of events and ticks.
\<close>

fun sim_writer ::
  "'t utc_fmt \<Rightarrow> (instant \<Rightarrow> 't) \<Rightarrow> duration \<Rightarrow> duration \<Rightarrow> instant \<Rightarrow> nat \<Rightarrow> 't writer \<Rightarrow> (instant \<times> StatusEvent) list
     \<Rightarrow> ('t writer \<times> (instant \<times> string) list) option" where
  "sim_writer fmt utc debounce heartbeat until 0 w sends = None"
| "sim_writer fmt utc debounce heartbeat until (Suc n) w ((t, ev) # sends) =
     (if writer_deadline w < t then
        (case writer_step fmt debounce heartbeat w (WriterTimer (utc (writer_deadline w)) (writer_deadline w)) of
           (WriterRunning w', out) \<Rightarrow>
             map_option (\<lambda>(r, ws). (r, map (Pair (writer_deadline w)) out @ ws))
               (sim_writer fmt utc debounce heartbeat until n w' ((t, ev) # sends))
         | _ \<Rightarrow> None)
      else
        (case writer_step fmt debounce heartbeat w (WriterRecv ev (utc t) t) of
           (WriterRunning w', _) \<Rightarrow> sim_writer fmt utc debounce heartbeat until n w' sends
         | _ \<Rightarrow> None))"
| "sim_writer fmt utc debounce heartbeat until (Suc n) w [] =
     (if until < writer_deadline w then Some (w, [])
      else
        (case writer_step fmt debounce heartbeat w (WriterTimer (utc (writer_deadline w)) (writer_deadline w)) of
           (WriterRunning w', out) \<Rightarrow>
             map_option (\<lambda>(r, ws). (r, map (Pair (writer_deadline w)) out @ ws))
               (sim_writer fmt utc debounce heartbeat until n w' [])
         | _ \<Rightarrow> None))"

definition spawn_loop ::
  "'t utc_fmt \<Rightarrow> (instant \<Rightarrow> 't) \<Rightarrow> duration \<Rightarrow> duration \<Rightarrow> instant \<Rightarrow> (instant \<times> StatusEvent) list
     \<Rightarrow> ('t writer \<times> (instant \<times> string) list) option" where
  "spawn_loop fmt utc debounce heartbeat until sends =
     (case writer_start fmt heartbeat example_state (utc 0) 0 of
        (WriterRunning w, out) \<Rightarrow>
          map_option (\<lambda>(r, ws). (r, map (Pair 0) out @ ws)) (sim_writer fmt utc debounce heartbeat until 20 w sends)
      | _ \<Rightarrow> None)"

text \<open>\<open>drop(tx); task.await.unwrap()\<close>.\<close>

definition ends_on_close :: "'t utc_fmt \<Rightarrow> (instant \<Rightarrow> 't) \<Rightarrow> duration \<Rightarrow> duration \<Rightarrow> instant \<Rightarrow> 't writer \<Rightarrow> bool" where
  "ends_on_close fmt utc debounce heartbeat t w \<longleftrightarrow>
     fst (writer_step fmt debounce heartbeat w (WriterClosed (utc t))) = WriterReturned"

section \<open>The tests\<close>

definition debounce_coalesces_a_burst_into_one_write :: "'t utc_fmt \<Rightarrow> (instant \<Rightarrow> 't) \<Rightarrow> bool" where
  "debounce_coalesces_a_burst_into_one_write fmt utc \<longleftrightarrow>
     (let until = dur_from_millis 6000;
          sends = map (\<lambda>i. (dur_from_millis (100 * (word_of_nat i + 1)),
                        if even i then ev_up ''rs485-bus1'' else ev_down ''rs485-bus1'')) [0..<10]
      in case spawn_loop fmt utc (dur_from_secs 2) (dur_from_secs 30) until sends of
           None \<Rightarrow> False
         | Some (w, writes) \<Rightarrow>
             map fst writes = [0, dur_from_millis 2100] \<and>
             sublist (text_lines [''connection rs485-bus1: down'']) (snd (writes ! 1)) \<and>
             ends_on_close fmt utc (dur_from_secs 2) (dur_from_secs 30) until w)"

definition heartbeat_rewrites_without_changes :: "'t utc_fmt \<Rightarrow> (instant \<Rightarrow> 't) \<Rightarrow> bool" where
  "heartbeat_rewrites_without_changes fmt utc \<longleftrightarrow>
     (let until = dur_from_secs 95 in
      case spawn_loop fmt utc (dur_from_secs 2) (dur_from_secs 30) until [] of
        None \<Rightarrow> False
      | Some (w, writes) \<Rightarrow>
          map fst writes = map dur_from_millis [0, 30000, 60000, 90000] \<and>
          ends_on_close fmt utc (dur_from_secs 2) (dur_from_secs 30) until w)"

definition unchanged_state_does_not_trigger_a_write :: "'t utc_fmt \<Rightarrow> (instant \<Rightarrow> 't) \<Rightarrow> bool" where
  "unchanged_state_does_not_trigger_a_write fmt utc \<longleftrightarrow>
     (let until = dur_from_secs 10 in
      case spawn_loop fmt utc (dur_from_secs 2) (dur_from_secs 30) until [(0, ev_down ''meter-tcp1'')] of
        None \<Rightarrow> False
      | Some (w, writes) \<Rightarrow>
          map fst writes = [0] \<and> ends_on_close fmt utc (dur_from_secs 2) (dur_from_secs 30) until w)"

text \<open>The last two close the channel at once: the events are those that the task receives.\<close>

definition close_after ::
  "'t utc_fmt \<Rightarrow> (instant \<Rightarrow> 't) \<Rightarrow> duration \<Rightarrow> duration \<Rightarrow> StatusEvent \<Rightarrow> 't writer_result \<times> string list" where
  "close_after fmt utc debounce heartbeat ev =
     (case writer_start fmt heartbeat example_state (utc 0) 0 of
        (WriterRunning w, out) \<Rightarrow>
          (case writer_run fmt debounce heartbeat w [WriterRecv ev (utc 0) 0, WriterClosed (utc 0)] of
             (r, out') \<Rightarrow> (r, out @ out'))
      | (r, out) \<Rightarrow> (r, out))"

definition pending_change_is_written_on_close :: "'t utc_fmt \<Rightarrow> (instant \<Rightarrow> 't) \<Rightarrow> bool" where
  "pending_change_is_written_on_close fmt utc \<longleftrightarrow>
     (let (r, writes) = close_after fmt utc (dur_from_secs 2) (dur_from_secs 30) MqttConnected
      in r = WriterReturned \<and> length writes = 2 \<and> sublist ''mqtt: connected'' (writes ! 1))"

definition writer_creates_the_status_file :: "'t utc_fmt \<Rightarrow> (instant \<Rightarrow> 't) \<Rightarrow> string \<Rightarrow> bool" where
  "writer_creates_the_status_file fmt utc path \<longleftrightarrow>
     (let (r, writes) = close_after fmt utc (dur_from_millis 10) (dur_from_secs 30) (ev_up ''meter-tcp1'');
          fs = last (run_status_writer path (\<lambda>_. None) (map (\<lambda>c. (c, good_io)) writes))
      in r = WriterReturned \<and>
         (case fs path of
            None \<Rightarrow> False
          | Some contents \<Rightarrow>
              prefix (text_lines [''gateway: gw-router1'']) contents \<and>
              sublist (text_lines [''connection meter-tcp1: up, 0/1 devices ok'']) contents) \<and>
         fs (tmp_path path) = None)"

section \<open>The model passes them\<close>

text \<open>A timestamp has twenty characters.\<close>

definition timestamp_len :: "'t utc_fmt \<Rightarrow> bool" where
  "timestamp_len fmt \<longleftrightarrow> (\<forall>t. length (format_utc (uf_timestamp fmt) t) = 20)"

lemma sublist_appendR: "sublist t b \<Longrightarrow> sublist t (a @ b)"
  by (meson sublist_append_leftI sublist_order.order_trans)

lemmas writer_eval = writer_start_def writer_step_def writer_write_def writer_deadline_def dur_from_secs_def
  dur_from_millis_def inst_add_def inst_max_def nanos_per_sec_def

lemmas loop_eval = render_status_def status_truncate_def MAX_STATUS_BYTES_def render_full_def render_connection_def
  render_device_def show_digit text_lines_def writer_eval

lemma sim_fuel: "sim_writer fmt utc d h u 20 w s = sim_writer fmt utc d h u
    (Suc (Suc (Suc (Suc (Suc (Suc (Suc (Suc (Suc (Suc (Suc (Suc (Suc (Suc (Suc (Suc (Suc (Suc (Suc (Suc 0)))))))))))))))))))) w s"
  by (simp add: numeral_eq_Suc)

lemma example_state_renders:
  assumes "timestamp_len fmt"
  shows "render_status fmt example_state t = Some (render_full fmt example_state t)"
proof -
  from assms have len: "length (format_utc (uf_timestamp fmt) t) = 20" for t by (simp add: timestamp_len_def)
  show ?thesis by (simp add: len example_state_def StatusState_new_def loop_eval)
qed

lemma meter_down_no_change: "apply_event example_state (ev_down ''meter-tcp1'') t = (example_state, False)"
  by (simp add: status_eval)

lemma heartbeat_tests_pass:
  assumes "timestamp_len fmt"
  shows "heartbeat_rewrites_without_changes fmt utc" and "unchanged_state_does_not_trigger_a_write fmt utc"
proof -
  note eval = spawn_loop_def sim_fuel ends_on_close_def writer_eval example_state_renders [OF assms] meter_down_no_change
  show "heartbeat_rewrites_without_changes fmt utc"
    by (simp add: heartbeat_rewrites_without_changes_def eval)
  show "unchanged_state_does_not_trigger_a_write fmt utc"
    by (simp add: unchanged_state_does_not_trigger_a_write_def eval)
qed

lemma close_tests_pass:
  assumes "timestamp_len fmt"
  shows "pending_change_is_written_on_close fmt utc" and "writer_creates_the_status_file fmt utc path"
proof -
  from assms have len: "length (format_utc (uf_timestamp fmt) t) = 20" for t by (simp add: timestamp_len_def)
  show "pending_change_is_written_on_close fmt utc"
    by (simp add: pending_change_is_written_on_close_def close_after_def len status_eval loop_eval sublist_code sublist_appendR)
  show "writer_creates_the_status_file fmt utc path"
    by (simp add: writer_creates_the_status_file_def close_after_def len status_eval loop_eval write_good tmp_path_neq
        tmp_path_neq [symmetric] sublist_code sublist_appendR)
qed

text \<open>The flapping connection alternates between the example state and the one in which it is up.\<close>

definition rs485_up :: "'t StatusState" where
  "rs485_up = example_state\<lparr>ss_connections :=
     map (\<lambda>c. if cs_id c = ''rs485-bus1'' then c\<lparr>cs_up := True\<rparr> else c) (ss_connections example_state)\<rparr>"

lemma rs485_flaps:
  "apply_event example_state (ev_up ''rs485-bus1'') t = (rs485_up, True)"
  "apply_event rs485_up (ev_down ''rs485-bus1'') t = (example_state, True)"
  by (simp_all add: rs485_up_def status_eval)

lemma debounce_test_passes:
  assumes "timestamp_len fmt"
  shows "debounce_coalesces_a_burst_into_one_write fmt utc"
proof -
  note eval = spawn_loop_def sim_fuel ends_on_close_def writer_eval example_state_renders [OF assms] rs485_flaps
  have "sublist (text_lines [''connection rs485-bus1: down'']) (render_full fmt example_state t)" for t
    by (simp add: example_state_def StatusState_new_def loop_eval sublist_code sublist_appendR)
  then show ?thesis
    by (simp add: debounce_coalesces_a_burst_into_one_write_def eval upt_rec)
qed

end
