(* ===== verification/Test_Supervisor.thy ===== *)
theory Test_Supervisor
  imports Supervisor
begin

text \<open>
  The unit tests of \<open>src/modbus/supervisor.rs\<close> as assertions about the trace of the supervisor, with a
  proof that the model satisfies them. Under the paused clock a run that panics takes no time, so the
  gap between two spawns is the wait between them. In the test of two siblings each supervisor has its
  own trace: the model has no state that they share, as the code has none.
\<close>

section \<open>Fixtures\<close>

definition test_backoff :: Backoff where
  "test_backoff = Backoff_new (dur_from_secs 1) (dur_from_secs 4)"

text \<open>A task whose first \<open>n\<close> runs panic. The run after them does not end, so no pass looks at its end.\<close>

definition flaky :: "nat \<Rightarrow> nat \<Rightarrow> join_result" where
  "flaky n run = (if run < n then JoinPanic (PayloadStr ''injected panic'') else JoinOk)"

definition spawns_in :: "super_action list \<Rightarrow> nat" where
  "spawns_in tr = length (filter (\<lambda>a. case a of SpawnTask _ \<Rightarrow> True | _ \<Rightarrow> False) tr)"

definition spawn_gaps :: "super_action list \<Rightarrow> u64 list" where
  "spawn_gaps tr = map dur_as_secs (concat (map (\<lambda>a. case a of WaitBackoff d \<Rightarrow> [d] | _ \<Rightarrow> []) tr))"

section \<open>The tests\<close>

text \<open>
  The supervisor is in its fifth pass when it is dropped: the fifth run was spawned and stays up
  before the 60 s of the test are over.
\<close>

definition respawns_exactly_n_times_with_backoff :: bool where
  "respawns_exactly_n_times_with_backoff \<longleftrightarrow>
     (let (phase, s) = supervise (flaky 4) ''flaky'' test_backoff 4; tr = supervise_drop AwaitingRun ''flaky'' s
      in phase = Supervising \<and> spawns_in tr = 5 \<and> spawn_gaps tr = [1, 2, 4, 4] \<and>
         sum_list (map unat (spawn_gaps tr)) < 60)"

definition normal_exit_ends_supervision :: bool where
  "normal_exit_ends_supervision \<longleftrightarrow>
     (let (phase, s) = supervise (\<lambda>_. JoinOk) ''oneshot'' test_backoff 1
      in phase = SuperReturned \<and> spawns_in (su_trace s) = 1)"

definition aborting_supervisor_aborts_running_task :: bool where
  "aborting_supervisor_aborts_running_task \<longleftrightarrow>
     (let (phase, s) = supervise (flaky 0) ''child'' test_backoff 0
      in phase = Supervising \<and> supervise_drop AwaitingRun ''child'' s = [SpawnTask 0, AbortTask 0])"

text \<open>The ticks of a task that stays up, at the given time in milliseconds after its spawn.\<close>

definition ticks_at :: "nat \<Rightarrow> nat" where
  "ticks_at ms = ms div 1000 + 1"

text \<open>
  At 30.5 s the bad task has panicked nine times: the first eight waits are over, the ninth is not.
\<close>

definition panicking_task_does_not_affect_sibling :: bool where
  "panicking_task_does_not_affect_sibling \<longleftrightarrow>
     (let (bad_phase, bad) = supervise (flaky (2 ^ 64 - 1)) ''bad'' test_backoff 9;
          (good_phase, good) = supervise (flaky 0) ''good'' test_backoff 0;
          waits_of = map unat (spawn_gaps (su_trace bad))
      in bad_phase = Supervising \<and> sum_list (butlast waits_of) * 1000 \<le> 30500 \<and>
         30500 < sum_list waits_of * 1000 \<and> 5 < spawns_in (su_trace bad) \<and>
         good_phase = Supervising \<and> spawns_in (supervise_drop AwaitingRun ''good'' good) = 1 \<and> ticks_at 30500 = 31)"

section \<open>The model passes them\<close>

text \<open>One pass of the flaky task, for the delays of the test.\<close>

lemma flaky_pass:
  assumes "run < n" and "cur \<le> 4000000000"
  shows "supervise_step (flaky n) name (Supervising, \<lparr>su_run = run,
      su_backoff = \<lparr>bo_min = lo, bo_max = 4000000000, bo_current = cur\<rparr>, su_trace = tr\<rparr>) =
    (Supervising, \<lparr>su_run = Suc run,
      su_backoff = \<lparr>bo_min = lo, bo_max = 4000000000, bo_current = min (cur * 2) (4000000000)\<rparr>,
      su_trace = tr @ [SpawnTask run, LogPanicked name ''injected panic'' cur, WaitBackoff cur, AbortTask run]\<rparr>)"
proof -
  have "cur * 2 \<le> dur_max" using assms(2) by (simp add: dur_max_def nanos_per_sec_def)
  with assms(1) show ?thesis
    by (simp add: supervise_step_def flaky_def Backoff_wait_def dur_mul_def panic_message_def Let_def)
qed

lemma supervisor_tests_pass:
  shows respawns_exactly_n_times_with_backoff and normal_exit_ends_supervision
    and aborting_supervisor_aborts_running_task and panicking_task_does_not_affect_sibling
proof -
  have "supervise (flaky 4) ''flaky'' test_backoff 4 = supervise (flaky 4) ''flaky'' test_backoff (Suc (Suc (Suc (Suc 0))))"
    by (simp add: numeral_eq_Suc)
  then show respawns_exactly_n_times_with_backoff
    by (simp add: respawns_exactly_n_times_with_backoff_def supervise_Suc test_backoff_def Backoff_new_def flaky_pass
        dur_from_secs_def nanos_per_sec_def supervise_drop_def spawns_in_def spawn_gaps_def dur_as_secs_def)
  show normal_exit_ends_supervision
    by (simp add: normal_exit_ends_supervision_def supervise_def supervise_step_def spawns_in_def Let_def)
  show aborting_supervisor_aborts_running_task
    by (simp add: aborting_supervisor_aborts_running_task_def supervise_drop_def)
  have "supervise ends name b 9 = supervise ends name b
      (Suc (Suc (Suc (Suc (Suc (Suc (Suc (Suc (Suc 0)))))))))" for ends name b
    by (simp add: numeral_eq_Suc)
  then show panicking_task_does_not_affect_sibling
    by (simp add: panicking_task_does_not_affect_sibling_def supervise_Suc test_backoff_def Backoff_new_def
        flaky_pass dur_from_secs_def nanos_per_sec_def supervise_drop_def spawns_in_def spawn_gaps_def
        dur_as_secs_def ticks_at_def)
qed

end
