(* ===== verification/Test_Syslog.thy ===== *)
theory Test_Syslog
  imports Syslog "HOL-Library.Sublist"
begin

text \<open>
  The unit tests of \<open>src/syslog.rs\<close>, each as the assertion it makes, with a proof that the model
  satisfies it. The test server is the environment: which incarnation of it is bound to the path at
  each moment. The sleeps of the tests are the distances between the clock readings of the events.
\<close>

section \<open>Fixtures\<close>

text \<open>
  \<open>alive n\<close> is the incarnation of the server bound at moment \<open>n\<close>. A socket is named by the moment that
  opened it, and reaches the incarnation it was connected to.
\<close>

definition server_env :: "(nat \<Rightarrow> nat option) \<Rightarrow> syslog_env" where
  "server_env alive =
     \<lparr>se_unbound = (\<lambda>n. Some n), se_connect = (\<lambda>n s path. alive n \<noteq> None), se_set_nonblocking = (\<lambda>n s. True),
      se_send = (\<lambda>n s line. if alive n \<noteq> None \<and> alive n = alive s then Sent else SendError)\<rparr>"

text \<open>The layer of the tests, created at moment and time 0.\<close>

definition test_layer :: "(nat \<Rightarrow> nat option) \<Rightarrow> ('t \<Rightarrow> string option) \<Rightarrow> u32 \<Rightarrow> string \<Rightarrow> 't SyslogLayer option" where
  "test_layer alive fmt pid path =
     SyslogLayer_with_options (server_env alive) 0 0 0 fmt pid ''gw-test'' path (dur_from_millis 50) (dur_from_millis 200)"

text \<open>\<open>tracing::info!("..")\<close> and its siblings, at a moment and a time; no event is filtered.\<close>

definition test_event :: "nat \<Rightarrow> instant \<Rightarrow> 't \<Rightarrow> Level \<Rightarrow> string \<Rightarrow> 't event" where
  "test_event n now utc level msg = (n, now, utc, level, [], [(''message'', FieldDebug msg)])"

definition test_outs ::
  "(nat \<Rightarrow> nat option) \<Rightarrow> ('t \<Rightarrow> string option) \<Rightarrow> u32 \<Rightarrow> string \<Rightarrow> 't event list \<Rightarrow> log_out list option" where
  "test_outs alive fmt pid path events =
     Option.bind (test_layer alive fmt pid path) (\<lambda>l.
       map_option snd (log_events (server_env alive) (Some TRACE) l events))"

text \<open>What the server receives, and \<open>Captured::text\<close>.\<close>

definition recvd :: "log_out list \<Rightarrow> string list" where
  "recvd outs = concat (map (\<lambda>x. case x of ToSocket _ line \<Rightarrow> [line] | _ \<Rightarrow> []) outs)"

definition captured_text :: "log_out list \<Rightarrow> string" where
  "captured_text outs = concat (map (\<lambda>x. case x of ToFallback t \<Rightarrow> t | _ \<Rightarrow> []) outs)"

section \<open>The tests\<close>

definition frames_every_level_with_daemon_facility :: "('t \<Rightarrow> string option) \<Rightarrow> 't \<Rightarrow> bool" where
  "frames_every_level_with_daemon_facility fmt ts \<longleftrightarrow>
     list_all (\<lambda>(level, pri).
         format_rfc3164 fmt level ts ''gw-router1'' 42 ''hello'' = Some (pri @ ''Sep  3 04:05:06 gw-router1[42]: hello''))
       [(ERROR, ''<27>''), (WARN, ''<28>''), (INFO, ''<30>''), (DEBUG, ''<31>''), (TRACE, ''<31>'')]"

definition two_digit_days_are_not_padded :: "('t \<Rightarrow> string option) \<Rightarrow> 't \<Rightarrow> bool" where
  "two_digit_days_are_not_padded fmt ts \<longleftrightarrow>
     format_rfc3164 fmt INFO ts ''gw'' 1 ''x'' = Some ''<30>Dec 24 23:59:59 gw[1]: x''"

definition sends_framed_events_with_fields_and_spans :: "('t \<Rightarrow> string option) \<Rightarrow> 't \<Rightarrow> u32 \<Rightarrow> string \<Rightarrow> bool" where
  "sends_framed_events_with_fields_and_spans fmt utc pid path \<longleftrightarrow>
     (let conn = on_new_span \<lparr>sp_name = ''conn'', sp_fields = None\<rparr> [(''connection'', FieldStr ''meter-tcp1'')];
          event = (1, 0, utc, WARN, [conn],
            [(''message'', FieldDebug ''io timeout''), (''device'', FieldStr ''meter1''), (''retry_in'', FieldDebug ''2s'')])
      in case test_outs (\<lambda>_. Some 0) fmt pid path [event] of
           None \<Rightarrow> False
         | Some outs \<Rightarrow>
             (case recvd outs of
                [msg] \<Rightarrow> prefix ''<28>'' msg \<and>
                  suffix ('' gw-test['' @ show_nat (unat pid) @
                    '']: conn{connection=meter-tcp1}: io timeout device=meter1 retry_in=2s'') msg
              | _ \<Rightarrow> False) \<and>
             captured_text outs = [])"

text \<open>The server is bound after the first event.\<close>

definition falls_back_to_stderr_until_socket_appears :: "('t \<Rightarrow> string option) \<Rightarrow> 't \<Rightarrow> u32 \<Rightarrow> string \<Rightarrow> bool" where
  "falls_back_to_stderr_until_socket_appears fmt utc pid path \<longleftrightarrow>
     (case test_outs (\<lambda>n. if n \<le> 1 then None else Some 0) fmt pid path
         [test_event 1 0 utc INFO ''before syslogd'', test_event 2 (dur_from_millis 300) utc ERROR ''after syslogd''] of
        None \<Rightarrow> False
      | Some outs \<Rightarrow>
          captured_text [outs ! 0] = '' INFO before syslogd'' @ [newline] \<and>
          (case recvd outs of
             [msg] \<Rightarrow> prefix ''<27>'' msg \<and> suffix '': after syslogd'' msg
           | _ \<Rightarrow> False) \<and>
          captured_text outs = '' INFO before syslogd'' @ [newline])"

definition retry_backoff_doubles_up_to_max :: "string \<Rightarrow> bool" where
  "retry_backoff_doubles_up_to_max path \<longleftrightarrow>
     (let env = server_env (\<lambda>_. None) in
      case Connection_new env 0 0 0 path (dur_from_millis 10) (dur_from_millis 40) of
        None \<Rightarrow> False
      | Some conn0 \<Rightarrow>
          sc_socket conn0 = None \<and> sc_backoff conn0 = dur_from_millis 20 \<and>
          (case conn_socket env 1 0 conn0 of
             None \<Rightarrow> False
           | Some conn1 \<Rightarrow>
               sc_socket conn1 = None \<and> sc_backoff conn1 = dur_from_millis 20 \<and>
               (case conn_socket env 2 (sc_next_attempt conn1) conn1 of
                  None \<Rightarrow> False
                | Some conn2 \<Rightarrow>
                    sc_socket conn2 = None \<and> sc_backoff conn2 = dur_from_millis 40 \<and>
                    (case conn_socket env 3 (sc_next_attempt conn2) conn2 of
                       None \<Rightarrow> False
                     | Some conn3 \<Rightarrow>
                         sc_socket conn3 = None \<and> sc_backoff conn3 = dur_from_millis 40 \<and>
                         (case conn_socket env 4 (sc_next_attempt conn3) conn3 of
                            None \<Rightarrow> False
                          | Some conn4 \<Rightarrow> sc_socket conn4 = None \<and> sc_backoff conn4 = dur_from_millis 40)))))"

text \<open>The server is gone for the second event, and another one is bound before the third.\<close>

definition reconnects_after_syslogd_restart :: "('t \<Rightarrow> string option) \<Rightarrow> 't \<Rightarrow> u32 \<Rightarrow> string \<Rightarrow> bool" where
  "reconnects_after_syslogd_restart fmt utc pid path \<longleftrightarrow>
     (case test_outs (\<lambda>n. if n \<le> 1 then Some 0 else if n = 2 then None else Some 1) fmt pid path
         [test_event 1 0 utc INFO ''one'', test_event 2 0 utc INFO ''two'',
          test_event 3 (dur_from_millis 100) utc INFO ''three''] of
        None \<Rightarrow> False
      | Some outs \<Rightarrow>
          (case recvd outs of
             [first, second] \<Rightarrow> suffix '': one'' first \<and> suffix '': three'' second
           | _ \<Rightarrow> False) \<and>
          captured_text outs = '' INFO two'' @ [newline])"

section \<open>The model passes them\<close>

lemma frame_tests_pass:
  "fmt ts = Some ''Sep  3 04:05:06'' \<Longrightarrow> frames_every_level_with_daemon_facility fmt ts"
  "fmt ts = Some ''Dec 24 23:59:59'' \<Longrightarrow> two_digit_days_are_not_padded fmt ts"
  by (simp_all add: frames_every_level_with_daemon_facility_def two_digit_days_are_not_padded_def format_rfc3164_def
      FACILITY_DAEMON_def severity_def show_nat_def digits.simps char_of_def bit_0 bit_Suc)

lemmas syslog_eval = test_outs_def test_layer_def test_event_def server_env_def SyslogLayer_with_options_def
  Connection_new_def try_connect_def open_socket_def connect_failed_def conn_socket_def disconnect_def dur_mul_def
  dur_from_millis_def dur_max_def nanos_per_sec_def filtered_event_def level_enabled_def less_eq_Level_def
  on_event_def emit_message_def recvd_def captured_text_def

lemmas text_eval = event_message_def visit_fields_def visit_field_def separator_def field_text_def on_new_span_def
  span_prefix_def fallback_line_def pad_left_def format_rfc3164_def FACILITY_DAEMON_def severity_def

lemma show_priority: "show_nat 27 = ''27''" "show_nat 28 = ''28''" "show_nat 30 = ''30''"
  by (simp_all add: show_nat_def digits.simps char_of_def bit_0 bit_Suc)

lemma connection_test_passes: "retry_backoff_doubles_up_to_max path"
  by (simp add: retry_backoff_doubles_up_to_max_def syslog_eval)

lemma layer_tests_pass:
  assumes "fmt utc = Some ts"
  shows "sends_framed_events_with_fields_and_spans fmt utc pid path"
    and "falls_back_to_stderr_until_socket_appears fmt utc pid path"
    and "reconnects_after_syslogd_restart fmt utc pid path"
proof -
  note eval = assms syslog_eval text_eval show_priority suffix_Cons suffix_appendI
  show "sends_framed_events_with_fields_and_spans fmt utc pid path"
    by (simp add: sends_framed_events_with_fields_and_spans_def eval)
  show "falls_back_to_stderr_until_socket_appears fmt utc pid path"
    by (simp add: falls_back_to_stderr_until_socket_appears_def eval)
  show "reconnects_after_syslogd_restart fmt utc pid path"
    by (simp add: reconnects_after_syslogd_restart_def eval)
qed

end
