(* ===== verification/Test_Validate.thy ===== *)
theory Test_Validate
  imports Validate
begin

text \<open>
  The unit tests of \<open>src/config/validate.rs\<close>, each as the assertion it makes, with a proof that the
  model satisfies it wherever the files and parsers behave as the tests set them up.
\<close>

section \<open>Fixtures\<close>

definition validate_test_point :: "string \<Rightarrow> u16 \<Rightarrow> DataType \<Rightarrow> PointConfig" where
  "validate_test_point name offset data_type =
     \<lparr>pt_name = name, pt_offset = offset, pt_data_type = data_type, pt_scale = f64_one,
      pt_absolute = False, pt_unit = ''V''\<rparr>"

definition validate_test_block :: "u16 \<Rightarrow> u16 \<Rightarrow> PointConfig list \<Rightarrow> BlockConfig" where
  "validate_test_block start cnt points =
     \<lparr>bk_function = Holding, bk_start = start, bk_count = cnt, bk_word_order = BigEndian, bk_points = points\<rparr>"

definition validate_test_device :: "string \<Rightarrow> u8 \<Rightarrow> BlockConfig list \<Rightarrow> DeviceConfig" where
  "validate_test_device name unit_id blocks = \<lparr>dv_id = name, dv_unit_id = unit_id, dv_blocks = blocks\<rparr>"

text \<open>\<open>env!("CARGO_MANIFEST_DIR")\<close> is a parameter.\<close>

definition valid_ca_cert_path :: "string \<Rightarrow> string" where
  "valid_ca_cert_path manifest_dir = manifest_dir @ ''/src/config/testdata/valid_ca.pem''"

definition test_gateway :: GatewayConfig where
  "test_gateway = \<lparr>gw_id = ''gw-test'', gw_aggregation_window_secs = 60, gw_base_name_prefix = ''urn:dev:gw-test:'',
     gw_log_level = ''info'', gw_status_file_path = ''/tmp/status'', gw_status_debounce_secs = 2,
     gw_status_heartbeat_secs = 30\<rparr>"

definition test_mqtt :: "string \<Rightarrow> MqttConfig" where
  "test_mqtt ca_cert_path = \<lparr>mq_broker_host = ''10.0.0.5'', mq_broker_port = 8883, mq_client_id = ''gw'', mq_tls = False,
     mq_ca_cert_path = ca_cert_path, mq_username = ''gateway'', mq_password_env = ''MQTT_PASSWORD'', mq_qos = 1,
     mq_keep_alive_secs = 30, mq_topic_template = ''telemetry/{device}''\<rparr>"

definition test_connection :: ConnectionConfig where
  "test_connection = \<lparr>cn_id = ''conn1'', cn_transport = Tcp ''192.168.1.50'' 502, cn_poll_interval_secs = 10,
     cn_io_timeout_ms = 1000, cn_reconnect_backoff_min_secs = 1, cn_reconnect_backoff_max_secs = 30,
     cn_devices = [validate_test_device ''meter1'' 1 [validate_test_block 3000 8
       [validate_test_point ''voltage_l1'' 0 F32, validate_test_point ''current_l1'' 2 F32]]]\<rparr>"

text \<open>\<open>valid_config()\<close> of the tests.\<close>

definition test_config :: "string \<Rightarrow> Config" where
  "test_config manifest_dir = \<lparr>cf_gateway = test_gateway, cf_mqtt = test_mqtt (valid_ca_cert_path manifest_dir),
     cf_connections = [test_connection]\<rparr>"

text \<open>A change of the connection, or of its device or that device's block, which are the only ones.\<close>

definition with_conn :: "(ConnectionConfig \<Rightarrow> ConnectionConfig) \<Rightarrow> Config \<Rightarrow> Config" where
  "with_conn f c = c\<lparr>cf_connections := map f (cf_connections c)\<rparr>"

definition with_block :: "(BlockConfig \<Rightarrow> BlockConfig) \<Rightarrow> Config \<Rightarrow> Config" where
  "with_block f = with_conn (\<lambda>c. c\<lparr>cn_devices := map (\<lambda>d. d\<lparr>dv_blocks := map f (dv_blocks d)\<rparr>) (cn_devices c)\<rparr>)"

definition with_mqtt :: "(MqttConfig \<Rightarrow> MqttConfig) \<Rightarrow> Config \<Rightarrow> Config" where
  "with_mqtt f c = c\<lparr>cf_mqtt := f (cf_mqtt c)\<rparr>"

definition rejected :: "'level config_env \<Rightarrow> (ValidationError \<Rightarrow> bool) \<Rightarrow> Config \<Rightarrow> bool" where
  "rejected env p config = (case validate env config of Inl e \<Rightarrow> p e | Inr _ \<Rightarrow> False)"

section \<open>The tests\<close>

definition valid_config_passes :: "'level config_env \<Rightarrow> string \<Rightarrow> bool" where
  "valid_config_passes env dir \<longleftrightarrow> validate env (test_config dir) = Inr ()"

definition zero_aggregation_window_is_rejected :: "'level config_env \<Rightarrow> string \<Rightarrow> bool" where
  "zero_aggregation_window_is_rejected env dir \<longleftrightarrow>
     rejected env (\<lambda>e. case e of ZeroInterval _ \<Rightarrow> True | _ \<Rightarrow> False)
       ((test_config dir)\<lparr>cf_gateway := test_gateway\<lparr>gw_aggregation_window_secs := 0\<rparr>\<rparr>)"

definition zero_poll_interval_is_rejected :: "'level config_env \<Rightarrow> string \<Rightarrow> bool" where
  "zero_poll_interval_is_rejected env dir \<longleftrightarrow>
     rejected env (\<lambda>e. case e of ZeroInterval _ \<Rightarrow> True | _ \<Rightarrow> False)
       (with_conn (\<lambda>c. c\<lparr>cn_poll_interval_secs := 0\<rparr>) (test_config dir))"

definition invalid_qos_is_rejected :: "'level config_env \<Rightarrow> string \<Rightarrow> bool" where
  "invalid_qos_is_rejected env dir \<longleftrightarrow>
     validate env (with_mqtt (\<lambda>m. m\<lparr>mq_qos := 3\<rparr>) (test_config dir)) = Inl (InvalidQos 3)"

definition invalid_log_level_is_rejected :: "'level config_env \<Rightarrow> string \<Rightarrow> bool" where
  "invalid_log_level_is_rejected env dir \<longleftrightarrow>
     validate env ((test_config dir)\<lparr>cf_gateway := test_gateway\<lparr>gw_log_level := ''verbose''\<rparr>\<rparr>) =
       Inl (InvalidLogLevel ''verbose'')"

definition duplicate_unit_id_within_connection_is_rejected :: "'level config_env \<Rightarrow> string \<Rightarrow> bool" where
  "duplicate_unit_id_within_connection_is_rejected env dir \<longleftrightarrow>
     rejected env (\<lambda>e. case e of DuplicateUnitId _ _ \<Rightarrow> True | _ \<Rightarrow> False)
       (with_conn (\<lambda>c. c\<lparr>cn_devices := cn_devices c @ [validate_test_device ''meter2'' 1 [validate_test_block 4000 2 []]]\<rparr>)
         (test_config dir))"

definition test_rtu_connection :: "string \<Rightarrow> ConnectionConfig" where
  "test_rtu_connection name = \<lparr>cn_id = name, cn_transport = Rtu ''/dev/ttyUSB0'' 9600 8 ParityNone 1 0,
     cn_poll_interval_secs = 10, cn_io_timeout_ms = 500, cn_reconnect_backoff_min_secs = 1,
     cn_reconnect_backoff_max_secs = 30, cn_devices = [validate_test_device ''sensor1'' 1 []]\<rparr>"

definition duplicate_serial_port_across_connections_is_rejected :: "'level config_env \<Rightarrow> string \<Rightarrow> bool" where
  "duplicate_serial_port_across_connections_is_rejected env dir \<longleftrightarrow>
     rejected env (\<lambda>e. case e of DuplicateSerialPort _ _ _ \<Rightarrow> True | _ \<Rightarrow> False)
       ((test_config dir)\<lparr>cf_connections := [test_rtu_connection ''busA'', test_rtu_connection ''busB'']\<rparr>)"

definition test_rtu_config :: "string \<Rightarrow> u8 \<Rightarrow> u8 \<Rightarrow> Config" where
  "test_rtu_config dir data_bits stop_bits =
     with_conn (\<lambda>c. c\<lparr>cn_transport := Rtu ''/dev/ttyUSB0'' 9600 data_bits ParityNone stop_bits 0\<rparr>) (test_config dir)"

definition unsupported_data_bits_or_stop_bits_are_rejected :: "'level config_env \<Rightarrow> string \<Rightarrow> bool" where
  "unsupported_data_bits_or_stop_bits_are_rejected env dir \<longleftrightarrow>
     validate env (test_rtu_config dir 8 2) = Inr () \<and>
     list_all (\<lambda>(data_bits, stop_bits).
       rejected env (\<lambda>e. case e of UnsupportedSerialSetting _ _ _ _ \<Rightarrow> True | _ \<Rightarrow> False)
         (test_rtu_config dir data_bits stop_bits)) [(9, 1), (4, 1), (8, 0), (8, 3)]"

definition block_exceeding_125_registers_is_rejected :: "'level config_env \<Rightarrow> string \<Rightarrow> bool" where
  "block_exceeding_125_registers_is_rejected env dir \<longleftrightarrow>
     rejected env (\<lambda>e. case e of BlockTooLarge _ _ _ _ \<Rightarrow> True | _ \<Rightarrow> False)
       (with_block (\<lambda>b. b\<lparr>bk_start := 0, bk_count := 126\<rparr>) (test_config dir))"

definition point_offset_beyond_block_count_is_rejected :: "'level config_env \<Rightarrow> string \<Rightarrow> bool" where
  "point_offset_beyond_block_count_is_rejected env dir \<longleftrightarrow>
     rejected env (\<lambda>e. case e of PointOutOfBounds _ _ _ _ _ _ _ \<Rightarrow> True | _ \<Rightarrow> False)
       (with_block (\<lambda>b. b\<lparr>bk_count := 1\<rparr>) (test_config dir))"

definition overlapping_points_are_rejected :: "'level config_env \<Rightarrow> string \<Rightarrow> bool" where
  "overlapping_points_are_rejected env dir \<longleftrightarrow>
     rejected env (\<lambda>e. case e of OverlappingPoints _ _ _ _ _ \<Rightarrow> True | _ \<Rightarrow> False)
       (with_block (\<lambda>b. b\<lparr>bk_points := (bk_points b)[1 := (bk_points b ! 1)\<lparr>pt_offset := 1\<rparr>]\<rparr>) (test_config dir))"

definition missing_ca_cert_file_is_rejected :: "'level config_env \<Rightarrow> string \<Rightarrow> bool" where
  "missing_ca_cert_file_is_rejected env dir \<longleftrightarrow>
     rejected env (\<lambda>e. case e of CaCertUnreadable _ _ \<Rightarrow> True | _ \<Rightarrow> False)
       (with_mqtt (\<lambda>m. m\<lparr>mq_ca_cert_path := ''/nonexistent/ca.pem''\<rparr>) (test_config dir))"

text \<open>These two write a file to \<open>path\<close> first.\<close>

definition garbage_ca :: string where "garbage_ca = ''not a certificate''"

definition malformed_ca :: string where
  "malformed_ca = ''-----BEGIN CERTIFICATE-----'' @ [newline] @ ''!!!!'' @ [newline] @ ''-----END CERTIFICATE-----'' @ [newline]"

definition with_file :: "string \<Rightarrow> string \<Rightarrow> 'level config_env \<Rightarrow> 'level config_env" where
  "with_file path contents env = env\<lparr>ce_read_file := (ce_read_file env)(path := Inr contents)\<rparr>"

definition garbage_ca_cert_file_is_rejected :: "'level config_env \<Rightarrow> string \<Rightarrow> string \<Rightarrow> bool" where
  "garbage_ca_cert_file_is_rejected env dir path \<longleftrightarrow>
     rejected (with_file path garbage_ca env) (\<lambda>e. case e of CaCertEmpty _ \<Rightarrow> True | _ \<Rightarrow> False)
       (with_mqtt (\<lambda>m. m\<lparr>mq_ca_cert_path := path\<rparr>) (test_config dir))"

definition malformed_pem_ca_cert_file_is_rejected :: "'level config_env \<Rightarrow> string \<Rightarrow> string \<Rightarrow> bool" where
  "malformed_pem_ca_cert_file_is_rejected env dir path \<longleftrightarrow>
     rejected (with_file path malformed_ca env) (\<lambda>e. case e of CaCertUnparseable _ _ \<Rightarrow> True | _ \<Rightarrow> False)
       (with_mqtt (\<lambda>m. m\<lparr>mq_ca_cert_path := path\<rparr>) (test_config dir))"

section \<open>The model passes them\<close>

text \<open>What the tests take for granted: the test certificate can be read and parsed, \<open>/nonexistent\<close> does
not exist, \<open>info\<close> is a level and \<open>verbose\<close> is none; the PEM parser finds no certificate in garbage and
a broken one in a malformed section.\<close>

definition validate_test_env :: "'level config_env \<Rightarrow> string \<Rightarrow> bool" where
  "validate_test_env env dir \<longleftrightarrow> valid_ca_cert env (valid_ca_cert_path dir) \<and>
     isl (ce_read_file env ''/nonexistent/ca.pem'') \<and>
     ce_parse_level env ''info'' \<noteq> None \<and> ce_parse_level env ''verbose'' = None \<and>
     ce_pem_certs env garbage_ca = [] \<and> (\<exists>e. ce_pem_certs env malformed_ca = [Inl e])"

lemmas validate_eval = rejected_def validate_def with_conn_def with_block_def with_mqtt_def with_file_def
  test_config_def test_gateway_def test_mqtt_def test_connection_def validate_test_device_def
  validate_test_block_def validate_test_point_def test_rtu_connection_def test_rtu_config_def
  validate_connection_def check_unit_ids_def check_serial_def check_blocks_def check_block_def
  check_point_def check_pair_def Let_def

lemma fixture_ca: "validate_test_env env dir \<Longrightarrow> validate_ca_cert env (valid_ca_cert_path dir) = Inr ()"
  by (simp add: validate_test_env_def validate_ca_cert_iff)

lemma validate_tests_pass:
  assumes "validate_test_env env dir"
  shows "valid_config_passes env dir" and "zero_aggregation_window_is_rejected env dir"
    and "zero_poll_interval_is_rejected env dir" and "invalid_qos_is_rejected env dir"
    and "invalid_log_level_is_rejected env dir" and "duplicate_unit_id_within_connection_is_rejected env dir"
    and "duplicate_serial_port_across_connections_is_rejected env dir"
    and "unsupported_data_bits_or_stop_bits_are_rejected env dir"
    and "block_exceeding_125_registers_is_rejected env dir"
    and "point_offset_beyond_block_count_is_rejected env dir" and "overlapping_points_are_rejected env dir"
    and "missing_ca_cert_file_is_rejected env dir" and "garbage_ca_cert_file_is_rejected env dir path"
    and "malformed_pem_ca_cert_file_is_rejected env dir path"
  using assms fixture_ca [OF assms]
  by (auto simp: valid_config_passes_def zero_aggregation_window_is_rejected_def
      zero_poll_interval_is_rejected_def invalid_qos_is_rejected_def invalid_log_level_is_rejected_def
      duplicate_unit_id_within_connection_is_rejected_def duplicate_serial_port_across_connections_is_rejected_def
      unsupported_data_bits_or_stop_bits_are_rejected_def block_exceeding_125_registers_is_rejected_def
      point_offset_beyond_block_count_is_rejected_def overlapping_points_are_rejected_def
      missing_ca_cert_file_is_rejected_def garbage_ca_cert_file_is_rejected_def
      malformed_pem_ca_cert_file_is_rejected_def validate_eval validate_test_env_def validate_ca_cert_def isl_def)

text \<open>There is such an environment.\<close>

lemma validate_test_env_exists:
  "validate_test_env \<lparr>ce_read_file = (\<lambda>path. if path = valid_ca_cert_path ''/build'' then Inr ''pem'' else Inl ''not found''),
     ce_read_text = (\<lambda>_. Inl ''not found''), ce_parse_toml = (\<lambda>_. Inl ''no table''),
     ce_parse_level = (\<lambda>l. if l = ''info'' then Some () else None),
     ce_pem_certs = (\<lambda>pem. if pem = ''pem'' then [Inr ''der''] else if pem = malformed_ca then [Inl ''bad section''] else [])\<rparr>
     ''/build''"
proof -
  have "\<exists>certs. [Inr ''der''] = map (Inr :: string \<Rightarrow> string + string) certs \<and> certs \<noteq> []"
    by (rule exI [of _ "[''der'']"]) simp
  then show ?thesis
    by (simp add: validate_test_env_def valid_ca_cert_def valid_ca_cert_path_def garbage_ca_def malformed_ca_def)
qed

end
