(* ===== verification/Spec2Isabelle.thy ===== *)
theory Spec2Isabelle
  imports Deserialize Decode Aggregator Status Poller Supervisor Senml Mqtt Syslog Gateway Pipeline Reports Wire
    Test_Aggregator Test_Decode Test_Mqtt Test_Poller Test_Schema Test_Senml Test_Status_Loop Test_Supervisor
    Test_Syslog Test_Validate
begin

text \<open>
  The Modbus to SenML gateway: a verification library for the program in \<open>src/\<close>.

  \<^bold>\<open>The program.\<close> \<open>main\<close> loads and validates a TOML configuration, installs a syslog layer and runs the
  gateway. For each configured connection a supervised task polls the Modbus devices behind it,
  decodes their registers and sends readings into a bounded channel. One aggregator task keeps an
  accumulator per configured point and at the end of every aligned window sends one batch of means
  per device into a second bounded channel. One publisher task encodes each batch as a SenML pack and
  offers it to the MQTT client, whose event loop has a task of its own. All of them report to a
  status task over a third channel, which keeps a small status file up to date. SIGTERM or SIGINT
  stop polling first and then let the aggregator, the publisher and the status task drain.

  \<^bold>\<open>The theories\<close>, each with the source it follows:
  \<^item> \<open>Gw_Prelude\<close>: machine integers, \<open>?\<close> and \<open>for\<close> with early returns as sums, panicking code as
    \<open>option\<close>, decimal printing, list lemmas, and the collections \<open>panic_free\<close> and \<open>step_simps\<close>.
    \<open>Clock\<close>: \<open>Duration\<close> and \<open>Instant\<close>. \<open>Utf8\<close>: cutting a \<open>str\<close> at byte positions. \<open>F64\<close>: IEEE 754
    binary64 on naturals and integers, with the proof that every operation rounds to the nearest.
    \<open>Hash_Map\<close>, \<open>Channel\<close>: the contracts of \<open>HashMap\<close> and \<open>mpsc\<close> as locales with interpretations.
  \<^item> \<open>Schema\<close>: \<open>types.rs\<close> and \<open>config/schema.rs\<close>, field by field.
  \<^item> \<open>Validate\<close>: \<open>config/validate.rs\<close> and \<open>load\<close> of \<open>config/mod.rs\<close>. \<open>Serde\<close>: what a derived
    \<open>Deserialize\<close> does with the tree of a TOML document, and the locale \<open>reader\<close>, the contract of a type
    that can be read, written and specified. \<open>Deserialize\<close>: the implementations of \<open>config/schema.rs\<close>, with
    an interpretation of \<open>reader\<close> for each, and \<open>from_str\<close> as \<open>load\<close> calls it.
  \<^item> \<open>Decode\<close>: \<open>modbus/decode.rs\<close>.
  \<^item> \<open>Backoff\<close>: \<open>Backoff\<close> of \<open>modbus/poller.rs\<close> and the contract it shares with the reconnects of the
    syslog socket. \<open>Poller\<close>: the rest of that file. \<open>Supervisor\<close>: \<open>modbus/supervisor.rs\<close>.
  \<^item> \<open>Aggregator\<close>: \<open>aggregator.rs\<close>. \<open>Senml\<close>: \<open>senml.rs\<close>. \<open>Mqtt\<close>: \<open>mqtt.rs\<close>.
  \<^item> \<open>Status\<close>: \<open>status.rs\<close>. \<open>Syslog\<close>: \<open>syslog.rs\<close> and the level filter that \<open>main\<close> puts on it.
  \<^item> \<open>Gateway\<close>: \<open>run\<close> of \<open>lib.rs\<close> and \<open>main\<close>. \<open>Pipeline\<close>: the tasks that \<open>run\<close> starts, composed, from
    the pollers to the publisher. \<open>Wire\<close>: the publisher and the encoder behind it. \<open>Reports\<close>: the pollers,
    the event loop and the status together.
  \<^item> \<open>Example_Config\<close>: the configuration on which the properties are instantiated.
  \<^item> \<open>Test_Aggregator\<close>, \<open>Test_Decode\<close>, \<open>Test_Mqtt\<close>, \<open>Test_Poller\<close>, \<open>Test_Schema\<close>, \<open>Test_Senml\<close>,
    \<open>Test_Status\<close> (with \<open>Test_Status_Task\<close> and \<open>Test_Status_Loop\<close>), \<open>Test_Supervisor\<close>, \<open>Test_Syslog\<close>,
    \<open>Test_Validate\<close>: the program's own unit tests, each as the assertion it makes about the definitions above, under its
    name in the source, with the proof that the model satisfies it. They are evidence that the model is
    the program: what the authors checked by running the code holds of the definitions too.
    \<open>Test_Prelude\<close>: how the simplifier evaluates concrete doubles.

  \<^bold>\<open>How state and operations correspond.\<close> A struct is a record and an enum a datatype with the source's
  constructors; an operation on \<open>&mut self\<close> returns the new state. A task is a step function on its
  state and the event that its \<open>select!\<close> or its \<open>await\<close> delivers: \<open>agg_step\<close>, \<open>writer_step\<close>,
  \<open>eventloop_step\<close>, \<open>supervise_step\<close>, and \<open>conn_step\<close>, one step of which is one iteration of the loop of
  \<open>run_connection\<close>. What a task does to the world (requests, sends, delays, log lines) is the trace it
  leaves. Errors are the left side of a sum, panics are \<open>None\<close> or a constructor of the result. \<open>Pipeline\<close>
  is the one place where tasks interleave: \<open>pipe_step\<close> is a relation, a step of which is one action of
  one task, and \<open>pipe_reach\<close> holds of every state they can get into; \<open>run_step\<close> puts the phases of \<open>run\<close> around
  it: the wait, the stop of the pollers, the drain, and the aborts after a failure or the grace period.

  \<^bold>\<open>The specifications.\<close> \<open>valid_config\<close> says what a valid configuration is, without the order of the
  checks, and \<open>defect\<close> what each error claims. \<open>is_Config\<close> says which configuration a document denotes,
  without the order of its entries or of their visit. \<open>exact_value\<close> is the real number a register holds.
  The aggregator is refined by a list: \<open>closed_windows\<close> splits the received readings at the ticks of
  the timer, \<open>window_points\<close> gives the points of a window from its samples. \<open>resolve\<close> is the
  resolution of RFC 8428, which knows nothing of the encoder. \<open>justified\<close> says of each action of a
  poller what must come right before it, \<open>answered\<close> that the results it records are the environment's answers
  to those calls. \<open>waits_since\<close> and \<open>backoff_delay\<close> give the next delay of a backoff from its uses. \<open>status_shape\<close> and \<open>outage\<close> describe the status state by the events
  so far, \<open>unwritten\<close> and \<open>owes\<close> what the status file is late with. \<open>start_order\<close> and \<open>stop_order\<close> list what \<open>run\<close> does
  to its tasks, \<open>mqtt_ready\<close> says what it needs before that. \<open>parse_frame\<close> reads a syslog line by the columns of
  RFC 3164. \<open>pipe_windows\<close> are the windows of the composed system.

  \<^bold>\<open>What the lemmas show.\<close>
  \<^item> The whole way: in every state the composed tasks can reach, the published mean of an integer point
    is the rounded mean of integers that its device returned in the window; nothing accepted is lost,
    doubled or reordered; the bounded channels cannot deadlock; a shutdown drains in a bounded
    number of steps besides the timer's, unless the grace period passes first, when only what is still queued is
    abandoned; the packs given to the client then resolve to one record for every window and
    every point with a reading in it. With a valid configuration and responses of full length the
    pollers panic only where a backoff doubles a delay of more than half the range of durations, and the
    aggregator does not.
  \<^item> Configuration: a document deserialises exactly to the configuration it denotes, every configuration
    can be written so that it is read back, and \<open>load\<close> gives the valid ones of those; \<open>validate\<close> accepts exactly the valid ones and every error names a defect; a valid
    configuration cannot fail on serial settings, on the level or on the quality of service later.
  \<^item> Polling: what a tick asks, forwards and reports; when it ends early; every action of a poller is
    justified by the ones before; it keeps connecting and polling while the aggregator listens and responses are
    complete; a run that panics is respawned with growing delays.
  \<^item> Aggregation: windows partition the readings, boundaries are aligned and free of drift, means are
    correctly rounded for integers, and what a NaN does.
  \<^item> Publication: the topic determines the device id when the template has a place for it, each batch is offered once and in order, the
    status topic ends as announced, each outage is warned of once.
  \<^item> Status file: its shape follows the configuration, it shows the state after all events at the
    latest one debounce interval after the first change that is not in it, it is never seen half-written, it respects the cap;
    once the events of a tick have arrived it shows what the tick found, whatever was lost before; what
    it shows of the broker when reports are lost.
  \<^item> Syslog: each event that passes the filter is written exactly once, to the socket or the fallback;
    frames can be read back; reconnects keep to their delays.
  \<^item> The program: order of start and shutdown, the exit code, and in which cases its main task panics.

  \<^bold>\<open>Bounds.\<close> Integers have their width, and their additions wrap as in a release build; what panics
  (an index out of range, \<open>Duration\<close> arithmetic, a zero interval) is a result of the model. \<open>run_connection\<close> and \<open>supervise\<close> take
  the number of iterations, since they do not end by themselves; what is stated of them holds for every
  number. The mean of a window is within the extremes of its samples for up to \<open>2 ^ 21\<close> readings: their
  sum is then below \<open>2 ^ 53\<close>, where additions are exact. A counter of samples is exact below \<open>2 ^ 32\<close>.

  \<^bold>\<open>What is a parameter.\<close> \<open>tokio\<close> (which task runs when, which branch of a
  \<open>select!\<close> is taken, the channels with the laws of \<open>Channel\<close>),
  \<open>tokio-modbus\<close> and \<open>tokio-serial\<close> (the answer to each request), \<open>toml\<close>
  (the tree of a text, the text of an error, and what it makes of a value of an unusual type where a struct or a
  variant is asked for: \<open>toml_crate\<close>), \<open>rumqttc\<close> (the answer to each publish and the
  events of its loop), \<open>serde_json\<close> (the text it writes for a value), \<open>time\<close> (the text
  of a time), \<open>tracing\<close> (spans and levels), the file system, the sockets and the clock. The
  iteration order of a \<open>HashMap\<close> is an arbitrary permutation.

  \<^bold>\<open>Not modelled.\<close> The grammar of TOML, which the crate \<open>toml\<close> parses: the
  model starts at the tree. How long a step takes: a timer fires at or after its deadline, and delays are the
  durations asked for; the grace period of \<open>run_step\<close> can pass at any time. The end of the clock (an \<open>Instant\<close> has \<open>2 ^ 63\<close> seconds) is
  modelled where an interval of the configuration is added to an instant, in the aggregator and the status
  writer (the retry times of the syslog socket, at most a minute ahead, have no such end), whose panic \<open>long_heartbeat_panics\<close> shows; the tasks of \<open>Pipeline\<close> are
  followed up to it. \<open>modbus/mod.rs\<close> only declares modules. Every unit test has its counterpart;
  those of timing are assertions about the waits and deadlines of the model, since it has no clock that runs by
  itself.
\<close>

section \<open>From the registers to the published mean\<close>

text \<open>All points of that name are integer registers at scale 1.\<close>

definition integer_point :: "Config \<Rightarrow> PointId \<Rightarrow> bool" where
  "integer_point config pid \<longleftrightarrow>
     (\<forall>conn \<in> set (cf_connections config). \<forall>d \<in> set (cn_devices conn). \<forall>b \<in> set (dv_blocks d).
        \<forall>p \<in> set (bk_points b). \<lparr>pid_device = dv_id d, pid_point = pt_name p\<rparr> = pid \<longrightarrow>
          pt_data_type p \<noteq> F32 \<and> pt_scale p = f64_one)"

text \<open>The integer that a device returned for the point in registers of one of its blocks.\<close>

definition point_int :: "BlockConfig \<Rightarrow> u16 list \<Rightarrow> PointConfig \<Rightarrow> int" where
  "point_int b words p =
     (let i = register_int (bk_word_order b) words (unat (pt_offset p)) (pt_data_type p)
      in if pt_absolute p then \<bar>i\<bar> else i)"

definition returned :: "('r, 'b) pipe_params \<Rightarrow> PointId \<Rightarrow> int \<Rightarrow> bool" where
  "returned P pid i \<longleftrightarrow>
     (\<exists>c k n d b p words x. c < length (conns P) \<and> configured_read (conns P ! c) d b (Words words) x \<and>
        x \<in> set (run_trace P c k n) \<and> p \<in> set (bk_points b) \<and>
        pid = \<lparr>pid_device = dv_id d, pid_point = pt_name p\<rparr> \<and> i = point_int b words p)"

lemma decode_point_integer:
  assumes "decode_point b words p = Some (name, v)" and "pt_data_type p \<noteq> F32" and "pt_scale p = f64_one"
  shows "\<bar>point_int b words p\<bar> \<le> 2 ^ 32" and "v = f64_of_int (point_int b words p)"
proof -
  let ?i = "register_int (bk_word_order b) words (unat (pt_offset p)) (pt_data_type p)"
  have len: "unat (pt_offset p) + unat (word_count (pt_data_type p)) \<le> length words"
    using assms(1) decode_point_None_iff [of b words p] by (simp add: not_less [symmetric])
  show "\<bar>point_int b words p\<bar> \<le> 2 ^ 32"
    using register_int_bound [of "bk_word_order b" words "unat (pt_offset p)" "pt_data_type p"]
    by (simp add: point_int_def Let_def)
  have "\<bar>?i\<bar> \<le> 2 ^ 53" using register_int_bound by (rule order_trans) simp
  then show "v = f64_of_int (point_int b words p)"
    using assms(1,3) by (auto simp: decode_point_def extract_raw_int [OF assms(2) len] Let_def f64_mul_one
        f64_of_int_wf f64_abs_of_int point_int_def)
qed

lemma decode_member:
  assumes "decode b words = Some vals" and "x \<in> set vals"
  shows "\<exists>p \<in> set (bk_points b). decode_point b words p = Some x \<and> fst x = pt_name p"
proof -
  have "list_all2 (\<lambda>p y. decode_point b words p = Some y) (bk_points b) vals"
    using assms(1) by (simp add: decode_def map_opt_Some_iff)
  moreover obtain k where "k < length vals" "x = vals ! k" using assms(2) by (metis in_set_conv_nth)
  ultimately have "bk_points b ! k \<in> set (bk_points b)" "decode_point b words (bk_points b ! k) = Some x"
    by (auto simp: list_all2_conv_all_nth)
  with decode_point_fst [OF this(2)] show ?thesis by blast
qed

lemma measured_integer:
  assumes "measured P c r" and int: "integer_point (pp_config P) (rd_point_id r)"
  shows "\<exists>i. returned P (rd_point_id r) i \<and> \<bar>i\<bar> \<le> 2 ^ 32 \<and> rd_value r = f64_of_int i"
proof -
  obtain k n d b words vals x where c: "c < length (conns P)"
    and x: "configured_read (conns P ! c) d b (Words words) x" "x \<in> set (run_trace P c k n)"
    and dec: "decode b words = Some vals" "r \<in> reading_of d ` set vals"
    using assms(1) unfolding measured_def by blast
  from dec(2) obtain name v where v: "(name, v) \<in> set vals" "r = reading_of d (name, v)" by auto
  from decode_member [OF dec(1) v(1)] obtain p where
    p: "p \<in> set (bk_points b)" "decode_point b words p = Some (name, v)" "name = pt_name p" by auto
  have pid: "rd_point_id r = \<lparr>pid_device = dv_id d, pid_point = pt_name p\<rparr>" "rd_value r = v"
    using v(2) p(3) by (simp_all add: reading_of_def)
  have "d \<in> set (cn_devices (conns P ! c))" "b \<in> set (dv_blocks d)" "conns P ! c \<in> set (conns P)"
    using x(1) c by (simp_all add: configured_read_def)
  then have "pt_data_type p \<noteq> F32 \<and> pt_scale p = f64_one"
    using int p(1) pid(1) unfolding integer_point_def by auto
  with decode_point_integer [OF p(2)] have "\<bar>point_int b words p\<bar> \<le> 2 ^ 32" "v = f64_of_int (point_int b words p)"
    by blast+
  moreover have "returned P (rd_point_id r) (point_int b words p)"
    unfolding returned_def using c x p(1) pid(1) by blast
  ultimately show ?thesis using pid(2) by blast
qed

lemma samples_ints:
  assumes "\<forall>r \<in> set rs. rd_point_id r = pid \<longrightarrow> (\<exists>i. Q i \<and> rd_value r = f64_of_int i)"
  shows "\<exists>is. samples rs pid = map f64_of_int is \<and> (\<forall>i \<in> set is. Q i)"
  using assms
proof (induction rs)
  case (Cons r rs)
  then obtain "is" where "samples rs pid = map f64_of_int is" "\<forall>i \<in> set is. Q i" by auto
  with Cons.prems show ?case
    by (cases "rd_point_id r = pid") (force simp: samples_def intro: exI [of _ "_ # is"], auto simp: samples_def)
qed (simp add: samples_def)

lemma offered_window:
  assumes ch: "channels_ok P" and start: "starts P agg now_unix now" and reach: "pipe_reach P s"
    and order: "\<And>m. mset (pp_order P m) = mset m" and b: "b \<in> set (pl_offered s)"
  shows "\<exists>rs. (rs, ab_window_start b, ab_window_end b) \<in> set (pipe_windows P s) \<and>
    b \<in> set (snd (flush (pp_order P) (agg_of (agg_points agg) rs) (ab_window_start b) (ab_window_end b)))"
proof -
  have "b \<in> set (concat (map (window_batches (pp_order P) (agg_points agg)) (pipe_windows P s)))"
    using pipe_windows(1) [OF start pipe_inv_reach [OF ch reach]] b by (metis Un_iff set_append)
  then obtain rs ws we where w: "(rs, ws, we) \<in> set (pipe_windows P s)"
    and f: "b \<in> set (snd (flush (pp_order P) (agg_of (agg_points agg) rs) ws we))"
    by (auto simp: window_batches_def)
  obtain agg' batches where fl: "(agg', batches) = flush (pp_order P) (agg_of (agg_points agg) rs) ws we"
    by (metis surj_pair)
  then have "b \<in> set batches" using f by (metis snd_conv)
  then have "ab_window_start b = ws" "ab_window_end b = we"
    using flush_batches(2) [OF order fl, of b] by (metis AggregatedBatch.select_convs(2,3))+
  with w f show ?thesis by blast
qed

text \<open>C1: End to end: for a point that is an integer register at scale 1, what the gateway publishes for a
window is the mean of integers that its devices returned. In every state the gateway can reach, for
every batch offered to the client and every such point in it, there is a closed window with the
bounds of the batch whose samples of the point are exactly integers returned by a device of the
configuration for that point, and the published value is the double nearest to their true mean and
lies between the least and the greatest of them (for up to \<open>2 ^ 21\<close> readings in a window).\<close>

theorem registers_to_published_mean:
  assumes "channels_ok P" and "starts P agg now_unix now"
    and "pipe_reach P s"
    and order: "\<And>m. mset (pp_order P m) = mset m"
    and len: "\<forall>(rs, ws, we) \<in> set (pipe_windows P s). length rs \<le> 2 ^ 21"
    and b: "b \<in> set (pl_offered s)" and p: "p \<in> set (ab_points b)"
    and int: "integer_point (pp_config P) \<lparr>pid_device = ab_device_id b, pid_point = ap_name p\<rparr>"
  shows "\<exists>rs is. (rs, ab_window_start b, ab_window_end b) \<in> set (pipe_windows P s) \<and>
    samples rs \<lparr>pid_device = ab_device_id b, pid_point = ap_name p\<rparr> = map f64_of_int is \<and>
    (\<forall>i \<in> set is. returned P \<lparr>pid_device = ab_device_id b, pid_point = ap_name p\<rparr> i) \<and>
    is \<noteq> [] \<and> f64_finite (ap_mean p) \<and>
    (\<forall>y. f64_wf y \<and> f64_finite y \<longrightarrow>
      \<bar>f64_val (ap_mean p) - real_of_int (sum_list is) / real (length is)\<bar>
        \<le> \<bar>f64_val y - real_of_int (sum_list is) / real (length is)\<bar>) \<and>
    real_of_int (Min (set is)) \<le> f64_val (ap_mean p) \<and> f64_val (ap_mean p) \<le> real_of_int (Max (set is))"
proof -
  let ?pid = "\<lparr>pid_device = ab_device_id b, pid_point = ap_name p\<rparr>"
  obtain rs where w: "(rs, ab_window_start b, ab_window_end b) \<in> set (pipe_windows P s)"
    and f: "b \<in> set (snd (flush (pp_order P) (agg_of (agg_points agg) rs) (ab_window_start b) (ab_window_end b)))"
    using offered_window [OF assms(1,2,3) order b] by blast
  have "set rs \<subseteq> set (map snd (pl_log s))"
    using w unfolding pipe_windows(2) [OF assms(2) pipe_inv_reach [OF assms(1,3)], symmetric] by force
  then have "\<exists>i. (returned P ?pid i \<and> \<bar>i\<bar> \<le> 2 ^ 32) \<and> rd_value r = f64_of_int i"
    if "r \<in> set rs" "rd_point_id r = ?pid" for r
    using that pollers_inv_reach [OF assms(3)] measured_integer [of P _ r] int
    unfolding pollers_inv_def by fastforce
  then obtain "is" where xs: "samples rs ?pid = map f64_of_int is"
    and bound: "\<forall>i \<in> set is. returned P ?pid i \<and> \<bar>i\<bar> \<le> 2 ^ 32"
    using samples_ints [of rs ?pid "\<lambda>i. returned P ?pid i \<and> \<bar>i\<bar> \<le> 2 ^ 32"] by blast
  have "length rs \<le> 2 ^ 21" using len w by blast
  then have "length is \<le> 2 ^ 21" "length rs < 2 ^ 32"
    using samples_length [of rs ?pid] xs by (metis length_map order_trans, simp)
  moreover have "distinct (map fst (agg_points agg))"
    using init_agg_points(2) assms(2) unfolding starts_def by blast
  ultimately show ?thesis
    using batch_mean_ints [OF f p _ order _ xs] bound w xs by blast
qed

theorem registers_to_published_mean_witness:
  "\<exists>is. samples [ex_voltage_reading] \<lparr>pid_device = ''meter'', pid_point = ''voltage''\<rparr> = map f64_of_int is \<and>
     is \<noteq> [] \<and> returned ex_params \<lparr>pid_device = ''meter'', pid_point = ''voltage''\<rparr> (hd is) \<and>
     f64_finite (ap_mean ex_mean) \<and> ex_batch \<in> set (pl_offered ex_published)"
proof -
  have wins: "pipe_windows ex_params ex_published = [([ex_voltage_reading], 60, 120)]"
    by (simp add: pipe_windows_def ex_published_def ex_params_def ex_config_def ex_gateway_def)
  have int: "integer_point (pp_config ex_params) \<lparr>pid_device = ab_device_id ex_batch, pid_point = ap_name ex_mean\<rparr>"
    by (simp add: integer_point_def ex_params_def ex_batch_def ex_mean_def ex_defs)
  have b: "ex_batch \<in> set (pl_offered ex_published)" and p: "ex_mean \<in> set (ab_points ex_batch)"
    by (simp_all add: ex_published_def ex_batch_def)
  have order: "\<And>m. mset (pp_order ex_params m) = mset m" by (simp add: ex_params_def)
  have len: "\<forall>(rs, ws, we) \<in> set (pipe_windows ex_params ex_published). length rs \<le> 2 ^ 21" by (simp add: wins)
  have eta: "ab_device_id ex_batch = ''meter''" "ap_name ex_mean = ''voltage''" by (simp_all add: ex_batch_def ex_mean_def)
  from registers_to_published_mean [OF ex_channels ex_starts ex_published_reach order len b p int] b
  show ?thesis unfolding wins eta by (auto dest: hd_in_set)
qed

end
